(* ===== verification/Prelude.thy ===== *)
theory Prelude
  imports Main "HOL-Library.Word" "HOL-Library.AList" "HOL-Library.Multiset"
begin

text \<open>
  Shared vocabulary of the development: the machine integers and the panic-or-value results of
  the Rust code, durations and instants, the association lists that stand for hash maps, the
  in-place update of the first matching element of a vector, and \<open>str::split\<close>.
  The lemmas about them are declared so that the component theories rarely unfold anything here.
\<close>

section \<open>Machine integers, identifiers, time\<close>

type_synonym u8 = "8 word"
type_synonym u32 = "32 word"
type_synonym u64 = "64 word"
type_synonym u128 = "128 word"

text \<open>The targets of the crate are 64-bit, so \<open>usize\<close> is 64 bits wide.\<close>

type_synonym usize = "64 word"

text \<open>A \<open>Uuid\<close> is its 128-bit value (\<open>as_u128\<close> is the identity here); a \<open>TypeId\<close> is an
  opaque number; bytes are 8-bit words.\<close>

type_synonym uuid = u128
type_synonym type_id = nat
type_synonym bytes = "u8 list"

text \<open>\<open>std::time::Duration\<close> as whole nanoseconds; an instant (\<open>DateTime<Utc>\<close> or \<open>Instant\<close>) as
  nanoseconds since its epoch.\<close>

type_synonym duration = nat
type_synonym datetime = int

definition duration_max :: duration where
  "duration_max = (2 ^ 64 - 1) * 10 ^ 9 + 999999999"

abbreviation from_millis :: "nat \<Rightarrow> duration" where
  "from_millis n \<equiv> n * 1000000"

abbreviation from_secs :: "nat \<Rightarrow> duration" where
  "from_secs n \<equiv> n * 1000000000"

section \<open>Results that may panic\<close>

text \<open>A Rust expression returns a value or panics.\<close>

datatype 'a outcome = Done 'a | Panic

fun bind_outcome :: "'a outcome \<Rightarrow> ('a \<Rightarrow> 'b outcome) \<Rightarrow> 'b outcome" where
  "bind_outcome (Done x) f = f x"
| "bind_outcome Panic f = Panic"

lemma bind_outcome_Done_iff [simp]:
  "bind_outcome r f = Done y \<longleftrightarrow> (\<exists>x. r = Done x \<and> f x = Done y)"
  by (cases r) auto

lemma bind_outcome_Panic_iff [simp]:
  "bind_outcome r f = Panic \<longleftrightarrow> r = Panic \<or> (\<exists>x. r = Done x \<and> f x = Panic)"
  by (cases r) auto

text \<open>
  Arithmetic on \<open>u32\<close>. The flag \<open>oc\<close> says whether the build has overflow checks (debug) or wraps
  around (release).
\<close>

definition u32_inc :: "bool \<Rightarrow> u32 \<Rightarrow> u32 outcome" where
  "u32_inc oc a = (if oc \<and> a = - 1 then Panic else Done (a + 1))"

definition u32_dec :: "bool \<Rightarrow> u32 \<Rightarrow> u32 outcome" where
  "u32_dec oc a = (if oc \<and> a = 0 then Panic else Done (a - 1))"

definition pow2_u32 :: "bool \<Rightarrow> u32 \<Rightarrow> u32 outcome" where
  "pow2_u32 oc n = (if oc \<and> 32 \<le> unat n then Panic else Done (2 ^ unat n))"

text \<open>\<open>Duration * u32\<close> panics on overflow in every build.\<close>

definition duration_mul :: "duration \<Rightarrow> u32 \<Rightarrow> duration outcome" where
  "duration_mul d k = (if d * unat k \<le> duration_max then Done (d * unat k) else Panic)"

lemma unat_Suc_u32:
  assumes "unat (a::u32) < 2 ^ 32 - 1"
  shows "unat (a + 1) = Suc (unat a)"
proof -
  have "unat a + unat (1::u32) < 2 ^ LENGTH(32)"
    using assms by simp
  then show ?thesis
    by (subst unat_add_lem [THEN iffD1]) simp_all
qed

lemma unat_u32_less: "unat (a::u32) < 2 ^ 32"
  using unsigned_less [of a] by simp

lemma unat_max_u32: "unat (- 1 :: u32) = 2 ^ 32 - 1"
  by (simp add: unsigned_minus_1_eq_mask mask_eq_exp_minus_1)

lemma unat_pow2_u32:
  assumes "n < 32"
  shows "unat ((2::u32) ^ n) = 2 ^ n"
proof -
  have "unat ((2::u32) ^ n) = unat (of_nat (2 ^ n) :: u32)"
    by simp
  also have "\<dots> = 2 ^ n mod 2 ^ 32"
    by (simp only: unat_of_nat) simp
  also have "\<dots> = 2 ^ n"
    by (rule mod_less) (rule power_strict_increasing [OF assms], simp)
  finally show ?thesis .
qed

lemma u32_inc_below_max:
  assumes "unat a < 2 ^ 32 - 1"
  shows "u32_inc oc a = Done (a + 1)"
  using assms by (auto simp: u32_inc_def unat_max_u32)

lemma u32_dec_Suc [simp]: "u32_dec oc (a + 1) = Done a" if "unat a < 2 ^ 32 - 1"
proof -
  have "a + 1 \<noteq> 0"
    using unat_Suc_u32 [OF that] by (metis nat.distinct(1) unat_0)
  then show ?thesis by (simp add: u32_dec_def)
qed

section \<open>Hash maps as association lists\<close>

text \<open>
  \<open>HashMap\<close>, \<open>DashMap\<close> and the redb tables are association lists: \<open>map_of\<close> reads, \<open>mput\<close>
  inserts or overwrites, \<open>mdel\<close> removes. Where the code iterates over a table in key order,
  \<open>table_iter\<close> sorts by key.
\<close>

abbreviation mput :: "'k \<Rightarrow> 'a \<Rightarrow> ('k \<times> 'a) list \<Rightarrow> ('k \<times> 'a) list" where
  "mput \<equiv> AList.update"

abbreviation mdel :: "'k \<Rightarrow> ('k \<times> 'a) list \<Rightarrow> ('k \<times> 'a) list" where
  "mdel \<equiv> AList.delete"

abbreviation mkeys :: "('k \<times> 'a) list \<Rightarrow> 'k set" where
  "mkeys m \<equiv> fst ` set m"

definition table_iter :: "('k::linorder \<times> 'a) list \<Rightarrow> ('k \<times> 'a) list" where
  "table_iter m = sort_key fst m"

named_theorems map_facts

lemma map_of_mput [map_facts, simp]: "map_of (mput k v m) = (map_of m)(k \<mapsto> v)"
  by (rule update_conv')

lemma map_of_mdel [map_facts, simp]: "map_of (mdel k m) = (map_of m)(k := None)"
  by (rule delete_conv')

lemma mkeys_map_of: "k \<in> mkeys m \<longleftrightarrow> (\<exists>v. map_of m k = Some v)"
  by (metis map_of_eq_None_iff not_None_eq)

lemma distinct_mput [map_facts, simp, intro]:
  "distinct (map fst m) \<Longrightarrow> distinct (map fst (mput k v m))"
  by (rule distinct_update)

lemma distinct_mdel [map_facts, simp, intro]:
  "distinct (map fst m) \<Longrightarrow> distinct (map fst (mdel k m))"
  by (rule distinct_delete)

lemma mkeys_mput [map_facts, simp]: "mkeys (mput k v m) = insert k (mkeys m)"
  by (simp add: dom_update dom_map_of_conv_image_fst [symmetric] del: dom_map_of_conv_image_fst)

lemma mkeys_mdel [map_facts, simp]: "mkeys (mdel k m) = mkeys m - {k}"
  by (induction m) auto

lemma set_map_of_distinct:
  "distinct (map fst m) \<Longrightarrow> (k, v) \<in> set m \<longleftrightarrow> map_of m k = Some v"
  by simp

lemma set_table_iter [simp]: "set (table_iter m) = set m"
  by (simp add: table_iter_def)

lemma sorted_table_iter: "sorted (map fst (table_iter m))"
  by (simp add: table_iter_def)

lemma distinct_table_iter [simp]: "distinct (map fst (table_iter m)) = distinct (map fst m)"
proof -
  have "mset (map fst (sort_key fst m)) = mset (map fst m)"
    by (simp only: mset_map mset_sort)
  then show ?thesis
    unfolding table_iter_def by (metis mset_eq_imp_distinct_iff)
qed

lemma length_mput_fresh [simp]: "k \<notin> mkeys m \<Longrightarrow> length (mput k v m) = Suc (length m)"
  by (induction m) auto

lemma length_mdel_present:
  "distinct (map fst m) \<Longrightarrow> k \<in> mkeys m \<Longrightarrow> Suc (length (mdel k m)) = length m"
proof (induction m)
  case Nil
  then show ?case by simp
next
  case (Cons p m)
  then show ?case
    by (cases p) (auto simp: delete_idem)
qed

section \<open>Vectors\<close>

text \<open>\<open>v.iter_mut().find(p)\<close> followed by an update of the element found.\<close>

fun update_first :: "('a \<Rightarrow> bool) \<Rightarrow> ('a \<Rightarrow> 'a) \<Rightarrow> 'a list \<Rightarrow> 'a list" where
  "update_first p f [] = []"
| "update_first p f (x # xs) = (if p x then f x # xs else x # update_first p f xs)"

lemma update_first_none [simp]: "\<not> (\<exists>x\<in>set xs. p x) \<Longrightarrow> update_first p f xs = xs"
  by (induction xs) auto

lemma map_update_first [simp]:
  "(\<And>x. g (f x) = g x) \<Longrightarrow> map g (update_first p f xs) = map g xs"
  by (induction xs) auto

lemma length_update_first [simp]: "length (update_first p f xs) = length xs"
  by (induction xs) auto

lemma find_update_first:
  "(\<And>x. p (f x) = p x) \<Longrightarrow> find p (update_first p f xs) = map_option f (find p xs)"
  by (induction xs) auto

lemma set_update_first:
  "y \<in> set (update_first p f xs) \<Longrightarrow> y \<in> set xs \<or> (\<exists>x\<in>set xs. p x \<and> y = f x)"
  by (induction xs) (auto split: if_splits)

section \<open>Strings\<close>

text \<open>\<open>s.split(c)\<close> of the Rust standard library, collected: \<open>n\<close> separators give \<open>n + 1\<close> pieces.\<close>

abbreviation dot :: char where
  "dot \<equiv> CHR ''.''"

fun split_on :: "char \<Rightarrow> string \<Rightarrow> string list" where
  "split_on c [] = [[]]"
| "split_on c (x # xs) =
     (if x = c then [] # split_on c xs
      else (case split_on c xs of [] \<Rightarrow> [[x]] | t # ts \<Rightarrow> (x # t) # ts))"

fun join_with :: "char \<Rightarrow> string list \<Rightarrow> string" where
  "join_with c [] = []"
| "join_with c [t] = t"
| "join_with c (t # ts) = t @ [c] @ join_with c ts"

lemma split_on_nonempty [simp]: "split_on c s \<noteq> []"
  by (induction s) (auto split: list.splits)

lemma join_with_Cons: "ts \<noteq> [] \<Longrightarrow> join_with c (t # ts) = t @ [c] @ join_with c ts"
  by (cases ts) auto

lemma join_with_Cons_char: "join_with c ((x # t) # ts) = x # join_with c (t # ts)"
  by (cases ts) auto

lemma join_split [simp]: "join_with c (split_on c s) = s"
proof (induction s)
  case Nil
  then show ?case by simp
next
  case (Cons x xs)
  then show ?case
    by (cases "split_on c xs") (auto simp: join_with_Cons join_with_Cons_char)
qed

lemma split_on_inj: "split_on c s = split_on c s' \<longleftrightarrow> s = s'"
  by (metis join_split)

lemma split_on_no_sep: "t \<in> set (split_on c s) \<Longrightarrow> c \<notin> set t"
proof (induction s arbitrary: t)
  case Nil
  then show ?case by simp
next
  case (Cons x xs)
  then show ?case
    by (cases "split_on c xs") (auto split: if_splits)
qed

lemma length_split_on: "length (split_on c s) = Suc (count_list s c)"
proof (induction s)
  case Nil
  then show ?case by simp
next
  case (Cons x xs)
  then show ?case
    by (cases "split_on c xs") auto
qed

end
