(* ===== verification/Errors.thy ===== *)
theory Errors
  imports Prelude
begin

text \<open>
  The crate's error values (src/src/error.rs): the error enumeration with its classification
  methods, the error of the non-blocking publish calls, the conversion between the two, and the
  context record with its \<open>Display\<close> text. Results are \<open>error + 'a\<close>, \<open>Inl\<close> for \<open>Err\<close>.
\<close>

datatype error =
    PublishError string
  | PayloadTooLarge usize usize
  | SubscriptionError string
  | EventNotRegistered string
  | SubscriptionNotFound uuid
  | HandlerError string
  | ShuttingDown
  | Backpressure
  | ChannelSendError
  | ChannelReceiveError
  | SerializationError string
  | ConfigError string
  | Internal string

type_synonym 'a result = "error + 'a"

definition internal :: "string \<Rightarrow> error" where
  "internal msg = Internal msg"

definition handler_error :: "string \<Rightarrow> error" where
  "handler_error msg = HandlerError msg"

definition backpressure :: error where
  "backpressure = Backpressure"

definition is_shutdown :: "error \<Rightarrow> bool" where
  "is_shutdown e = (case e of ShuttingDown \<Rightarrow> True | _ \<Rightarrow> False)"

definition is_channel_error :: "error \<Rightarrow> bool" where
  "is_channel_error e = (case e of ChannelSendError \<Rightarrow> True | ChannelReceiveError \<Rightarrow> True | _ \<Rightarrow> False)"

definition is_backpressure :: "error \<Rightarrow> bool" where
  "is_backpressure e = (case e of Backpressure \<Rightarrow> True | _ \<Rightarrow> False)"

section \<open>Errors of the non-blocking publish calls\<close>

datatype try_publish_error = TryShuttingDown | TryBackpressure | NotRunning

definition try_is_shutdown :: "try_publish_error \<Rightarrow> bool" where
  "try_is_shutdown e = (case e of TryShuttingDown \<Rightarrow> True | _ \<Rightarrow> False)"

definition try_is_backpressure :: "try_publish_error \<Rightarrow> bool" where
  "try_is_backpressure e = (case e of TryBackpressure \<Rightarrow> True | _ \<Rightarrow> False)"

fun error_from_try :: "try_publish_error \<Rightarrow> error" where
  "error_from_try TryShuttingDown = ShuttingDown"
| "error_from_try TryBackpressure = Backpressure"
| "error_from_try NotRunning = Internal ''Dispatcher not running''"

section \<open>Error context\<close>

record error_context =
  ctx_event_id :: "uuid option"
  ctx_event_type :: "string option"
  ctx_handler_name :: "string option"
  ctx_timestamp :: datetime

definition error_context_new :: "datetime \<Rightarrow> error_context" where
  "error_context_new now =
     \<lparr>ctx_event_id = None, ctx_event_type = None, ctx_handler_name = None, ctx_timestamp = now\<rparr>"

definition with_event_id :: "error_context \<Rightarrow> uuid \<Rightarrow> error_context" where
  "with_event_id c i = c\<lparr>ctx_event_id := Some i\<rparr>"

definition with_event_type :: "error_context \<Rightarrow> string \<Rightarrow> error_context" where
  "with_event_type c t = c\<lparr>ctx_event_type := Some t\<rparr>"

definition with_handler :: "error_context \<Rightarrow> string \<Rightarrow> error_context" where
  "with_handler c n = c\<lparr>ctx_handler_name := Some n\<rparr>"

text \<open>The \<open>Display\<close> texts of \<open>Uuid\<close> and \<open>DateTime\<close> come from their crates: parameters.\<close>

definition error_context_display ::
    "(datetime \<Rightarrow> string) \<Rightarrow> (uuid \<Rightarrow> string) \<Rightarrow> error_context \<Rightarrow> string" where
  "error_context_display show_time show_uuid c =
     ''Error at '' @ show_time (ctx_timestamp c) @
     (case ctx_event_id c of None \<Rightarrow> [] | Some i \<Rightarrow> '' [event_id: '' @ show_uuid i @ '']'') @
     (case ctx_event_type c of None \<Rightarrow> [] | Some t \<Rightarrow> '' [type: '' @ t @ '']'') @
     (case ctx_handler_name c of None \<Rightarrow> [] | Some h \<Rightarrow> '' [handler: '' @ h @ '']'')"

section \<open>Facts\<close>

lemmas error_defs = internal_def handler_error_def backpressure_def is_shutdown_def
  is_channel_error_def is_backpressure_def try_is_shutdown_def try_is_backpressure_def

text \<open>The conversion loses no classification, and no two sources share a target.\<close>

lemma error_from_try_classified:
  "is_shutdown (error_from_try e) = try_is_shutdown e"
  "is_backpressure (error_from_try e) = try_is_backpressure e"
  "\<not> is_channel_error (error_from_try e)"
  by (cases e; simp add: error_defs)+

lemma error_from_try_inj: "inj error_from_try"
proof (rule injI)
  fix a b
  assume "error_from_try a = error_from_try b"
  then show "a = b" by (cases a; cases b) auto
qed

end
