(* ===== verification/Metadata.thy ===== *)
theory Metadata
  imports Errors
begin

text \<open>
  Event metadata (src/src/event/metadata.rs): the record, its setters in both spellings the code
  has (\<open>EventMetadata\<close> and \<open>MetadataBuilder\<close>), and the chaining of a child event to its parent.
  Fresh identifiers and the clock are arguments.
\<close>

record event_metadata =
  event_id :: uuid
  timestamp :: datetime
  correlation_id :: "uuid option"
  causation_id :: "uuid option"
  source :: "string option"
  user_id :: "string option"
  session_id :: "string option"
  custom :: "(string \<times> string) list"
  deliver_at :: "datetime option"
  topic :: "string option"
  reply_to :: "string option"
  idempotency_key :: "string option"

definition metadata_new :: "uuid \<Rightarrow> datetime \<Rightarrow> event_metadata" where
  "metadata_new fresh now =
     \<lparr>event_id = fresh, timestamp = now, correlation_id = None, causation_id = None,
      source = None, user_id = None, session_id = None, custom = [], deliver_at = None,
      topic = None, reply_to = None, idempotency_key = None\<rparr>"

definition with_correlation :: "uuid \<Rightarrow> datetime \<Rightarrow> uuid \<Rightarrow> event_metadata" where
  "with_correlation fresh now c = (metadata_new fresh now)\<lparr>correlation_id := Some c\<rparr>"

definition set_correlation_id :: "event_metadata \<Rightarrow> uuid \<Rightarrow> event_metadata" where
  "set_correlation_id m i = m\<lparr>correlation_id := Some i\<rparr>"

definition set_causation_id :: "event_metadata \<Rightarrow> uuid \<Rightarrow> event_metadata" where
  "set_causation_id m i = m\<lparr>causation_id := Some i\<rparr>"

definition set_source :: "event_metadata \<Rightarrow> string \<Rightarrow> event_metadata" where
  "set_source m s = m\<lparr>source := Some s\<rparr>"

definition set_user_id :: "event_metadata \<Rightarrow> string \<Rightarrow> event_metadata" where
  "set_user_id m s = m\<lparr>user_id := Some s\<rparr>"

definition set_session_id :: "event_metadata \<Rightarrow> string \<Rightarrow> event_metadata" where
  "set_session_id m s = m\<lparr>session_id := Some s\<rparr>"

definition with_custom :: "event_metadata \<Rightarrow> string \<Rightarrow> string \<Rightarrow> event_metadata" where
  "with_custom m k v = m\<lparr>custom := mput k v (custom m)\<rparr>"

definition metadata_with_topic :: "event_metadata \<Rightarrow> string \<Rightarrow> event_metadata" where
  "metadata_with_topic m t = m\<lparr>topic := Some t\<rparr>"

definition with_reply_to :: "event_metadata \<Rightarrow> string \<Rightarrow> event_metadata" where
  "with_reply_to m t = m\<lparr>reply_to := Some t\<rparr>"

definition with_idempotency_key :: "event_metadata \<Rightarrow> string \<Rightarrow> event_metadata" where
  "with_idempotency_key m k = m\<lparr>idempotency_key := Some k\<rparr>"

definition schedule_at :: "event_metadata \<Rightarrow> datetime \<Rightarrow> event_metadata" where
  "schedule_at m t = m\<lparr>deliver_at := Some t\<rparr>"

text \<open>
  \<open>Utc::now() + delay\<close> is chrono's addition, which panics when the sum has no representation:
  \<open>dt_add\<close> is that operation, \<open>None\<close> for out of range.
\<close>

definition delay ::
    "(datetime \<Rightarrow> duration \<Rightarrow> datetime option) \<Rightarrow> datetime \<Rightarrow> event_metadata \<Rightarrow> duration
      \<Rightarrow> event_metadata outcome" where
  "delay dt_add now m d =
     (case dt_add now d of None \<Rightarrow> Panic | Some t \<Rightarrow> Done (m\<lparr>deliver_at := Some t\<rparr>))"

definition get_custom :: "event_metadata \<Rightarrow> string \<Rightarrow> string option" where
  "get_custom m k = map_of (custom m) k"

definition or_else :: "'a option \<Rightarrow> 'a option \<Rightarrow> 'a option" where
  "or_else a b = (case a of Some x \<Rightarrow> Some x | None \<Rightarrow> b)"

definition chain_from :: "event_metadata \<Rightarrow> event_metadata \<Rightarrow> event_metadata" where
  "chain_from m parent =
     (let m1 = m\<lparr>causation_id := Some (event_id parent),
                  correlation_id := or_else (correlation_id parent) (Some (event_id parent))\<rparr>;
          m2 = (if user_id m1 = None then m1\<lparr>user_id := user_id parent\<rparr> else m1)
      in (if session_id m2 = None then m2\<lparr>session_id := session_id parent\<rparr> else m2))"

section \<open>MetadataBuilder\<close>

text \<open>The builder wraps a metadata value; \<open>build\<close> unwraps it.\<close>

record metadata_builder =
  mb_metadata :: event_metadata

definition builder_new :: "uuid \<Rightarrow> datetime \<Rightarrow> metadata_builder" where
  "builder_new fresh now = \<lparr>mb_metadata = metadata_new fresh now\<rparr>"

definition builder_correlation_id :: "metadata_builder \<Rightarrow> uuid \<Rightarrow> metadata_builder" where
  "builder_correlation_id b i = b\<lparr>mb_metadata := (mb_metadata b)\<lparr>correlation_id := Some i\<rparr>\<rparr>"

definition builder_causation_id :: "metadata_builder \<Rightarrow> uuid \<Rightarrow> metadata_builder" where
  "builder_causation_id b i = b\<lparr>mb_metadata := (mb_metadata b)\<lparr>causation_id := Some i\<rparr>\<rparr>"

definition builder_source :: "metadata_builder \<Rightarrow> string \<Rightarrow> metadata_builder" where
  "builder_source b s = b\<lparr>mb_metadata := (mb_metadata b)\<lparr>source := Some s\<rparr>\<rparr>"

definition builder_user_id :: "metadata_builder \<Rightarrow> string \<Rightarrow> metadata_builder" where
  "builder_user_id b s = b\<lparr>mb_metadata := (mb_metadata b)\<lparr>user_id := Some s\<rparr>\<rparr>"

definition builder_session_id :: "metadata_builder \<Rightarrow> string \<Rightarrow> metadata_builder" where
  "builder_session_id b s = b\<lparr>mb_metadata := (mb_metadata b)\<lparr>session_id := Some s\<rparr>\<rparr>"

definition builder_custom :: "metadata_builder \<Rightarrow> string \<Rightarrow> string \<Rightarrow> metadata_builder" where
  "builder_custom b k v =
     b\<lparr>mb_metadata := (mb_metadata b)\<lparr>custom := mput k v (custom (mb_metadata b))\<rparr>\<rparr>"

definition builder_topic :: "metadata_builder \<Rightarrow> string \<Rightarrow> metadata_builder" where
  "builder_topic b t = b\<lparr>mb_metadata := (mb_metadata b)\<lparr>topic := Some t\<rparr>\<rparr>"

definition builder_idempotency_key :: "metadata_builder \<Rightarrow> string \<Rightarrow> metadata_builder" where
  "builder_idempotency_key b k = b\<lparr>mb_metadata := (mb_metadata b)\<lparr>idempotency_key := Some k\<rparr>\<rparr>"

definition builder_reply_to :: "metadata_builder \<Rightarrow> string \<Rightarrow> metadata_builder" where
  "builder_reply_to b t = b\<lparr>mb_metadata := (mb_metadata b)\<lparr>reply_to := Some t\<rparr>\<rparr>"

definition builder_build :: "metadata_builder \<Rightarrow> event_metadata" where
  "builder_build b = mb_metadata b"

section \<open>Facts\<close>

lemmas metadata_defs = metadata_new_def with_correlation_def set_correlation_id_def
  set_causation_id_def set_source_def set_user_id_def set_session_id_def with_custom_def
  metadata_with_topic_def with_reply_to_def with_idempotency_key_def schedule_at_def
  get_custom_def

lemma or_else_simps [simp]:
  "or_else None b = b" "or_else (Some x) b = Some x" "or_else a None = a"
  by (simp_all add: or_else_def split: option.splits)

text \<open>What one link of a chain sets and what it leaves alone.\<close>

lemma chain_from_sel [simp]:
  "event_id (chain_from m p) = event_id m"
  "timestamp (chain_from m p) = timestamp m"
  "causation_id (chain_from m p) = Some (event_id p)"
  "correlation_id (chain_from m p) = or_else (correlation_id p) (Some (event_id p))"
  "user_id (chain_from m p) = or_else (user_id m) (user_id p)"
  "session_id (chain_from m p) = or_else (session_id m) (session_id p)"
  "deliver_at (chain_from m p) = deliver_at m"
  "topic (chain_from m p) = topic m"
  "reply_to (chain_from m p) = reply_to m"
  "idempotency_key (chain_from m p) = idempotency_key m"
  "custom (chain_from m p) = custom m"
  "source (chain_from m p) = source m"
  by (auto simp: chain_from_def Let_def or_else_def split: option.splits)

text \<open>The correlation identifier of a chain's root: its own, or its event identifier.\<close>

definition trace_root :: "event_metadata \<Rightarrow> uuid" where
  "trace_root m = (case correlation_id m of Some c \<Rightarrow> c | None \<Rightarrow> event_id m)"

lemma trace_root_chain [simp]: "trace_root (chain_from m p) = trace_root p"
  by (simp add: trace_root_def or_else_def split: option.splits)

text \<open>A chain of children, each made from fresh metadata linked to the one before.\<close>

fun chain_all :: "event_metadata \<Rightarrow> event_metadata list \<Rightarrow> event_metadata" where
  "chain_all p [] = p"
| "chain_all p (m # ms) = chain_all (chain_from m p) ms"

lemma trace_root_chain_all: "trace_root (chain_all p ms) = trace_root p"
  by (induction ms arbitrary: p) auto

lemma correlation_chain_all:
  "ms \<noteq> [] \<Longrightarrow> correlation_id (chain_all p ms) = Some (trace_root p)"
proof (induction ms arbitrary: p)
  case Nil
  then show ?case by simp
next
  case (Cons m ms)
  then show ?case
    by (cases ms) (auto simp: trace_root_def or_else_def split: option.splits)
qed

lemma user_id_chain_all:
  "(\<And>m. m \<in> set ms \<Longrightarrow> user_id m = None) \<Longrightarrow> user_id (chain_all p ms) = user_id p"
  by (induction ms arbitrary: p) auto

lemma session_id_chain_all:
  "(\<And>m. m \<in> set ms \<Longrightarrow> session_id m = None) \<Longrightarrow> session_id (chain_all p ms) = session_id p"
  by (induction ms arbitrary: p) auto

end
