(* ===== verification/Envelope.thy ===== *)
theory Envelope
  imports Metadata
begin

text \<open>
  Events and their envelopes (src/src/event/mod.rs, src/src/event/envelope.rs). An event type is
  the dictionary of its \<open>Event\<close> implementation; a \<open>dyn Any\<close> payload is a value tagged with the
  \<open>TypeId\<close> of its concrete type, so that downcasting is a comparison of tags. Payload values range
  over a type variable.
\<close>

section \<open>Events\<close>

datatype event_priority = Low | Normal | High | Critical

fun priority_rank :: "event_priority \<Rightarrow> nat" where
  "priority_rank Low = 0"
| "priority_rank Normal = 1"
| "priority_rank High = 2"
| "priority_rank Critical = 3"

definition default_priority :: event_priority where
  "default_priority = Normal"

lemma priority_rank_inj [simp]: "priority_rank a = priority_rank b \<longleftrightarrow> a = b"
  by (cases a; cases b) simp_all

text \<open>The derived \<open>Ord\<close> follows the discriminants.\<close>

instantiation event_priority :: linorder
begin

definition less_eq_event_priority :: "event_priority \<Rightarrow> event_priority \<Rightarrow> bool" where
  "less_eq_event_priority a b \<longleftrightarrow> priority_rank a \<le> priority_rank b"

definition less_event_priority :: "event_priority \<Rightarrow> event_priority \<Rightarrow> bool" where
  "less_event_priority a b \<longleftrightarrow> priority_rank a < priority_rank b"

instance
  by standard (auto simp: less_eq_event_priority_def less_event_priority_def)

end

type_synonym 'v any = "type_id \<times> 'v"

text \<open>
  The \<open>Event\<close> trait: \<open>ty_of\<close> is \<open>TypeId::of::<T>()\<close>, \<open>ty_type_id\<close> the trait's own \<open>type_id()\<close>
  (a provided method: the same unless the implementation overrides it).
\<close>

record 'v event_ty =
  ty_of :: type_id
  ty_type_id :: type_id
  ty_name :: string
  serialize_event :: "'v \<Rightarrow> bytes result"
  deserialize_event :: "bytes \<Rightarrow> 'v result"

definition event_type_id :: "'v event_ty \<Rightarrow> type_id" where
  "event_type_id T = ty_of T"

definition default_type_id :: "'v event_ty \<Rightarrow> bool" where
  "default_type_id T \<longleftrightarrow> ty_type_id T = event_type_id T"

definition any_downcast_ref :: "'v event_ty \<Rightarrow> 'v any \<Rightarrow> 'v option" where
  "any_downcast_ref T a = (if fst a = ty_of T then Some (snd a) else None)"

section \<open>Envelopes\<close>

record 'v envelope =
  payload :: "'v any option"
  payload_bytes :: "bytes option"
  serializer :: "'v any \<Rightarrow> bytes result"
  env_type_id :: type_id
  type_name :: string
  metadata :: event_metadata
  priority :: event_priority

definition typed_serializer :: "'v event_ty \<Rightarrow> 'v any \<Rightarrow> bytes result" where
  "typed_serializer T a =
     (case any_downcast_ref T a of
        None \<Rightarrow> Inl (internal ''Failed to downcast for serialization'')
      | Some v \<Rightarrow> serialize_event T v)"

definition with_metadata :: "'v event_ty \<Rightarrow> 'v \<Rightarrow> event_metadata \<Rightarrow> 'v envelope" where
  "with_metadata T v m =
     \<lparr>payload = Some (ty_of T, v), payload_bytes = None, serializer = typed_serializer T,
      env_type_id = ty_type_id T, type_name = ty_name T, metadata = m,
      priority = default_priority\<rparr>"

definition envelope_new :: "'v event_ty \<Rightarrow> 'v \<Rightarrow> uuid \<Rightarrow> datetime \<Rightarrow> 'v envelope" where
  "envelope_new T v fresh now = with_metadata T v (metadata_new fresh now)"

definition with_priority ::
    "'v event_ty \<Rightarrow> ('v \<Rightarrow> event_priority) \<Rightarrow> 'v \<Rightarrow> event_metadata \<Rightarrow> 'v envelope" where
  "with_priority T prio v m =
     \<lparr>payload = Some (ty_of T, v), payload_bytes = None, serializer = typed_serializer T,
      env_type_id = ty_type_id T, type_name = ty_name T, metadata = m, priority = prio v\<rparr>"

definition from_serialized ::
    "type_id \<Rightarrow> string \<Rightarrow> event_metadata \<Rightarrow> event_priority \<Rightarrow> bytes \<Rightarrow> 'v envelope" where
  "from_serialized tid name m p bs =
     \<lparr>payload = None, payload_bytes = Some bs,
      serializer = (\<lambda>_. Inl (internal ''Cannot serialize an already serialized event'')),
      env_type_id = tid, type_name = name, metadata = m, priority = p\<rparr>"

definition downcast_ref :: "'v event_ty \<Rightarrow> 'v envelope \<Rightarrow> 'v option" where
  "downcast_ref T env =
     (if env_type_id env = ty_of T
      then (case payload env of None \<Rightarrow> None | Some p \<Rightarrow> any_downcast_ref T p)
      else None)"

definition get_event :: "'v event_ty \<Rightarrow> 'v envelope \<Rightarrow> 'v result" where
  "get_event T env =
     (if env_type_id env \<noteq> ty_of T then Inl (EventNotRegistered (type_name env))
      else (case (case payload env of None \<Rightarrow> None | Some p \<Rightarrow> any_downcast_ref T p) of
              Some v \<Rightarrow> Inr v
            | None \<Rightarrow>
                (case payload_bytes env of
                   Some bs \<Rightarrow> deserialize_event T bs
                 | None \<Rightarrow> Inl (internal ''Event envelope is empty''))))"

definition into_bytes :: "'v envelope \<Rightarrow> bytes result" where
  "into_bytes env =
     (case payload_bytes env of
        Some bs \<Rightarrow> Inr bs
      | None \<Rightarrow>
          (case payload env of
             Some p \<Rightarrow> serializer env p
           | None \<Rightarrow> Inl (internal ''Event envelope is empty'')))"

text \<open>\<open>try_into_inner\<close> gives the envelope back when it cannot give the event.\<close>

definition try_into_inner :: "'v event_ty \<Rightarrow> 'v envelope \<Rightarrow> 'v envelope + 'v" where
  "try_into_inner T env =
     (if env_type_id env = ty_of T
      then (case payload env of
              Some p \<Rightarrow> (case any_downcast_ref T p of Some v \<Rightarrow> Inr v | None \<Rightarrow> Inl env)
            | None \<Rightarrow> Inl env)
      else Inl env)"

definition env_is :: "'v event_ty \<Rightarrow> 'v envelope \<Rightarrow> bool" where
  "env_is T env \<longleftrightarrow> env_type_id env = ty_of T"

definition env_event_id :: "'v envelope \<Rightarrow> uuid" where
  "env_event_id env = event_id (metadata env)"

definition env_correlation_id :: "'v envelope \<Rightarrow> uuid option" where
  "env_correlation_id env = correlation_id (metadata env)"

definition clone_payload :: "'v envelope \<Rightarrow> 'v any option" where
  "clone_payload env = payload env"

definition chain :: "'v envelope \<Rightarrow> 'v event_ty \<Rightarrow> 'v \<Rightarrow> uuid \<Rightarrow> datetime \<Rightarrow> 'v envelope" where
  "chain env T v fresh now =
     with_metadata T v (chain_from (metadata_new fresh now) (metadata env))"

section \<open>EnvelopeBuilder\<close>

record 'v envelope_builder =
  eb_event :: 'v
  eb_metadata :: event_metadata
  eb_priority :: "event_priority option"

definition eb_new :: "'v \<Rightarrow> uuid \<Rightarrow> datetime \<Rightarrow> 'v envelope_builder" where
  "eb_new v fresh now =
     \<lparr>eb_event = v, eb_metadata = metadata_new fresh now, eb_priority = None\<rparr>"

definition eb_set_metadata :: "'v envelope_builder \<Rightarrow> event_metadata \<Rightarrow> 'v envelope_builder" where
  "eb_set_metadata b m = b\<lparr>eb_metadata := m\<rparr>"

definition eb_correlation_id :: "'v envelope_builder \<Rightarrow> uuid \<Rightarrow> 'v envelope_builder" where
  "eb_correlation_id b i = b\<lparr>eb_metadata := (eb_metadata b)\<lparr>correlation_id := Some i\<rparr>\<rparr>"

definition eb_causation_id :: "'v envelope_builder \<Rightarrow> uuid \<Rightarrow> 'v envelope_builder" where
  "eb_causation_id b i = b\<lparr>eb_metadata := (eb_metadata b)\<lparr>causation_id := Some i\<rparr>\<rparr>"

definition eb_source :: "'v envelope_builder \<Rightarrow> string \<Rightarrow> 'v envelope_builder" where
  "eb_source b s = b\<lparr>eb_metadata := (eb_metadata b)\<lparr>source := Some s\<rparr>\<rparr>"

definition eb_set_priority :: "'v envelope_builder \<Rightarrow> event_priority \<Rightarrow> 'v envelope_builder" where
  "eb_set_priority b p = b\<lparr>eb_priority := Some p\<rparr>"

definition eb_build :: "'v event_ty \<Rightarrow> 'v envelope_builder \<Rightarrow> 'v envelope" where
  "eb_build T b =
     (let env = with_metadata T (eb_event b) (eb_metadata b)
      in case eb_priority b of Some p \<Rightarrow> env\<lparr>priority := p\<rparr> | None \<Rightarrow> env)"

section \<open>Facts\<close>

lemmas envelope_defs = with_metadata_def envelope_new_def with_priority_def from_serialized_def
  get_event_def into_bytes_def typed_serializer_def any_downcast_ref_def env_event_id_def
  env_correlation_id_def env_is_def downcast_ref_def try_into_inner_def clone_payload_def

lemma with_metadata_sel [simp]:
  "payload (with_metadata T v m) = Some (ty_of T, v)"
  "payload_bytes (with_metadata T v m) = None"
  "env_type_id (with_metadata T v m) = ty_type_id T"
  "type_name (with_metadata T v m) = ty_name T"
  "metadata (with_metadata T v m) = m"
  "priority (with_metadata T v m) = default_priority"
  "env_event_id (with_metadata T v m) = event_id m"
  by (simp_all add: with_metadata_def env_event_id_def)

lemma from_serialized_sel [simp]:
  "payload (from_serialized t n m p bs) = None"
  "payload_bytes (from_serialized t n m p bs) = Some bs"
  "env_type_id (from_serialized t n m p bs) = t"
  "type_name (from_serialized t n m p bs) = n"
  "metadata (from_serialized t n m p bs) = m"
  "priority (from_serialized t n m p bs) = p"
  "env_event_id (from_serialized t n m p bs) = event_id m"
  by (simp_all add: from_serialized_def env_event_id_def)

lemma into_bytes_with_metadata [simp]: "into_bytes (with_metadata T v m) = serialize_event T v"
  by (simp add: envelope_defs)

lemma into_bytes_from_serialized [simp]: "into_bytes (from_serialized t n m p bs) = Inr bs"
  by (simp add: into_bytes_def)

lemma get_event_with_metadata:
  "default_type_id T \<Longrightarrow> get_event T (with_metadata T v m) = Inr v"
  by (simp add: envelope_defs default_type_id_def event_type_id_def)

lemma get_event_from_serialized:
  "get_event T (from_serialized (ty_of T) n m p bs) = deserialize_event T bs"
  by (simp add: get_event_def)

lemma get_event_wrong_type:
  "env_type_id env \<noteq> ty_of T \<Longrightarrow> get_event T env = Inl (EventNotRegistered (type_name env))"
  by (simp add: get_event_def)

text \<open>
  The round trip through disk or network: an event put in an envelope, serialised, and rebuilt
  from its bytes is read back unchanged, when the event type's codec is a round trip.
\<close>

definition codec_ok :: "'v event_ty \<Rightarrow> 'v \<Rightarrow> bool" where
  "codec_ok T v \<longleftrightarrow> (\<exists>bs. serialize_event T v = Inr bs \<and> deserialize_event T bs = Inr v)"

definition persist_and_reload :: "'v event_ty \<Rightarrow> 'v \<Rightarrow> event_metadata \<Rightarrow> 'v result" where
  "persist_and_reload T v m =
     (case into_bytes (with_metadata T v m) of
        Inl e \<Rightarrow> Inl e
      | Inr bs \<Rightarrow> get_event T (from_serialized (ty_type_id T) (ty_name T) m default_priority bs))"

lemma persist_and_reload_ok:
  "codec_ok T v \<Longrightarrow> default_type_id T \<Longrightarrow> persist_and_reload T v m = Inr v"
  by (auto simp: persist_and_reload_def codec_ok_def default_type_id_def event_type_id_def
      get_event_def)

text \<open>An override of \<open>type_id()\<close> makes every envelope of the type unreadable.\<close>

lemma get_event_overridden:
  "\<not> default_type_id T \<Longrightarrow> get_event T (with_metadata T v m) = Inl (EventNotRegistered (ty_name T))"
  by (simp add: envelope_defs default_type_id_def event_type_id_def)

end
