(* ===== verification/Channels.thy ===== *)
theory Channels
  imports Errors
begin

text \<open>
  What the crate relies on of its runtime's bounded channels (\<open>tokio::sync::mpsc\<close>): the interface
  as the locale \<open>bounded_channel\<close>, with its documented laws (first in first out, a full buffer
  makes \<open>try_send\<close> fail and \<open>send\<close> wait, a channel whose receiver is gone refuses everything), and
  the queue on which the components' states are built.
\<close>

section \<open>Waiting\<close>

text \<open>An awaited call is ready with a value, or still waiting.\<close>

datatype 'a poll = Pending | Ready 'a

datatype send_result = Sent | Full | Disconnected

section \<open>The queue\<close>

record 'a chan =
  chan_capacity :: nat
  chan_buffer :: "'a list"
  chan_open :: bool

text \<open>\<open>mpsc::channel(0)\<close> panics.\<close>

definition chan_new :: "nat \<Rightarrow> 'a chan outcome" where
  "chan_new n =
     (if n = 0 then Panic else Done \<lparr>chan_capacity = n, chan_buffer = [], chan_open = True\<rparr>)"

definition chan_try_send :: "'a chan \<Rightarrow> 'a \<Rightarrow> send_result \<times> 'a chan" where
  "chan_try_send c x =
     (if \<not> chan_open c then (Disconnected, c)
      else if length (chan_buffer c) < chan_capacity c
      then (Sent, c\<lparr>chan_buffer := chan_buffer c @ [x]\<rparr>) else (Full, c))"

text \<open>An awaited send: true when accepted, false when the receiver is gone, waiting when full.\<close>

definition chan_send :: "'a chan \<Rightarrow> 'a \<Rightarrow> bool poll \<times> 'a chan" where
  "chan_send c x =
     (case chan_try_send c x of
        (Sent, c') \<Rightarrow> (Ready True, c')
      | (Disconnected, c') \<Rightarrow> (Ready False, c')
      | (Full, c') \<Rightarrow> (Pending, c'))"

definition chan_recv :: "'a chan \<Rightarrow> 'a option \<times> 'a chan" where
  "chan_recv c =
     (case chan_buffer c of [] \<Rightarrow> (None, c) | x # xs \<Rightarrow> (Some x, c\<lparr>chan_buffer := xs\<rparr>))"

text \<open>\<open>max_capacity() - capacity()\<close>: the number of buffered values.\<close>

definition chan_len :: "'a chan \<Rightarrow> nat" where
  "chan_len c = length (chan_buffer c)"

section \<open>The interface\<close>

locale bounded_channel =
  fixes try_send :: "'c \<Rightarrow> 'a \<Rightarrow> send_result \<times> 'c"
    and recv :: "'c \<Rightarrow> 'a option \<times> 'c"
    and contents :: "'c \<Rightarrow> 'a list"
    and capacity :: "'c \<Rightarrow> nat"
    and is_open :: "'c \<Rightarrow> bool"
  assumes try_send_sent: "try_send c x = (Sent, c') \<Longrightarrow>
      is_open c \<and> length (contents c) < capacity c \<and> contents c' = contents c @ [x]"
    and try_send_full: "try_send c x = (Full, c') \<Longrightarrow>
      is_open c \<and> capacity c \<le> length (contents c) \<and> contents c' = contents c"
    and try_send_disconnected: "try_send c x = (Disconnected, c') \<Longrightarrow>
      \<not> is_open c \<and> contents c' = contents c"
    and recv_contents: "contents c = (case fst (recv c) of None \<Rightarrow> [] | Some x \<Rightarrow> x # contents (snd (recv c)))"
    and capacity_kept: "capacity (snd (try_send c x)) = capacity c" "capacity (snd (recv c)) = capacity c"
    and open_kept: "is_open (snd (try_send c x)) = is_open c" "is_open (snd (recv c)) = is_open c"
begin

text \<open>A sender offers values in turn; the ones accepted are those that fit, in order.\<close>

fun offer :: "'c \<Rightarrow> 'a list \<Rightarrow> 'c" where
  "offer c [] = c"
| "offer c (x # xs) = offer (snd (try_send c x)) xs"

lemma try_send_contents:
  "contents (snd (try_send c x)) =
     (if is_open c \<and> length (contents c) < capacity c then contents c @ [x] else contents c)"
proof (cases "try_send c x")
  case (Pair r c')
  then show ?thesis
    using try_send_sent [of c x c'] try_send_full [of c x c'] try_send_disconnected [of c x c']
    by (cases r) auto
qed

lemma offer_contents:
  assumes "is_open c" "length (contents c) \<le> capacity c"
  shows "contents (offer c xs) = contents c @ take (capacity c - length (contents c)) xs"
  using assms
proof (induction xs arbitrary: c)
  case Nil
  then show ?case by simp
next
  case (Cons x xs)
  have "contents (offer (snd (try_send c x)) xs) =
      contents (snd (try_send c x)) @ take (capacity c - length (contents (snd (try_send c x)))) xs"
    using Cons.IH [of "snd (try_send c x)"] Cons.prems
    by (simp add: capacity_kept open_kept try_send_contents)
  then show ?case
    using Cons.prems by (auto simp: try_send_contents take_Cons' Suc_diff_Suc)
qed

lemma try_send_within_capacity:
  "length (contents c) \<le> capacity c \<Longrightarrow>
     length (contents (snd (try_send c x))) \<le> capacity (snd (try_send c x))"
  by (simp add: try_send_contents capacity_kept)

end

interpretation mpsc: bounded_channel chan_try_send chan_recv chan_buffer chan_capacity chan_open
  by unfold_locales
    (auto simp: chan_try_send_def chan_recv_def split: if_splits list.splits)

lemma chan_send_sel [simp]:
  "chan_capacity (snd (chan_send c x)) = chan_capacity c"
  "chan_open (snd (chan_send c x)) = chan_open c"
  by (simp_all add: chan_send_def chan_try_send_def)

lemma chan_send_room:
  "chan_open c \<Longrightarrow> length (chan_buffer c) < chan_capacity c \<Longrightarrow>
     chan_send c x = (Ready True, c\<lparr>chan_buffer := chan_buffer c @ [x]\<rparr>)"
  by (simp add: chan_send_def chan_try_send_def)

lemma chan_send_closed: "\<not> chan_open c \<Longrightarrow> chan_send c x = (Ready False, c)"
  by (simp add: chan_send_def chan_try_send_def)

lemma chan_send_full:
  "chan_open c \<Longrightarrow> chan_capacity c \<le> length (chan_buffer c) \<Longrightarrow> chan_send c x = (Pending, c)"
  by (simp add: chan_send_def chan_try_send_def)

end
