(* ===== verification/Dispatcher.thy ===== *)
theory Dispatcher
  imports Envelope Channels
begin

text \<open>
  The dispatcher interface (src/src/dispatcher/mod.rs): the trait \<open>EventDispatcher\<close> as a record of
  its methods over a state, its provided methods, the statistics and configuration records, and the
  dispatcher that does nothing. The locale \<open>event_dispatcher\<close> states what the bus relies on when a
  dispatcher is not running.
\<close>

section \<open>Statistics and configuration\<close>

record dispatcher_stats =
  ds_events_dispatched :: u64
  ds_queue_size :: nat
  ds_dispatch_errors :: u64
  ds_avg_dispatch_time_us :: u64
  ds_max_queue_size :: nat

definition dispatcher_stats_new :: dispatcher_stats where
  "dispatcher_stats_new =
     \<lparr>ds_events_dispatched = 0, ds_queue_size = 0, ds_dispatch_errors = 0,
      ds_avg_dispatch_time_us = 0, ds_max_queue_size = 0\<rparr>"

text \<open>The moving average, in exact arithmetic or panicking when a checked build overflows.\<close>

definition update_dispatch_time :: "bool \<Rightarrow> dispatcher_stats \<Rightarrow> u64 \<Rightarrow> dispatcher_stats outcome" where
  "update_dispatch_time oc s t =
     (if ds_events_dispatched s = 0 then Done (s\<lparr>ds_avg_dispatch_time_us := t\<rparr>)
      else let sum = unat (ds_avg_dispatch_time_us s) * unat (ds_events_dispatched s) + unat t
           in if oc \<and> (2 ^ 64 \<le> sum \<or> ds_events_dispatched s = - 1) then Panic
              else if ds_events_dispatched s + 1 = 0 then Panic
              else Done (s\<lparr>ds_avg_dispatch_time_us :=
                (ds_avg_dispatch_time_us s * ds_events_dispatched s + t) div (ds_events_dispatched s + 1)\<rparr>))"

record dispatcher_config =
  dc_max_queue_size :: nat
  dc_worker_threads :: nat
  dc_drop_on_full :: bool
  dc_processing_timeout_ms :: u64
  dc_enable_metrics :: bool

definition dispatcher_config_default :: "nat \<Rightarrow> dispatcher_config" where
  "dispatcher_config_default num_cpus =
     \<lparr>dc_max_queue_size = 10000, dc_worker_threads = num_cpus, dc_drop_on_full = False,
      dc_processing_timeout_ms = 5000, dc_enable_metrics = True\<rparr>"

definition dc_set_max_queue_size :: "dispatcher_config \<Rightarrow> nat \<Rightarrow> dispatcher_config" where
  "dc_set_max_queue_size c n = c\<lparr>dc_max_queue_size := n\<rparr>"

definition dc_set_worker_threads :: "dispatcher_config \<Rightarrow> nat \<Rightarrow> dispatcher_config" where
  "dc_set_worker_threads c n = c\<lparr>dc_worker_threads := n\<rparr>"

definition dc_set_drop_on_full :: "dispatcher_config \<Rightarrow> bool \<Rightarrow> dispatcher_config" where
  "dc_set_drop_on_full c b = c\<lparr>dc_drop_on_full := b\<rparr>"

definition dc_set_processing_timeout_ms :: "dispatcher_config \<Rightarrow> u64 \<Rightarrow> dispatcher_config" where
  "dc_set_processing_timeout_ms c t = c\<lparr>dc_processing_timeout_ms := t\<rparr>"

definition dc_set_enable_metrics :: "dispatcher_config \<Rightarrow> bool \<Rightarrow> dispatcher_config" where
  "dc_set_enable_metrics c b = c\<lparr>dc_enable_metrics := b\<rparr>"

section \<open>The trait\<close>

text \<open>
  The methods read the clock as an argument. A method that waits for the outside (a task to finish,
  room in a queue) is \<open>Pending\<close> until it can go on. \<open>stop\<close> and \<open>shutdown_gracefully\<close> are split
  where they start to wait for the tasks of the dispatcher: the second part gives nothing as long
  as these still have work to do; \<open>stop\<close> waits for a limited time only.
\<close>

record ('d, 'v) dispatcher_vtable =
  dv_start :: "'d \<Rightarrow> (unit result \<times> 'd) outcome"
  dv_stop_begin :: "'d \<Rightarrow> 'd"
  dv_stop_finish :: "bool \<Rightarrow> 'd \<Rightarrow> (unit result \<times> 'd) option"
  dv_shutdown_begin :: "'d \<Rightarrow> 'd"
  dv_shutdown_finish :: "'d \<Rightarrow> (unit result \<times> 'd) option"
  dv_dispatch :: "datetime \<Rightarrow> 'd \<Rightarrow> 'v envelope \<Rightarrow> unit result poll \<times> 'd"
  dv_try_dispatch :: "datetime \<Rightarrow> 'd \<Rightarrow> 'v envelope \<Rightarrow> (try_publish_error + unit) \<times> 'd"
  dv_replay_pending :: "'d \<Rightarrow> unit result \<times> 'd"
  dv_replay_dlq :: "'d \<Rightarrow> nat result \<times> 'd"
  dv_is_running :: "'d \<Rightarrow> bool"
  dv_stats :: "'d \<Rightarrow> dispatcher_stats"

definition provided_replay_pending :: "'d \<Rightarrow> unit result \<times> 'd" where
  "provided_replay_pending d = (Inr (), d)"

definition provided_replay_dlq :: "'d \<Rightarrow> nat result \<times> 'd" where
  "provided_replay_dlq d = (Inr 0, d)"

text \<open>The provided graceful shutdown calls \<open>stop\<close>.\<close>

definition provided_shutdown_begin :: "('d \<Rightarrow> 'd) \<Rightarrow> 'd \<Rightarrow> 'd" where
  "provided_shutdown_begin stop_begin d = stop_begin d"

definition provided_shutdown_finish ::
    "(bool \<Rightarrow> 'd \<Rightarrow> (unit result \<times> 'd) option) \<Rightarrow> 'd \<Rightarrow> (unit result \<times> 'd) option" where
  "provided_shutdown_finish stop_finish d = stop_finish True d"

definition noop_vtable :: "(unit, 'v) dispatcher_vtable" where
  "noop_vtable =
     \<lparr>dv_start = (\<lambda>d. Done (Inr (), d)),
      dv_stop_begin = (\<lambda>d. d), dv_stop_finish = (\<lambda>in_time d. Some (Inr (), d)),
      dv_shutdown_begin = provided_shutdown_begin (\<lambda>d. d),
      dv_shutdown_finish = provided_shutdown_finish (\<lambda>in_time d. Some (Inr (), d)), dv_dispatch = (\<lambda>now d env. (Ready (Inr ()), d)),
      dv_try_dispatch = (\<lambda>now d env. (Inr (), d)), dv_replay_pending = provided_replay_pending,
      dv_replay_dlq = provided_replay_dlq, dv_is_running = (\<lambda>_. True),
      dv_stats = (\<lambda>_. dispatcher_stats_new)\<rparr>"

text \<open>
  A dispatcher that is not running takes nothing and says so; \<open>accepted\<close> is what it holds.
\<close>

locale event_dispatcher =
  fixes D :: "('d, 'v) dispatcher_vtable"
    and accepted :: "'d \<Rightarrow> 'v envelope list"
  assumes dispatch_stopped: "\<not> dv_is_running D d \<Longrightarrow>
      \<exists>e. dv_dispatch D now d env = (Ready (Inl e), d)"
    and try_dispatch_stopped: "\<not> dv_is_running D d \<Longrightarrow> dv_try_dispatch D now d env = (Inl NotRunning, d)"
    and dispatch_accepts: "dv_dispatch D now d env = (r, d') \<Longrightarrow>
      accepted d' = accepted d \<or> accepted d' = accepted d @ [env]"
    and try_dispatch_accepts: "dv_try_dispatch D now d env = (res, d') \<Longrightarrow>
      accepted d' = accepted d \<or> accepted d' = accepted d @ [env]"
    and dispatch_running: "dv_is_running D (snd (dv_dispatch D now d env)) = dv_is_running D d"
    and try_dispatch_running: "dv_is_running D (snd (dv_try_dispatch D now d env)) = dv_is_running D d"
    and stop_keeps: "accepted (dv_stop_begin D d) = accepted d"
    and shutdown_keeps: "accepted (dv_shutdown_begin D d) = accepted d"
begin

fun try_all :: "datetime \<Rightarrow> 'd \<Rightarrow> 'v envelope list \<Rightarrow> 'd" where
  "try_all now d [] = d"
| "try_all now d (env # envs) = try_all now (snd (dv_try_dispatch D now d env)) envs"

text \<open>A stopped dispatcher stays as it is whatever is offered to it.\<close>

lemma try_all_stopped: "\<not> dv_is_running D d \<Longrightarrow> try_all now d envs = d"
  by (induction envs) (simp_all add: try_dispatch_stopped)

text \<open>Publishing never reorders or drops what was accepted before.\<close>

lemma try_all_prefix: "\<exists>xs. accepted (try_all now d envs) = accepted d @ xs \<and> set xs \<subseteq> set envs"
proof (induction envs arbitrary: d)
  case Nil
  then show ?case by simp
next
  case (Cons env envs)
  let ?d = "snd (dv_try_dispatch D now d env)"
  have step: "accepted ?d = accepted d \<or> accepted ?d = accepted d @ [env]"
    by (rule try_dispatch_accepts [OF prod.collapse [symmetric]])
  obtain xs where xs: "accepted (try_all now ?d envs) = accepted ?d @ xs" "set xs \<subseteq> set envs"
    using Cons.IH [of ?d] by blast
  from step show ?case
  proof
    assume "accepted ?d = accepted d"
    with xs show ?thesis by auto
  next
    assume "accepted ?d = accepted d @ [env]"
    with xs show ?thesis by (intro exI [of _ "env # xs"]) auto
  qed
qed

end

interpretation noop: event_dispatcher noop_vtable "\<lambda>_. []"
  by unfold_locales (simp_all add: noop_vtable_def provided_shutdown_begin_def)

end
