(* ===== verification/Config.thy ===== *)
theory Config
  imports Dispatcher
begin

text \<open>
  The configuration of a bus (src/src/bus/config.rs): the record, its setters and its presets. The
  number of processors is an argument.
\<close>

record event_bus_config =
  ec_dispatcher :: dispatcher_config
  ec_max_retries :: u32
  ec_retry_backoff :: duration
  ec_shutdown_timeout :: duration
  ec_enable_tracing :: bool
  ec_handler_channel_size :: nat
  ec_dlq_channel_size :: nat
  ec_wait_for_persistence :: bool
  ec_scheduler_tick_rate :: duration

text \<open>Durations are in nanoseconds.\<close>

definition millis :: "nat \<Rightarrow> duration" where
  "millis n = n * 1000000"

definition secs :: "nat \<Rightarrow> duration" where
  "secs n = n * 1000000000"

definition config_default :: "nat \<Rightarrow> event_bus_config" where
  "config_default cpus =
     \<lparr>ec_dispatcher = dispatcher_config_default cpus, ec_max_retries = 3, ec_retry_backoff = millis 100,
      ec_shutdown_timeout = secs 30, ec_enable_tracing = True, ec_handler_channel_size = 256,
      ec_dlq_channel_size = 1000, ec_wait_for_persistence = False, ec_scheduler_tick_rate = secs 1\<rparr>"

definition config_new :: "nat \<Rightarrow> event_bus_config" where
  "config_new cpus = config_default cpus"

definition ec_set_max_retries :: "event_bus_config \<Rightarrow> u32 \<Rightarrow> event_bus_config" where
  "ec_set_max_retries c n = c\<lparr>ec_max_retries := n\<rparr>"

definition ec_set_retry_backoff :: "event_bus_config \<Rightarrow> duration \<Rightarrow> event_bus_config" where
  "ec_set_retry_backoff c d = c\<lparr>ec_retry_backoff := d\<rparr>"

definition ec_set_shutdown_timeout :: "event_bus_config \<Rightarrow> duration \<Rightarrow> event_bus_config" where
  "ec_set_shutdown_timeout c d = c\<lparr>ec_shutdown_timeout := d\<rparr>"

definition ec_set_enable_tracing :: "event_bus_config \<Rightarrow> bool \<Rightarrow> event_bus_config" where
  "ec_set_enable_tracing c b = c\<lparr>ec_enable_tracing := b\<rparr>"

definition ec_set_dispatcher ::
    "event_bus_config \<Rightarrow> (dispatcher_config \<Rightarrow> dispatcher_config) \<Rightarrow> event_bus_config" where
  "ec_set_dispatcher c f = c\<lparr>ec_dispatcher := f (ec_dispatcher c)\<rparr>"

definition ec_set_handler_channel_size :: "event_bus_config \<Rightarrow> nat \<Rightarrow> event_bus_config" where
  "ec_set_handler_channel_size c n = c\<lparr>ec_handler_channel_size := n\<rparr>"

definition ec_set_dlq_channel_size :: "event_bus_config \<Rightarrow> nat \<Rightarrow> event_bus_config" where
  "ec_set_dlq_channel_size c n = c\<lparr>ec_dlq_channel_size := n\<rparr>"

definition ec_set_wait_for_persistence :: "event_bus_config \<Rightarrow> bool \<Rightarrow> event_bus_config" where
  "ec_set_wait_for_persistence c b = c\<lparr>ec_wait_for_persistence := b\<rparr>"

lemmas config_setter_defs = ec_set_max_retries_def ec_set_retry_backoff_def ec_set_shutdown_timeout_def
  ec_set_enable_tracing_def ec_set_dispatcher_def ec_set_handler_channel_size_def
  ec_set_dlq_channel_size_def ec_set_wait_for_persistence_def dc_set_max_queue_size_def
  dc_set_worker_threads_def dc_set_drop_on_full_def dc_set_processing_timeout_ms_def

section \<open>The presets\<close>

definition config_high_throughput :: "nat \<Rightarrow> event_bus_config" where
  "config_high_throughput cpus =
     ec_set_handler_channel_size
       (ec_set_max_retries
         (ec_set_dispatcher (config_default cpus)
           (\<lambda>d. dc_set_processing_timeout_ms
             (dc_set_drop_on_full (dc_set_worker_threads (dc_set_max_queue_size d 50000) (cpus * 2)) True)
             1000))
         1)
       1024"

definition config_reliable :: "nat \<Rightarrow> event_bus_config" where
  "config_reliable cpus =
     ec_set_wait_for_persistence
       (ec_set_dlq_channel_size
         (ec_set_handler_channel_size
           (ec_set_retry_backoff
             (ec_set_max_retries
               (ec_set_dispatcher (config_default cpus)
                 (\<lambda>d. dc_set_processing_timeout_ms
                   (dc_set_drop_on_full (dc_set_max_queue_size d 10000) False) 30000))
               5)
             (millis 500))
           512)
         5000)
       True"

definition config_ordered :: "nat \<Rightarrow> event_bus_config" where
  "config_ordered cpus =
     ec_set_dispatcher (config_default cpus) (\<lambda>d. dc_set_drop_on_full (dc_set_worker_threads d 1) False)"

definition config_test :: "nat \<Rightarrow> event_bus_config" where
  "config_test cpus =
     ec_set_handler_channel_size
       (ec_set_enable_tracing
         (ec_set_shutdown_timeout
           (ec_set_dispatcher (config_default cpus)
             (\<lambda>d. dc_set_processing_timeout_ms
               (dc_set_worker_threads (dc_set_max_queue_size d 100) 2) 1000))
           (secs 5))
         False)
       64"

lemmas config_preset_defs = config_high_throughput_def config_reliable_def config_ordered_def
  config_test_def config_default_def dispatcher_config_default_def

text \<open>Every preset has room in each of its channels, and a retry schedule that cannot overflow.\<close>

lemma config_presets_usable:
  assumes "c \<in> {config_default n, config_high_throughput n, config_reliable n, config_ordered n, config_test n}"
  shows "0 < dc_max_queue_size (ec_dispatcher c)" "0 < ec_handler_channel_size c" "0 < ec_dlq_channel_size c"
    "unat (ec_max_retries c) \<le> 5"
    "ec_retry_backoff c * 2 ^ unat (ec_max_retries c) \<le> 16000000000"
  using assms by (auto simp: config_preset_defs config_setter_defs millis_def)

end
