(* ===== verification/Topic_Trie.thy ===== *)
theory Topic_Trie
  imports Prelude
begin

text \<open>
  The trie of topic patterns (src/src/registry/topic_trie.rs): insertion, removal by pattern,
  removal by full scan, and matching of a literal topic, with the two wildcards. The specification
  is a predicate on token lists, \<open>pattern_matches\<close>; a node is read as the function \<open>ids_at\<close> from
  patterns to the identifiers stored under them, and the operations are shown to be the obvious
  ones on that function. The registry uses the trie through the locale \<open>topic_index\<close>.
\<close>

section \<open>The trie\<close>

datatype trie_node = TrieNode
  (subscriptions: "uuid set")
  (children: "(string \<times> trie_node) list")
  (any_child: "trie_node option")
  (trailing_child: "trie_node option")

definition empty_node :: trie_node where
  "empty_node = TrieNode {} [] None None"

definition star :: string where
  "star = ''*''"

definition gt :: string where
  "gt = ''>''"

definition or_default :: "trie_node option \<Rightarrow> trie_node" where
  "or_default n = (case n of None \<Rightarrow> empty_node | Some t \<Rightarrow> t)"

text \<open>
  The insertion loop walks down from the root and adds the identifier where it stops; walking back
  up rebuilds the nodes that the code changes through its mutable borrow.
\<close>

fun insert_tokens :: "string list \<Rightarrow> uuid \<Rightarrow> trie_node \<Rightarrow> trie_node" where
  "insert_tokens [] i (TrieNode ss cs a t) = TrieNode (insert i ss) cs a t"
| "insert_tokens (tok # toks) i (TrieNode ss cs a t) =
     (if tok = gt then TrieNode ss cs a (Some (insert_tokens [] i (or_default t)))
      else if tok = star then TrieNode ss cs (Some (insert_tokens toks i (or_default a))) t
      else TrieNode ss (mput tok (insert_tokens toks i (or_default (map_of cs tok))) cs) a t)"

text \<open>Removal by pattern, with the flag it returns.\<close>

fun remove_topic_recursive :: "trie_node \<Rightarrow> string list \<Rightarrow> uuid \<Rightarrow> trie_node \<times> bool" where
  "remove_topic_recursive (TrieNode ss cs a t) [] i = (TrieNode (ss - {i}) cs a t, i \<in> ss)"
| "remove_topic_recursive (TrieNode ss cs a t) (tok # toks) i =
     (if tok = gt then
        (case t of
           None \<Rightarrow> (TrieNode ss cs a t, False)
         | Some c \<Rightarrow> (let (c', found) = remove_topic_recursive c toks i
                     in (TrieNode ss cs a (Some c'), found)))
      else if tok = star then
        (case a of
           None \<Rightarrow> (TrieNode ss cs a t, False)
         | Some c \<Rightarrow> (let (c', found) = remove_topic_recursive c toks i
                     in (TrieNode ss cs (Some c') t, found)))
      else
        (case map_of cs tok of
           None \<Rightarrow> (TrieNode ss cs a t, False)
         | Some c \<Rightarrow> (let (c', found) = remove_topic_recursive c toks i
                     in (TrieNode ss (mput tok c' cs) a t, found))))"

text \<open>Removal by full scan: every node of the trie is visited.\<close>

primrec remove_recursive :: "uuid \<Rightarrow> trie_node \<Rightarrow> trie_node" where
  "remove_recursive i (TrieNode ss cs a t) =
     TrieNode (ss - {i}) (map (map_prod id (remove_recursive i)) cs)
       (map_option (remove_recursive i) a) (map_option (remove_recursive i) t)"

primrec remove_recursive_found :: "uuid \<Rightarrow> trie_node \<Rightarrow> bool" where
  "remove_recursive_found i (TrieNode ss cs a t) \<longleftrightarrow>
     i \<in> ss \<or> (\<exists>p\<in>set (map (map_prod id (remove_recursive_found i)) cs). snd p) \<or>
     map_option (remove_recursive_found i) a = Some True \<or>
     map_option (remove_recursive_found i) t = Some True"

fun match_recursive :: "trie_node \<Rightarrow> string list \<Rightarrow> uuid set" where
  "match_recursive (TrieNode ss cs a t) [] = ss"
| "match_recursive (TrieNode ss cs a t) (tok # toks) =
     (case map_of cs tok of None \<Rightarrow> {} | Some c \<Rightarrow> match_recursive c toks) \<union>
     (case a of None \<Rightarrow> {} | Some c \<Rightarrow> match_recursive c toks) \<union>
     (case t of None \<Rightarrow> {} | Some c \<Rightarrow> subscriptions c)"

record topic_trie =
  root :: trie_node

definition trie_new :: topic_trie where
  "trie_new = \<lparr>root = empty_node\<rparr>"

definition trie_insert :: "string \<Rightarrow> uuid \<Rightarrow> topic_trie \<Rightarrow> topic_trie" where
  "trie_insert pat i tr = tr\<lparr>root := insert_tokens (split_on dot pat) i (root tr)\<rparr>"

definition trie_remove_topic :: "string \<Rightarrow> uuid \<Rightarrow> topic_trie \<Rightarrow> topic_trie" where
  "trie_remove_topic pat i tr =
     tr\<lparr>root := fst (remove_topic_recursive (root tr) (split_on dot pat) i)\<rparr>"

definition trie_remove :: "uuid \<Rightarrow> topic_trie \<Rightarrow> topic_trie" where
  "trie_remove i tr = tr\<lparr>root := remove_recursive i (root tr)\<rparr>"

definition match_topic :: "topic_trie \<Rightarrow> string \<Rightarrow> uuid set" where
  "match_topic tr lit = match_recursive (root tr) (split_on dot lit)"

section \<open>Specification\<close>

text \<open>A pattern against the tokens of a literal topic.\<close>

fun pattern_matches :: "string list \<Rightarrow> string list \<Rightarrow> bool" where
  "pattern_matches [] lit \<longleftrightarrow> lit = []"
| "pattern_matches (p # ps) [] \<longleftrightarrow> False"
| "pattern_matches (p # ps) (l # ls) \<longleftrightarrow>
     (if p = gt then ps = []
      else if p = star then pattern_matches ps ls
      else p = l \<and> pattern_matches ps ls)"

text \<open>What the insertion keeps of a pattern: everything up to the first \<open>>\<close>.\<close>

fun truncate_pattern :: "string list \<Rightarrow> string list" where
  "truncate_pattern [] = []"
| "truncate_pattern (p # ps) = (if p = gt then [gt] else p # truncate_pattern ps)"

definition valid_pattern :: "string list \<Rightarrow> bool" where
  "valid_pattern ps \<longleftrightarrow> truncate_pattern ps = ps"

text \<open>The identifiers stored under exactly a pattern.\<close>

fun ids_at :: "trie_node \<Rightarrow> string list \<Rightarrow> uuid set" where
  "ids_at (TrieNode ss cs a t) [] = ss"
| "ids_at (TrieNode ss cs a t) (tok # toks) =
     (if tok = gt then (case t of None \<Rightarrow> {} | Some c \<Rightarrow> ids_at c toks)
      else if tok = star then (case a of None \<Rightarrow> {} | Some c \<Rightarrow> ids_at c toks)
      else (case map_of cs tok of None \<Rightarrow> {} | Some c \<Rightarrow> ids_at c toks))"

text \<open>
  Well-formed nodes: the literal children are never keyed by a wildcard, at any depth. Every node
  built by the operations is well formed.
\<close>

primrec wf_node :: "trie_node \<Rightarrow> bool" where
  "wf_node (TrieNode ss cs a t) \<longleftrightarrow>
     (\<forall>p\<in>set (map (map_prod id wf_node) cs). snd p \<and> fst p \<noteq> gt \<and> fst p \<noteq> star) \<and>
     distinct (map fst cs) \<and>
     (case map_option wf_node a of None \<Rightarrow> True | Some b \<Rightarrow> b) \<and>
     (case map_option wf_node t of None \<Rightarrow> True | Some b \<Rightarrow> b)"

section \<open>Facts\<close>

lemma wf_node_eq:
  "wf_node (TrieNode ss cs a t) \<longleftrightarrow>
     (\<forall>k c. map_of cs k = Some c \<longrightarrow> wf_node c \<and> k \<noteq> gt \<and> k \<noteq> star) \<and>
     distinct (map fst cs) \<and> (\<forall>c. a = Some c \<longrightarrow> wf_node c) \<and> (\<forall>c. t = Some c \<longrightarrow> wf_node c)"
proof (cases "distinct (map fst cs)")
  case True
  have *: "(\<forall>k c. map_of cs k = Some c \<longrightarrow> P k c) \<longleftrightarrow> (\<forall>(k, c)\<in>set cs. P k c)" for P
    using True by (auto dest: map_of_SomeD)
  have "(\<forall>k c. map_of cs k = Some c \<longrightarrow> wf_node c \<and> k \<noteq> gt \<and> k \<noteq> star) \<longleftrightarrow>
      (\<forall>p\<in>set (map (map_prod id wf_node) cs). snd p \<and> fst p \<noteq> gt \<and> fst p \<noteq> star)"
    unfolding * by (auto simp: split_beta)
  then show ?thesis by (simp split: option.splits)
next
  case False
  then show ?thesis by simp
qed

declare wf_node.simps [simp del]

lemma star_gt [simp]: "star \<noteq> gt" "gt \<noteq> star"
  by (simp_all add: star_def gt_def)

lemma wf_empty_node [simp]: "wf_node empty_node"
  by (simp add: empty_node_def wf_node_eq)

lemma ids_at_empty_node [simp]: "ids_at empty_node p = {}"
  by (cases p) (simp_all add: empty_node_def)

lemma match_empty_node [simp]: "match_recursive empty_node l = {}"
  by (cases l) (simp_all add: empty_node_def)

lemma wf_or_default [simp]: "(\<And>c. n = Some c \<Longrightarrow> wf_node c) \<Longrightarrow> wf_node (or_default n)"
  by (simp add: or_default_def split: option.splits)

lemma ids_at_or_default:
  "ids_at (or_default n) p = (case n of None \<Rightarrow> {} | Some c \<Rightarrow> ids_at c p)"
  by (simp add: or_default_def split: option.splits)

lemma ids_at_cases:
  "ids_at n (tok # toks) =
     ids_at (or_default (if tok = gt then trailing_child n
       else if tok = star then any_child n else map_of (children n) tok)) toks"
  by (cases n) (simp add: ids_at_or_default)

subsection \<open>Insertion\<close>

lemma wf_insert_tokens: "wf_node n \<Longrightarrow> wf_node (insert_tokens ps i n)"
proof (induction ps i n rule: insert_tokens.induct)
  case (1 i ss cs a t)
  then show ?case by (simp add: wf_node_eq)
next
  case (2 tok toks i ss cs a t)
  have "wf_node (or_default t)" "wf_node (or_default a)" "wf_node (or_default (map_of cs tok))"
    using "2.prems" by (auto simp: wf_node_eq simp del: map_of_eq_Some_iff)
  then show ?case
    using "2.IH" "2.prems" by (auto simp: wf_node_eq simp del: map_of_eq_Some_iff)
qed

lemma ids_at_insert_nil:
  "ids_at (insert_tokens [] i n) q = (if q = [] then insert i (ids_at n q) else ids_at n q)"
  by (cases n; cases q) simp_all

lemma ids_at_insert_tokens:
  "ids_at (insert_tokens ps i n) q =
     (if q = truncate_pattern ps then insert i (ids_at n q) else ids_at n q)"
proof (induction ps i n arbitrary: q rule: insert_tokens.induct)
  case (1 i ss cs a t)
  then show ?case by (cases q) simp_all
next
  case (2 tok toks i ss cs a t)
  show ?case
  proof (cases q)
    case Nil
    then show ?thesis by simp
  next
    case q: (Cons k ks)
    consider "tok = gt" | "tok = star" | "tok \<noteq> gt" "tok \<noteq> star" by blast
    then show ?thesis
    proof cases
      case 1
      then show ?thesis
        unfolding q by (cases "ks = []") (simp_all add: ids_at_insert_nil ids_at_or_default)
    next
      case 2
      then show ?thesis
        using "2.IH"(2) [of ks] unfolding q
        by (cases "ks = truncate_pattern toks") (simp_all add: ids_at_or_default)
    next
      case 3
      then show ?thesis
        using "2.IH"(3) [of ks] unfolding q
        by (cases "ks = truncate_pattern toks") (simp_all add: ids_at_or_default)
    qed
  qed
qed

subsection \<open>Matching\<close>

text \<open>
  Matching gathers exactly the identifiers stored under the patterns that match. A literal topic
  never has the wildcards themselves as literal children, which is where well-formedness is used.
\<close>

lemma subscriptions_ids_at: "subscriptions n = ids_at n []"
  by (cases n) simp

lemma pattern_matches_Cons:
  "pattern_matches p (l # ls) \<longleftrightarrow>
     p = [gt] \<or> (\<exists>ps. p = star # ps \<and> pattern_matches ps ls) \<or>
     (\<exists>ps. p = l # ps \<and> l \<noteq> gt \<and> l \<noteq> star \<and> pattern_matches ps ls)"
  by (cases p) auto

lemma match_recursive_iff:
  "wf_node n \<Longrightarrow>
     i \<in> match_recursive n l \<longleftrightarrow> (\<exists>p. pattern_matches p l \<and> i \<in> ids_at n p)"
proof (induction n l rule: match_recursive.induct)
  case (1 ss cs a t)
  have "pattern_matches p [] \<longleftrightarrow> p = []" for p
    by (cases p) simp_all
  then show ?case by simp
next
  case (2 ss cs a t tok toks)
  let ?n = "TrieNode ss cs a t"
  have lit: "i \<in> (case map_of cs tok of None \<Rightarrow> {} | Some c \<Rightarrow> match_recursive c toks) \<longleftrightarrow>
      (\<exists>ps. tok \<noteq> gt \<and> tok \<noteq> star \<and> pattern_matches ps toks \<and> i \<in> ids_at ?n (tok # ps))"
    using "2.IH"(1) "2.prems" by (auto simp: wf_node_eq split: option.splits)
  have any: "i \<in> (case a of None \<Rightarrow> {} | Some c \<Rightarrow> match_recursive c toks) \<longleftrightarrow>
      (\<exists>ps. pattern_matches ps toks \<and> i \<in> ids_at ?n (star # ps))"
    using "2.IH"(2) "2.prems" by (auto simp: wf_node_eq split: option.splits)
  have trail: "i \<in> (case t of None \<Rightarrow> {} | Some c \<Rightarrow> subscriptions c) \<longleftrightarrow> i \<in> ids_at ?n [gt]"
    by (simp add: subscriptions_ids_at split: option.splits)
  show ?case
    unfolding match_recursive.simps Un_iff lit any trail pattern_matches_Cons by blast
qed

lemma pattern_matches_valid: "pattern_matches p l \<Longrightarrow> valid_pattern p"
  by (induction p l rule: pattern_matches.induct)
    (auto simp: valid_pattern_def split: if_splits)

subsection \<open>Removal\<close>

lemma wf_remove_topic: "wf_node n \<Longrightarrow> wf_node (fst (remove_topic_recursive n ps i))"
proof (induction n ps i rule: remove_topic_recursive.induct)
  case (1 ss cs a t i)
  then show ?case by (simp add: wf_node_eq)
next
  case (2 ss cs a t tok toks i)
  have t: "wf_node (fst (remove_topic_recursive c toks i))" if "tok = gt" "t = Some c" for c
    using 2 that by (auto simp: wf_node_eq)
  have a: "wf_node (fst (remove_topic_recursive c toks i))" if "tok \<noteq> gt" "tok = star" "a = Some c" for c
    using 2 that by (auto simp: wf_node_eq)
  have l: "wf_node (fst (remove_topic_recursive c toks i))"
    if "tok \<noteq> gt" "tok \<noteq> star" "map_of cs tok = Some c" for c
    using 2 that by (auto simp: wf_node_eq)
  show ?case
    using "2.prems" t a l
    by (auto simp: wf_node_eq split_beta Let_def split: option.splits)
qed

lemma ids_at_remove_topic:
  "ids_at (fst (remove_topic_recursive n ps i)) q =
     (if q = ps then ids_at n q - {i} else ids_at n q)"
proof (induction n ps i arbitrary: q rule: remove_topic_recursive.induct)
  case (1 ss cs a t i)
  then show ?case by (cases q) simp_all
next
  case (2 ss cs a t tok toks i)
  show ?case
  proof (cases q)
    case Nil
    then show ?thesis by (simp add: split_beta Let_def split: option.splits)
  next
    case (Cons k ks)
    then show ?thesis
      using "2.IH" [of _ ks]
      by (auto simp: split_beta Let_def split: option.splits)
  qed
qed

lemma remove_topic_found: "snd (remove_topic_recursive n ps i) \<longleftrightarrow> i \<in> ids_at n ps"
  by (induction n ps i rule: remove_topic_recursive.induct)
    (auto simp: split_beta Let_def split: option.splits)

lemma map_of_map_prod_id: "map_of (map (map_prod id f) cs) k = map_option f (map_of cs k)"
  by (induction cs) auto

lemma ids_at_remove: "ids_at (remove_recursive i n) q = ids_at n q - {i}"
proof (induction n q rule: ids_at.induct)
  case (1 ss cs a t)
  then show ?case by simp
next
  case (2 ss cs a t tok toks)
  then show ?case
    by (auto simp: map_of_map_prod_id split: option.splits)
qed

lemma wf_remove: "wf_node n \<Longrightarrow> wf_node (remove_recursive i n)"
proof (induction n rule: trie_node.induct)
  case (TrieNode ss cs a t)
  have "wf_node (remove_recursive i c)" if "map_of cs k = Some c" for k c
    using TrieNode that by (auto simp: wf_node_eq dest!: map_of_SomeD)
  then show ?case
    using TrieNode by (auto simp: wf_node_eq map_of_map_prod_id comp_def map_prod_def split_beta)
qed

section \<open>The interface the registry uses\<close>

text \<open>
  An index of identifiers by topic pattern. \<open>stored\<close> is its abstract content; the laws say what
  each operation does to it and that a lookup gathers what is stored under the matching patterns.
\<close>

locale topic_index =
  fixes new :: 'ix
    and ins :: "string \<Rightarrow> uuid \<Rightarrow> 'ix \<Rightarrow> 'ix"
    and del :: "string \<Rightarrow> uuid \<Rightarrow> 'ix \<Rightarrow> 'ix"
    and del_all :: "uuid \<Rightarrow> 'ix \<Rightarrow> 'ix"
    and lookup :: "'ix \<Rightarrow> string \<Rightarrow> uuid set"
    and stored :: "'ix \<Rightarrow> string list \<Rightarrow> uuid set"
    and wf :: "'ix \<Rightarrow> bool"
  assumes wf_new: "wf new"
    and wf_ins: "wf x \<Longrightarrow> wf (ins pat i x)"
    and wf_del: "wf x \<Longrightarrow> wf (del pat i x)"
    and wf_del_all: "wf x \<Longrightarrow> wf (del_all i x)"
    and stored_new: "stored new p = {}"
    and stored_ins: "stored (ins pat i x) p =
      (if p = truncate_pattern (split_on dot pat) then insert i (stored x p) else stored x p)"
    and stored_del: "stored (del pat i x) p =
      (if p = split_on dot pat then stored x p - {i} else stored x p)"
    and stored_del_all: "stored (del_all i x) p = stored x p - {i}"
    and lookup_iff: "wf x \<Longrightarrow>
      i \<in> lookup x lit \<longleftrightarrow> (\<exists>p. pattern_matches p (split_on dot lit) \<and> i \<in> stored x p)"
begin

lemma lookup_new: "lookup new lit = {}"
  using lookup_iff [OF wf_new] by (auto simp: stored_new)

lemma lookup_ins:
  assumes "wf x"
  shows "lookup (ins pat i x) lit =
    lookup x lit \<union>
      (if pattern_matches (truncate_pattern (split_on dot pat)) (split_on dot lit) then {i} else {})"
proof (rule set_eqI)
  fix j
  have "j \<in> stored (ins pat i x) p \<longleftrightarrow>
      j \<in> stored x p \<or> j = i \<and> p = truncate_pattern (split_on dot pat)" for p
    by (auto simp: stored_ins)
  then show "j \<in> lookup (ins pat i x) lit \<longleftrightarrow> j \<in> lookup x lit \<union>
      (if pattern_matches (truncate_pattern (split_on dot pat)) (split_on dot lit) then {i} else {})"
    unfolding Un_iff lookup_iff [OF wf_ins [OF assms]] lookup_iff [OF assms] by auto
qed

lemma lookup_del_all:
  assumes "wf x"
  shows "lookup (del_all i x) lit = lookup x lit - {i}"
  using assms lookup_iff [OF wf_del_all [OF assms]] lookup_iff [OF assms]
  by (auto simp: stored_del_all)

lemma lookup_del_subset:
  assumes "wf x"
  shows "lookup (del pat i x) lit \<subseteq> lookup x lit"
  using assms lookup_iff [OF wf_del [OF assms]] lookup_iff [OF assms]
  by (auto simp: stored_del split: if_splits)

text \<open>Removal by pattern is complete for an identifier stored under that pattern only.\<close>

lemma lookup_del:
  assumes "wf x" and only: "\<And>p. i \<in> stored x p \<Longrightarrow> p = split_on dot pat"
  shows "lookup (del pat i x) lit = lookup x lit - {i}"
proof (rule set_eqI)
  fix j
  have "j \<in> stored (del pat i x) p \<longleftrightarrow> j \<in> stored x p \<and> j \<noteq> i" for p
    using only by (auto simp: stored_del)
  then show "j \<in> lookup (del pat i x) lit \<longleftrightarrow> j \<in> lookup x lit - {i}"
    using lookup_iff [OF wf_del [OF assms(1)], of j pat i lit] lookup_iff [OF assms(1), of j lit]
    by auto
qed

text \<open>A pattern with tokens after \<open>>\<close> is stored truncated, and removal by pattern misses it.\<close>

lemma del_ins_invalid:
  assumes "\<not> valid_pattern (split_on dot pat)"
  shows "i \<in> stored (del pat i (ins pat i x)) (truncate_pattern (split_on dot pat))"
  using assms by (simp add: stored_del stored_ins valid_pattern_def)

end

definition wf_trie :: "topic_trie \<Rightarrow> bool" where
  "wf_trie tr \<longleftrightarrow> wf_node (root tr)"

definition stored_ids :: "topic_trie \<Rightarrow> string list \<Rightarrow> uuid set" where
  "stored_ids tr p = ids_at (root tr) p"

lemmas trie_defs = trie_new_def trie_insert_def trie_remove_topic_def trie_remove_def
  match_topic_def wf_trie_def stored_ids_def

interpretation tix: topic_index trie_new trie_insert trie_remove_topic trie_remove match_topic
  stored_ids wf_trie
  by unfold_locales
    (simp_all add: trie_defs wf_insert_tokens wf_remove_topic wf_remove ids_at_insert_tokens
      ids_at_remove_topic ids_at_remove match_recursive_iff)

section \<open>Every history of operations\<close>

datatype trie_op = OpInsert string uuid | OpRemoveTopic string uuid | OpRemove uuid

fun trie_step :: "trie_op \<Rightarrow> topic_trie \<Rightarrow> topic_trie" where
  "trie_step (OpInsert pat i) tr = trie_insert pat i tr"
| "trie_step (OpRemoveTopic pat i) tr = trie_remove_topic pat i tr"
| "trie_step (OpRemove i) tr = trie_remove i tr"

definition trie_run :: "trie_op list \<Rightarrow> topic_trie" where
  "trie_run ops = fold trie_step ops trie_new"

text \<open>The abstract index: for each pattern the identifiers stored under it.\<close>

fun index_step :: "trie_op \<Rightarrow> (string list \<Rightarrow> uuid set) \<Rightarrow> string list \<Rightarrow> uuid set" where
  "index_step (OpInsert pat i) f =
     f(truncate_pattern (split_on dot pat) := insert i (f (truncate_pattern (split_on dot pat))))"
| "index_step (OpRemoveTopic pat i) f = f(split_on dot pat := f (split_on dot pat) - {i})"
| "index_step (OpRemove i) f = (\<lambda>p. f p - {i})"

definition index_run :: "trie_op list \<Rightarrow> string list \<Rightarrow> uuid set" where
  "index_run ops = fold index_step ops (\<lambda>p. {})"

lemma trie_step_refines:
  "wf_trie tr \<Longrightarrow> wf_trie (trie_step op tr)"
  "stored_ids (trie_step op tr) = index_step op (stored_ids tr)"
  by (cases op; auto simp: tix.wf_ins tix.wf_del tix.wf_del_all tix.stored_ins tix.stored_del
      tix.stored_del_all fun_eq_iff)+

lemma trie_fold_refines:
  "wf_trie tr \<Longrightarrow> wf_trie (fold trie_step ops tr) \<and>
     stored_ids (fold trie_step ops tr) = fold index_step ops (stored_ids tr)"
  by (induction ops arbitrary: tr) (simp_all add: trie_step_refines)

lemma trie_run_refines: "wf_trie (trie_run ops)" "stored_ids (trie_run ops) = index_run ops"
proof -
  have "stored_ids trie_new = (\<lambda>p. {})"
    by (rule ext) (rule tix.stored_new)
  then show "wf_trie (trie_run ops)" "stored_ids (trie_run ops) = index_run ops"
    using trie_fold_refines [OF tix.wf_new, of ops]
    by (simp_all add: trie_run_def index_run_def)
qed

section \<open>Properties\<close>

text \<open>
  C1: after any history of insertions and removals, matching a literal topic returns exactly the
  identifiers that the abstract index stores under a pattern that matches the topic (\<open>*\<close> for one
  token, a final \<open>>\<close> for one or more).
\<close>

theorem match_topic_refines_index:
  "match_topic (trie_run ops) lit =
     {i. \<exists>p. pattern_matches p (split_on dot lit) \<and> i \<in> index_run ops p}"
  using tix.lookup_iff [OF trie_run_refines(1)] by (auto simp: trie_run_refines(2))

text \<open>
  C2: \<open>remove_topic\<close> returns the trie's matching to what it was before the identifier was inserted,
  for a pattern whose \<open>>\<close> is its last token and an identifier the trie does not hold, and it reports
  that it found it.
\<close>

theorem remove_topic_undoes_insert:
  assumes "wf_trie tr" and "valid_pattern (split_on dot pat)" and "\<And>p. i \<notin> stored_ids tr p"
  shows "match_topic (trie_remove_topic pat i (trie_insert pat i tr)) lit = match_topic tr lit
    \<and> snd (remove_topic_recursive (root (trie_insert pat i tr)) (split_on dot pat) i)"
proof
  have only: "p = split_on dot pat" if "i \<in> stored_ids (trie_insert pat i tr) p" for p
    using that assms(2,3) by (auto simp: tix.stored_ins valid_pattern_def split: if_splits)
  have "i \<notin> match_topic tr lit"
    using assms(3) by (simp add: tix.lookup_iff [OF assms(1)])
  then show "match_topic (trie_remove_topic pat i (trie_insert pat i tr)) lit = match_topic tr lit"
    using assms(1) tix.lookup_del [OF tix.wf_ins [OF assms(1)] only]
    by (auto simp: tix.lookup_ins)
  show "snd (remove_topic_recursive (root (trie_insert pat i tr)) (split_on dot pat) i)"
    using assms(2) tix.stored_ins [of pat i tr "split_on dot pat"]
    by (simp add: remove_topic_found stored_ids_def valid_pattern_def)
qed

theorem remove_topic_undoes_insert_witness:
  "match_topic (trie_remove_topic ''orders.>'' 7 (trie_insert ''orders.>'' 7
       (trie_insert ''orders.*'' 3 trie_new))) ''orders.eu'' =
     match_topic (trie_insert ''orders.*'' 3 trie_new) ''orders.eu''
   \<and> snd (remove_topic_recursive (root (trie_insert ''orders.>'' 7
       (trie_insert ''orders.*'' 3 trie_new))) (split_on dot ''orders.>'') 7)"
proof -
  have "wf_trie (trie_insert ''orders.*'' 3 trie_new)"
    by (rule tix.wf_ins [OF tix.wf_new])
  moreover have "valid_pattern (split_on dot ''orders.>'')"
    by (simp add: valid_pattern_def gt_def)
  moreover have "7 \<notin> stored_ids (trie_insert ''orders.*'' 3 trie_new) p" for p
    by (simp add: tix.stored_ins tix.stored_new)
  ultimately show ?thesis by (rule remove_topic_undoes_insert)
qed

text \<open>
  A pattern with tokens after \<open>>\<close> is inserted truncated at the \<open>>\<close>, but removal by the same
  pattern looks past the \<open>>\<close>, finds nothing and leaves the identifier matching: it is leaked.
\<close>

lemma remove_topic_leaks_truncated_pattern:
  assumes "wf_trie tr" and "\<not> valid_pattern (split_on dot pat)"
    and "pattern_matches (truncate_pattern (split_on dot pat)) (split_on dot lit)"
  shows "i \<in> match_topic (trie_remove_topic pat i (trie_insert pat i tr)) lit"
proof -
  have "wf_trie (trie_remove_topic pat i (trie_insert pat i tr))"
    by (intro tix.wf_del tix.wf_ins assms(1))
  then show ?thesis
    using tix.del_ins_invalid [OF assms(2), of i tr] assms(3)
    by (auto simp: tix.lookup_iff)
qed

lemma remove_topic_leaks_truncated_pattern_example:
  "7 \<in> match_topic (trie_remove_topic ''a.>.b'' 7 (trie_insert ''a.>.b'' 7 trie_new)) ''a.c''"
proof (rule remove_topic_leaks_truncated_pattern)
  show "wf_trie trie_new" by (rule tix.wf_new)
  show "\<not> valid_pattern (split_on dot ''a.>.b'')"
    by (simp add: valid_pattern_def gt_def)
  show "pattern_matches (truncate_pattern (split_on dot ''a.>.b'')) (split_on dot ''a.c'')"
    by (simp add: gt_def)
qed

end
