(* ===== verification/Registry.thy ===== *)
theory Registry
  imports Envelope Topic_Trie
begin

text \<open>
  The registry interface (src/src/registry/mod.rs): subscription entries, the trait
  \<open>EventRegistry\<close> as a record of its methods (a trait object's table), its provided methods, and
  the statistics extension trait. The laws that its users rely on are the locales
  \<open>event_registry\<close> and \<open>topic_event_registry\<close>.
\<close>

section \<open>Subscription entries\<close>

type_synonym 'v event_filter = "'v envelope \<Rightarrow> bool"

record 'v sub_entry =
  sub_id :: uuid
  sub_name :: "string option"
  active :: bool
  events_processed :: u64
  durable_name :: "string option"
  sub_topic :: "string option"
  sub_filter :: "'v event_filter option"

definition entry_new :: "uuid \<Rightarrow> 'v sub_entry" where
  "entry_new i =
     \<lparr>sub_id = i, sub_name = None, active = True, events_processed = 0, durable_name = None,
      sub_topic = None, sub_filter = None\<rparr>"

definition entry_with_name :: "uuid \<Rightarrow> string \<Rightarrow> 'v sub_entry" where
  "entry_with_name i n =
     \<lparr>sub_id = i, sub_name = Some n, active = True, events_processed = 0, durable_name = None,
      sub_topic = None, sub_filter = None\<rparr>"

definition with_durable_name :: "'v sub_entry \<Rightarrow> string \<Rightarrow> 'v sub_entry" where
  "with_durable_name e n = e\<lparr>durable_name := Some n\<rparr>"

definition with_topic :: "'v sub_entry \<Rightarrow> string \<Rightarrow> 'v sub_entry" where
  "with_topic e t = e\<lparr>sub_topic := Some t\<rparr>"

definition with_filter :: "'v sub_entry \<Rightarrow> 'v event_filter \<Rightarrow> 'v sub_entry" where
  "with_filter e f = e\<lparr>sub_filter := Some f\<rparr>"

lemma entry_sel [simp]:
  "sub_id (entry_with_name i n) = i" "active (entry_with_name i n)"
  "sub_topic (entry_with_name i n) = None" "sub_filter (entry_with_name i n) = None"
  "events_processed (entry_with_name i n) = 0"
  "sub_id (entry_new i) = i" "active (entry_new i)"
  "sub_topic (entry_new i) = None" "sub_filter (entry_new i) = None"
  "sub_id (with_topic e t) = sub_id e" "active (with_topic e t) = active e"
  "sub_topic (with_topic e t) = Some t" "sub_filter (with_topic e t) = sub_filter e"
  "sub_id (with_filter e f) = sub_id e" "active (with_filter e f) = active e"
  "sub_topic (with_filter e f) = sub_topic e" "sub_filter (with_filter e f) = Some f"
  by (simp_all add: entry_with_name_def entry_new_def with_topic_def with_filter_def)

section \<open>The trait\<close>

record ('r, 'v) registry_vtable =
  vt_register :: "'r \<Rightarrow> type_id \<Rightarrow> string \<Rightarrow> 'v sub_entry \<Rightarrow> unit result \<times> 'r"
  vt_unregister :: "'r \<Rightarrow> uuid \<Rightarrow> unit result \<times> 'r"
  vt_get_subscriptions :: "'r \<Rightarrow> type_id \<Rightarrow> 'v sub_entry list"
  vt_get_topic_subscriptions :: "'r \<Rightarrow> string \<Rightarrow> 'v sub_entry list"
  vt_get_subscription :: "'r \<Rightarrow> uuid \<Rightarrow> 'v sub_entry option"
  vt_increment_processed :: "'r \<Rightarrow> uuid \<Rightarrow> 'r"
  vt_mark_failed :: "'r \<Rightarrow> uuid \<Rightarrow> uuid \<Rightarrow> unit result \<times> 'r"
  vt_deactivate :: "'r \<Rightarrow> uuid \<Rightarrow> unit result \<times> 'r"
  vt_total_subscriptions :: "'r \<Rightarrow> nat"
  vt_subscription_count :: "'r \<Rightarrow> type_id \<Rightarrow> nat"
  vt_topic_subscription_count :: "'r \<Rightarrow> string \<Rightarrow> nat"
  vt_event_types :: "'r \<Rightarrow> type_id list"
  vt_clear :: "'r \<Rightarrow> 'r"
  vt_get_type_id :: "'r \<Rightarrow> string \<Rightarrow> type_id option"
  vt_ack_event :: "'r \<Rightarrow> uuid \<Rightarrow> uuid \<Rightarrow> 'r"

text \<open>The provided methods, used by an implementation that does not override them.\<close>

definition provided_get_topic_subscriptions :: "'r \<Rightarrow> string \<Rightarrow> 'v sub_entry list" where
  "provided_get_topic_subscriptions r literal_topic = []"

definition provided_mark_failed :: "'r \<Rightarrow> uuid \<Rightarrow> uuid \<Rightarrow> unit result \<times> 'r" where
  "provided_mark_failed r sid eid = (Inr (), r)"

definition provided_topic_subscription_count ::
    "('r \<Rightarrow> string \<Rightarrow> 'v sub_entry list) \<Rightarrow> 'r \<Rightarrow> string \<Rightarrow> nat" where
  "provided_topic_subscription_count get_topic_subs r literal_topic =
     length (get_topic_subs r literal_topic)"

definition provided_get_type_id :: "'r \<Rightarrow> string \<Rightarrow> type_id option" where
  "provided_get_type_id r name = None"

definition provided_ack_event :: "'r \<Rightarrow> uuid \<Rightarrow> uuid \<Rightarrow> 'r" where
  "provided_ack_event r sid eid = r"

section \<open>Statistics\<close>

record registry_stats =
  rs_event_types :: nat
  rs_total_subscriptions :: nat
  rs_active_subscriptions :: nat
  rs_inactive_subscriptions :: nat

text \<open>The loop over the event types, with its three running counts.\<close>

fun stats_loop ::
    "('r, 'v) registry_vtable \<Rightarrow> 'r \<Rightarrow> type_id list \<Rightarrow> nat \<times> nat \<times> nat \<Rightarrow> nat \<times> nat \<times> nat" where
  "stats_loop V r [] acc = acc"
| "stats_loop V r (t # ts) (tot, act, inact) =
     (let subs = vt_get_subscriptions V r t
      in stats_loop V r ts
           (tot + length subs,
            act + length (filter active subs),
            inact + length (filter (\<lambda>s. \<not> active s) subs)))"

definition registry_statistics :: "('r, 'v) registry_vtable \<Rightarrow> 'r \<Rightarrow> registry_stats" where
  "registry_statistics V r =
     (let ets = vt_event_types V r; (tot, act, inact) = stats_loop V r ets (0, 0, 0)
      in \<lparr>rs_event_types = length ets, rs_total_subscriptions = tot,
          rs_active_subscriptions = act, rs_inactive_subscriptions = inact\<rparr>)"

section \<open>The laws of a registry\<close>

text \<open>
  A registry is a finite map from subscription identifiers to the event type and the entry they
  were registered with; \<open>live\<close> reads it. \<open>invar\<close> is the implementation's own invariant, kept by
  every operation; \<open>fresh\<close> says that an identifier was never registered, and \<open>pattern_ok\<close>
  restricts the topic patterns.
\<close>

locale event_registry =
  fixes V :: "('r, 'v) registry_vtable"
    and invar :: "'r \<Rightarrow> bool"
    and live :: "'r \<Rightarrow> uuid \<Rightarrow> (type_id \<times> 'v sub_entry) option"
    and fresh :: "'r \<Rightarrow> uuid \<Rightarrow> bool"
    and pattern_ok :: "string \<Rightarrow> bool"
  assumes invar_register: "invar r \<Longrightarrow> fresh r (sub_id e) \<Longrightarrow>
      (\<And>p. sub_topic e = Some p \<Longrightarrow> pattern_ok p) \<Longrightarrow> invar (snd (vt_register V r t n e))"
    and invar_unregister: "invar r \<Longrightarrow> invar (snd (vt_unregister V r i))"
    and fresh_not_live: "invar r \<Longrightarrow> fresh r i \<Longrightarrow> live r i = None"
    and register_ok: "fst (vt_register V r t n e) = Inr ()"
    and live_register: "invar r \<Longrightarrow> fresh r (sub_id e) \<Longrightarrow>
      live (snd (vt_register V r t n e)) = (live r)(sub_id e \<mapsto> (t, e))"
    and unregister_result: "invar r \<Longrightarrow>
      fst (vt_unregister V r i) = (if live r i = None then Inl (SubscriptionNotFound i) else Inr ())"
    and live_unregister: "invar r \<Longrightarrow> live (snd (vt_unregister V r i)) = (live r)(i := None)"
    and get_subscriptions_set: "invar r \<Longrightarrow>
      set (vt_get_subscriptions V r t) = {e. live r (sub_id e) = Some (t, e) \<and> active e}"
    and get_subscriptions_distinct: "invar r \<Longrightarrow>
      distinct (map sub_id (vt_get_subscriptions V r t))"
    and subscription_count: "invar r \<Longrightarrow>
      vt_subscription_count V r t = card {i. \<exists>e. live r i = Some (t, e)}"
begin

lemma unregister_undoes_register:
  assumes "invar r" "fresh r (sub_id e)" "\<And>p. sub_topic e = Some p \<Longrightarrow> pattern_ok p"
  shows "live (snd (vt_unregister V (snd (vt_register V r t n e)) (sub_id e))) = live r"
  using live_unregister [OF invar_register [OF assms], of t n "sub_id e"]
    live_register [OF assms(1,2)] fresh_not_live [OF assms(1,2)]
  by (simp add: fun_upd_idem_iff)

lemma get_subscriptions_register:
  assumes "invar r" "fresh r (sub_id e)" "\<And>p. sub_topic e = Some p \<Longrightarrow> pattern_ok p"
  shows "set (vt_get_subscriptions V (snd (vt_register V r t n e)) t') =
    set (vt_get_subscriptions V r t') \<union> (if t' = t \<and> active e then {e} else {})"
  using fresh_not_live [OF assms(1,2)]
  by (auto simp: get_subscriptions_set [OF invar_register [OF assms]]
      get_subscriptions_set [OF assms(1)] live_register [OF assms(1,2)] split: if_splits)

lemma get_subscriptions_unregister:
  assumes "invar r"
  shows "set (vt_get_subscriptions V (snd (vt_unregister V r i)) t) =
    {e \<in> set (vt_get_subscriptions V r t). sub_id e \<noteq> i}"
  by (auto simp: get_subscriptions_set [OF invar_unregister [OF assms]]
      get_subscriptions_set [OF assms] live_unregister [OF assms])

text \<open>
  The statistics count what \<open>get_subscriptions\<close> returns, which is only ever active: the inactive
  count is always zero.
\<close>

lemma stats_loop_inactive:
  assumes "invar r"
  shows "snd (snd (stats_loop V r ts (tot, act, inact))) = inact"
proof (induction ts arbitrary: tot act inact)
  case Nil
  then show ?case by simp
next
  case (Cons t ts)
  have "filter (\<lambda>s. \<not> active s) (vt_get_subscriptions V r t) = []"
    using get_subscriptions_set [OF assms, of t] by (auto simp: filter_empty_conv)
  then show ?case
    using Cons.IH by (simp add: Let_def)
qed

lemma stats_never_inactive:
  "invar r \<Longrightarrow> rs_inactive_subscriptions (registry_statistics V r) = 0"
  using stats_loop_inactive [of r "vt_event_types V r" 0 0 0]
  by (simp add: registry_statistics_def Let_def split_beta)

end

text \<open>A registry that also routes by topic.\<close>

locale topic_event_registry = event_registry +
  assumes get_topic_subscriptions_set: "invar r \<Longrightarrow>
      set (vt_get_topic_subscriptions V r lit) =
        {e. \<exists>t p. live r (sub_id e) = Some (t, e) \<and> active e \<and> sub_topic e = Some p \<and>
              pattern_matches (split_on dot p) (split_on dot lit)}"
begin

lemma get_topic_subscriptions_unregister:
  assumes "invar r"
  shows "set (vt_get_topic_subscriptions V (snd (vt_unregister V r i)) lit) =
    {e \<in> set (vt_get_topic_subscriptions V r lit). sub_id e \<noteq> i}"
  by (auto simp: get_topic_subscriptions_set [OF invar_unregister [OF assms]]
      get_topic_subscriptions_set [OF assms] live_unregister [OF assms])

end

end
