(* ===== verification/DashMap_Registry.thy ===== *)
theory DashMap_Registry
  imports Registry
begin

text \<open>
  The default registry (src/src/registry/dashmap.rs): five concurrent maps, updated together. Each
  method is one atomic step here, except that \<open>unregister\<close> is also split at the point where the code
  releases its lock on the subscription list, to show what an interleaved registration does.
\<close>

section \<open>State and operations\<close>

record 'v dashmap_registry =
  reg_subscriptions :: "(type_id \<times> 'v sub_entry list) list"
  subscription_to_type :: "(uuid \<times> type_id) list"
  name_to_type :: "(string \<times> type_id) list"
  subscription_to_topic :: "(uuid \<times> string) list"
  reg_trie :: topic_trie

definition dashmap_new :: "'v dashmap_registry" where
  "dashmap_new =
     \<lparr>reg_subscriptions = [], subscription_to_type = [], name_to_type = [],
      subscription_to_topic = [], reg_trie = trie_new\<rparr>"

definition register ::
    "'v dashmap_registry \<Rightarrow> type_id \<Rightarrow> string \<Rightarrow> 'v sub_entry \<Rightarrow> unit result \<times> 'v dashmap_registry" where
  "register r t name e =
     (let r1 = r\<lparr>subscription_to_type := mput (sub_id e) t (subscription_to_type r)\<rparr>;
          r2 = r1\<lparr>name_to_type := mput name t (name_to_type r1)\<rparr>;
          r3 = (case sub_topic e of
                  Some p \<Rightarrow> r2\<lparr>subscription_to_topic := mput (sub_id e) p (subscription_to_topic r2)\<rparr>
                | None \<Rightarrow> r2);
          es = (case map_of (reg_subscriptions r3) t of None \<Rightarrow> [] | Some es \<Rightarrow> es);
          r4 = r3\<lparr>reg_subscriptions := mput t (es @ [e]) (reg_subscriptions r3)\<rparr>;
          r5 = (case sub_topic e of
                  Some p \<Rightarrow> r4\<lparr>reg_trie := trie_insert p (sub_id e) (reg_trie r4)\<rparr>
                | None \<Rightarrow> r4)
      in (Inr (), r5))"

text \<open>\<open>unregister\<close> up to the update of the subscription list.\<close>

definition unregister_indexes :: "'v dashmap_registry \<Rightarrow> uuid \<Rightarrow> (error + type_id) \<times> 'v dashmap_registry" where
  "unregister_indexes r i =
     (case map_of (subscription_to_type r) i of
        None \<Rightarrow> (Inl (SubscriptionNotFound i), r)
      | Some t \<Rightarrow>
          (let r1 = r\<lparr>subscription_to_type := mdel i (subscription_to_type r)\<rparr>;
               r2 = (case map_of (subscription_to_topic r1) i of
                       Some p \<Rightarrow> r1\<lparr>subscription_to_topic := mdel i (subscription_to_topic r1),
                                    reg_trie := trie_remove_topic p i (reg_trie r1)\<rparr>
                     | None \<Rightarrow> r1\<lparr>reg_trie := trie_remove i (reg_trie r1)\<rparr>)
           in (Inr t, r2)))"

text \<open>Then, under the lock: drop the entry, and report whether the list became empty.\<close>

definition unregister_retain :: "'v dashmap_registry \<Rightarrow> type_id \<Rightarrow> uuid \<Rightarrow> bool \<times> 'v dashmap_registry" where
  "unregister_retain r t i =
     (case map_of (reg_subscriptions r) t of
        None \<Rightarrow> (False, r)
      | Some es \<Rightarrow>
          (let es' = filter (\<lambda>s. sub_id s \<noteq> i) es
           in (es' = [], r\<lparr>reg_subscriptions := mput t es' (reg_subscriptions r)\<rparr>)))"

text \<open>Then, the lock released: remove the map's entry for the type.\<close>

definition unregister_drop_type :: "'v dashmap_registry \<Rightarrow> type_id \<Rightarrow> 'v dashmap_registry" where
  "unregister_drop_type r t = r\<lparr>reg_subscriptions := mdel t (reg_subscriptions r)\<rparr>"

definition unregister :: "'v dashmap_registry \<Rightarrow> uuid \<Rightarrow> unit result \<times> 'v dashmap_registry" where
  "unregister r i =
     (case unregister_indexes r i of
        (Inl e, r1) \<Rightarrow> (Inl e, r1)
      | (Inr t, r1) \<Rightarrow>
          (let (emptied, r2) = unregister_retain r1 t i
           in (Inr (), if emptied then unregister_drop_type r2 t else r2)))"

definition get_subscriptions :: "'v dashmap_registry \<Rightarrow> type_id \<Rightarrow> 'v sub_entry list" where
  "get_subscriptions r t =
     (case map_of (reg_subscriptions r) t of None \<Rightarrow> [] | Some es \<Rightarrow> filter active es)"

definition get_topic_subscriptions :: "'v dashmap_registry \<Rightarrow> string \<Rightarrow> 'v sub_entry list" where
  "get_topic_subscriptions r lit =
     (let ids = match_topic (reg_trie r) lit
      in if ids = {} then []
         else concat (map (\<lambda>(t, es). filter (\<lambda>s. active s \<and> sub_id s \<in> ids) es)
                (reg_subscriptions r)))"

definition get_subscription :: "'v dashmap_registry \<Rightarrow> uuid \<Rightarrow> 'v sub_entry option" where
  "get_subscription r i =
     (case map_of (subscription_to_type r) i of
        None \<Rightarrow> None
      | Some t \<Rightarrow>
          (case map_of (reg_subscriptions r) t of
             None \<Rightarrow> None
           | Some es \<Rightarrow> find (\<lambda>s. sub_id s = i) es))"

definition increment_processed :: "'v dashmap_registry \<Rightarrow> uuid \<Rightarrow> 'v dashmap_registry" where
  "increment_processed r i =
     (case map_of (subscription_to_type r) i of
        None \<Rightarrow> r
      | Some t \<Rightarrow>
          (case map_of (reg_subscriptions r) t of
             None \<Rightarrow> r
           | Some es \<Rightarrow>
               r\<lparr>reg_subscriptions :=
                  mput t (update_first (\<lambda>s. sub_id s = i)
                           (\<lambda>s. s\<lparr>events_processed := events_processed s + 1\<rparr>) es)
                    (reg_subscriptions r)\<rparr>))"

definition deactivate :: "'v dashmap_registry \<Rightarrow> uuid \<Rightarrow> unit result \<times> 'v dashmap_registry" where
  "deactivate r i =
     (case map_of (subscription_to_type r) i of
        None \<Rightarrow> (Inl (SubscriptionNotFound i), r)
      | Some t \<Rightarrow>
          (case map_of (reg_subscriptions r) t of
             None \<Rightarrow> (Inl (SubscriptionNotFound i), r)
           | Some es \<Rightarrow>
               (if \<exists>s\<in>set es. sub_id s = i then
                  (Inr (), r\<lparr>reg_subscriptions :=
                     mput t (update_first (\<lambda>s. sub_id s = i) (\<lambda>s. s\<lparr>active := False\<rparr>) es)
                       (reg_subscriptions r)\<rparr>)
                else (Inl (SubscriptionNotFound i), r))))"

definition total_subscriptions :: "'v dashmap_registry \<Rightarrow> nat" where
  "total_subscriptions r = length (subscription_to_type r)"

definition subscription_count :: "'v dashmap_registry \<Rightarrow> type_id \<Rightarrow> nat" where
  "subscription_count r t =
     (case map_of (reg_subscriptions r) t of None \<Rightarrow> 0 | Some es \<Rightarrow> length es)"

definition event_types :: "'v dashmap_registry \<Rightarrow> type_id list" where
  "event_types r = map fst (reg_subscriptions r)"

definition clear :: "'v dashmap_registry \<Rightarrow> 'v dashmap_registry" where
  "clear r =
     r\<lparr>reg_subscriptions := [], subscription_to_type := [], name_to_type := [],
       reg_trie := trie_new\<rparr>"

definition get_type_id :: "'v dashmap_registry \<Rightarrow> string \<Rightarrow> type_id option" where
  "get_type_id r name = map_of (name_to_type r) name"

definition dashmap_vtable :: "('v dashmap_registry, 'v) registry_vtable" where
  "dashmap_vtable =
     \<lparr>vt_register = register, vt_unregister = unregister,
      vt_get_subscriptions = get_subscriptions,
      vt_get_topic_subscriptions = get_topic_subscriptions,
      vt_get_subscription = get_subscription, vt_increment_processed = increment_processed,
      vt_mark_failed = provided_mark_failed, vt_deactivate = deactivate,
      vt_total_subscriptions = total_subscriptions, vt_subscription_count = subscription_count,
      vt_topic_subscription_count = provided_topic_subscription_count get_topic_subscriptions,
      vt_event_types = event_types, vt_clear = clear, vt_get_type_id = get_type_id,
      vt_ack_event = provided_ack_event\<rparr>"

lemma dashmap_vtable_sel [simp]:
  "vt_register dashmap_vtable = register" "vt_unregister dashmap_vtable = unregister"
  "vt_get_subscriptions dashmap_vtable = get_subscriptions"
  "vt_get_topic_subscriptions dashmap_vtable = get_topic_subscriptions"
  "vt_get_subscription dashmap_vtable = get_subscription"
  "vt_increment_processed dashmap_vtable = increment_processed"
  "vt_mark_failed dashmap_vtable = provided_mark_failed"
  "vt_deactivate dashmap_vtable = deactivate"
  "vt_total_subscriptions dashmap_vtable = total_subscriptions"
  "vt_subscription_count dashmap_vtable = subscription_count"
  "vt_event_types dashmap_vtable = event_types" "vt_clear dashmap_vtable = clear"
  "vt_get_type_id dashmap_vtable = get_type_id"
  "vt_ack_event dashmap_vtable = provided_ack_event"
  by (simp_all add: dashmap_vtable_def)

section \<open>Invariant and abstraction\<close>

text \<open>The entry of a subscription, with its type: the registry as a finite map.\<close>

definition live :: "'v dashmap_registry \<Rightarrow> uuid \<Rightarrow> (type_id \<times> 'v sub_entry) option" where
  "live r i =
     (case map_of (subscription_to_type r) i of
        None \<Rightarrow> None
      | Some t \<Rightarrow> map_option (Pair t) (get_subscription r i))"

definition valid_topic :: "string \<Rightarrow> bool" where
  "valid_topic p \<longleftrightarrow> valid_pattern (split_on dot p)"

text \<open>An identifier neither registered nor left behind in the reverse index.\<close>

definition fresh_id :: "'v dashmap_registry \<Rightarrow> uuid \<Rightarrow> bool" where
  "fresh_id r i \<longleftrightarrow> i \<notin> mkeys (subscription_to_type r) \<and> i \<notin> mkeys (subscription_to_topic r)"

text \<open>The subscription list of a type, empty for a type with no key.\<close>

definition entries :: "'v dashmap_registry \<Rightarrow> type_id \<Rightarrow> 'v sub_entry list" where
  "entries r t = (case map_of (reg_subscriptions r) t of None \<Rightarrow> [] | Some es \<Rightarrow> es)"

definition keys_inv :: "'v dashmap_registry \<Rightarrow> bool" where
  "keys_inv r \<longleftrightarrow> distinct (map fst (reg_subscriptions r)) \<and>
     distinct (map fst (subscription_to_type r)) \<and> distinct (map fst (subscription_to_topic r)) \<and>
     wf_trie (reg_trie r)"

definition entries_inv :: "'v dashmap_registry \<Rightarrow> bool" where
  "entries_inv r \<longleftrightarrow>
     (\<forall>t. t \<in> mkeys (reg_subscriptions r) \<longrightarrow> entries r t \<noteq> []) \<and>
     (\<forall>t. distinct (map sub_id (entries r t))) \<and>
     (\<forall>t i. i \<in> sub_id ` set (entries r t) \<longleftrightarrow> map_of (subscription_to_type r) i = Some t)"

definition topic_inv :: "'v dashmap_registry \<Rightarrow> bool" where
  "topic_inv r \<longleftrightarrow>
     (\<forall>t. \<forall>s\<in>set (entries r t). sub_topic s = map_of (subscription_to_topic r) (sub_id s) \<and>
        (\<forall>p. sub_topic s = Some p \<longrightarrow> valid_topic p)) \<and>
     (\<forall>q i. i \<in> stored_ids (reg_trie r) q \<longleftrightarrow>
        (\<exists>t. \<exists>s\<in>set (entries r t). sub_id s = i \<and> (\<exists>p. sub_topic s = Some p \<and> q = split_on dot p)))"

definition registry_inv :: "'v dashmap_registry \<Rightarrow> bool" where
  "registry_inv r \<longleftrightarrow> keys_inv r \<and> entries_inv r \<and> topic_inv r"

subsection \<open>Reading the state\<close>

lemmas registry_inv_defs = registry_inv_def keys_inv_def entries_inv_def topic_inv_def

lemma entries_inv_ids:
  "entries_inv r \<Longrightarrow> i \<in> sub_id ` set (entries r t) \<longleftrightarrow> map_of (subscription_to_type r) i = Some t"
  unfolding entries_inv_def by blast

lemma mem_entries_type:
  "entries_inv r \<Longrightarrow> s \<in> set (entries r t) \<Longrightarrow> map_of (subscription_to_type r) (sub_id s) = Some t"
  by (rule entries_inv_ids [THEN iffD1, OF _ imageI])

lemma entries_unique:
  assumes "entries_inv r" "s \<in> set (entries r t)" "s' \<in> set (entries r t')" "sub_id s = sub_id s'"
  shows "t = t' \<and> s = s'"
proof -
  have "t = t'"
    using mem_entries_type [OF assms(1,2)] mem_entries_type [OF assms(1,3)] assms(4) by simp
  moreover have "inj_on sub_id (set (entries r t))"
    using assms(1) by (auto simp: entries_inv_def distinct_map)
  ultimately show ?thesis
    using assms(2,3,4) by (auto dest: inj_onD)
qed

lemma find_distinct:
  assumes "distinct (map f xs)" "x \<in> set xs"
  shows "find (\<lambda>y. f y = f x) xs = Some x"
  using assms by (induction xs) (auto simp: image_iff)

lemma find_SomeD: "find p xs = Some x \<Longrightarrow> x \<in> set xs \<and> p x"
  by (induction xs) (auto split: if_splits)

lemma get_subscription_entries:
  "get_subscription r i =
     (case map_of (subscription_to_type r) i of None \<Rightarrow> None
      | Some t \<Rightarrow> find (\<lambda>s. sub_id s = i) (entries r t))"
  by (simp add: get_subscription_def entries_def split: option.splits)

lemma live_iff:
  assumes "entries_inv r"
  shows "live r i = Some (t, e) \<longleftrightarrow> e \<in> set (entries r t) \<and> sub_id e = i"
proof
  assume "live r i = Some (t, e)"
  then show "e \<in> set (entries r t) \<and> sub_id e = i"
    by (auto simp: live_def get_subscription_entries dest!: find_SomeD split: option.splits)
next
  assume e: "e \<in> set (entries r t) \<and> sub_id e = i"
  then have "find (\<lambda>s. sub_id s = i) (entries r t) = Some e"
    using find_distinct [of sub_id "entries r t" e] assms by (auto simp: entries_inv_def)
  then show "live r i = Some (t, e)"
    using e mem_entries_type [OF assms, of e t]
    by (simp add: live_def get_subscription_entries)
qed

lemma live_None:
  assumes "entries_inv r"
  shows "live r i = None \<longleftrightarrow> map_of (subscription_to_type r) i = None"
proof
  assume "live r i = None"
  show "map_of (subscription_to_type r) i = None"
  proof (rule ccontr)
    assume "map_of (subscription_to_type r) i \<noteq> None"
    then obtain t where "map_of (subscription_to_type r) i = Some t" by blast
    then have "i \<in> sub_id ` set (entries r t)"
      by (simp only: entries_inv_ids [OF assms])
    then obtain e where "e \<in> set (entries r t)" "sub_id e = i"
      by (elim imageE) simp
    then show False
      using live_iff [OF assms, of i t e] \<open>live r i = None\<close> by simp
  qed
qed (simp add: live_def)

lemma get_subscriptions_entries: "get_subscriptions r t = filter active (entries r t)"
  by (simp add: get_subscriptions_def entries_def split: option.splits)

lemma subscription_count_entries: "subscription_count r t = length (entries r t)"
  by (simp add: subscription_count_def entries_def split: option.splits)

subsection \<open>Registration\<close>

lemma register_sel [simp]:
  "fst (register r t n e) = Inr ()"
  "subscription_to_type (snd (register r t n e)) = mput (sub_id e) t (subscription_to_type r)"
  "name_to_type (snd (register r t n e)) = mput n t (name_to_type r)"
  "subscription_to_topic (snd (register r t n e)) =
     (case sub_topic e of None \<Rightarrow> subscription_to_topic r
      | Some p \<Rightarrow> mput (sub_id e) p (subscription_to_topic r))"
  "reg_trie (snd (register r t n e)) =
     (case sub_topic e of None \<Rightarrow> reg_trie r | Some p \<Rightarrow> trie_insert p (sub_id e) (reg_trie r))"
  by (simp_all add: register_def Let_def split: option.splits)

lemma reg_subscriptions_register [simp]:
  "reg_subscriptions (snd (register r t n e)) = mput t (entries r t @ [e]) (reg_subscriptions r)"
  by (simp add: register_def Let_def entries_def split: option.splits)

lemma entries_register [simp]:
  "entries (snd (register r t n e)) t' = (if t' = t then entries r t @ [e] else entries r t')"
  by (simp add: entries_def)

lemma ex_entries_register:
  "(\<exists>t'. \<exists>s\<in>set (entries (snd (register r t n e)) t'). P s) \<longleftrightarrow>
     (\<exists>t'. \<exists>s\<in>set (entries r t'). P s) \<or> P e"
proof -
  have "s \<in> set (entries (snd (register r t n e)) t') \<longleftrightarrow>
      s \<in> set (entries r t') \<or> (t' = t \<and> s = e)" for s t'
    by auto
  then show ?thesis
    by (simp only: Bex_def) blast
qed

lemma fresh_id_not_entry:
  "entries_inv r \<Longrightarrow> fresh_id r i \<Longrightarrow> i \<notin> sub_id ` set (entries r t)"
  by (auto simp: entries_inv_def fresh_id_def mkeys_map_of)

lemma keys_inv_register: "keys_inv r \<Longrightarrow> keys_inv (snd (register r t n e))"
  by (simp add: keys_inv_def tix.wf_ins split: option.splits)

lemma entries_inv_register:
  assumes "entries_inv r" "fresh_id r (sub_id e)"
  shows "entries_inv (snd (register r t n e))"
proof -
  have "sub_id e \<notin> sub_id ` set (entries r t')" for t'
    by (rule fresh_id_not_entry [OF assms])
  moreover have "map_of (subscription_to_type r) (sub_id e) = None"
    using assms(2) by (auto simp: fresh_id_def map_of_eq_None_iff)
  ultimately show ?thesis
    using assms(1) by (auto simp: entries_inv_def)
qed

lemma topic_inv_register:
  assumes "entries_inv r" "topic_inv r" "fresh_id r (sub_id e)"
    "\<And>p. sub_topic e = Some p \<Longrightarrow> valid_topic p"
  shows "topic_inv (snd (register r t n e))"
proof -
  have new: "sub_id s \<noteq> sub_id e" if "s \<in> set (entries r t')" for s t'
    using fresh_id_not_entry [OF assms(1,3), of t'] imageI [OF that, of sub_id] by auto
  have none: "map_of (subscription_to_topic r) (sub_id e) = None"
    using assms(3) by (auto simp: fresh_id_def map_of_eq_None_iff)
  have st: "i \<in> stored_ids (reg_trie (snd (register r t n e))) q \<longleftrightarrow>
      i \<in> stored_ids (reg_trie r) q \<or>
        (i = sub_id e \<and> (\<exists>p. sub_topic e = Some p \<and> q = split_on dot p))" for i q
    using assms(4) by (auto simp: tix.stored_ins valid_topic_def valid_pattern_def split: option.splits)
  have "(\<forall>t'. \<forall>s\<in>set (entries (snd (register r t n e)) t').
      sub_topic s = map_of (subscription_to_topic (snd (register r t n e))) (sub_id s) \<and>
      (\<forall>p. sub_topic s = Some p \<longrightarrow> valid_topic p))"
    using assms(2,4) new none by (auto simp: topic_inv_def split: option.splits)
  moreover have "i \<in> stored_ids (reg_trie (snd (register r t n e))) q \<longleftrightarrow>
      (\<exists>t'. \<exists>s\<in>set (entries (snd (register r t n e)) t').
        sub_id s = i \<and> (\<exists>p. sub_topic s = Some p \<and> q = split_on dot p))" for i q
    unfolding st ex_entries_register using assms(2) by (auto simp: topic_inv_def)
  ultimately show ?thesis
    by (simp add: topic_inv_def)
qed

lemma registry_inv_register:
  "registry_inv r \<Longrightarrow> fresh_id r (sub_id e) \<Longrightarrow> (\<And>p. sub_topic e = Some p \<Longrightarrow> valid_topic p) \<Longrightarrow>
     registry_inv (snd (register r t n e))"
  by (simp add: registry_inv_def keys_inv_register entries_inv_register topic_inv_register)

lemma live_eqI:
  assumes "entries_inv r" "\<And>t e. f = Some (t, e) \<longleftrightarrow> e \<in> set (entries r t) \<and> sub_id e = i"
  shows "live r i = f"
proof (cases f)
  case None
  then have "live r i \<noteq> Some (t, e)" for t e
    using assms(2) live_iff [OF assms(1)] by simp
  then show ?thesis
    using None by (cases "live r i") auto
next
  case (Some te)
  obtain t e where te: "te = (t, e)" by (cases te)
  have "e \<in> set (entries r t) \<and> sub_id e = i"
    using assms(2) [of t e] Some te by simp
  then show ?thesis
    using live_iff [OF assms(1), of i t e] Some te by simp
qed

lemma live_register:
  assumes "registry_inv r" "fresh_id r (sub_id e)"
  shows "live (snd (register r t n e)) = (live r)(sub_id e \<mapsto> (t, e))"
proof (rule ext)
  fix i
  have inv: "entries_inv r" and inv': "entries_inv (snd (register r t n e))"
    using assms entries_inv_register by (auto simp: registry_inv_def)
  have "sub_id s \<noteq> sub_id e" if "s \<in> set (entries r t')" for s t'
    using fresh_id_not_entry [OF inv assms(2), of t'] imageI [OF that, of sub_id] by auto
  then show "live (snd (register r t n e)) i = ((live r)(sub_id e \<mapsto> (t, e))) i"
    by (intro live_eqI [OF inv']) (auto simp: live_iff [OF inv])
qed

subsection \<open>Removal\<close>

lemma unregister_unknown:
  "map_of (subscription_to_type r) i = None \<Longrightarrow> unregister r i = (Inl (SubscriptionNotFound i), r)"
  by (simp add: unregister_def unregister_indexes_def)

lemma unregister_known:
  assumes "map_of (subscription_to_type r) i = Some t"
  shows "fst (unregister r i) = Inr ()"
    "subscription_to_type (snd (unregister r i)) = mdel i (subscription_to_type r)"
    "name_to_type (snd (unregister r i)) = name_to_type r"
    "subscription_to_topic (snd (unregister r i)) =
       (case map_of (subscription_to_topic r) i of None \<Rightarrow> subscription_to_topic r
        | Some p \<Rightarrow> mdel i (subscription_to_topic r))"
    "reg_trie (snd (unregister r i)) =
       (case map_of (subscription_to_topic r) i of None \<Rightarrow> trie_remove i (reg_trie r)
        | Some p \<Rightarrow> trie_remove_topic p i (reg_trie r))"
    "reg_subscriptions (snd (unregister r i)) =
       (if map_of (reg_subscriptions r) t = None then reg_subscriptions r
        else if filter (\<lambda>s. sub_id s \<noteq> i) (entries r t) = []
        then mdel t (mput t [] (reg_subscriptions r))
        else mput t (filter (\<lambda>s. sub_id s \<noteq> i) (entries r t)) (reg_subscriptions r))"
  using assms
  by (auto simp: unregister_def unregister_indexes_def unregister_retain_def
      unregister_drop_type_def entries_def Let_def split: option.splits)

lemma mkeys_entries: "map_of (reg_subscriptions r) t = None \<Longrightarrow> entries r t = []"
  by (simp add: entries_def)

lemma entries_unregister:
  assumes "entries_inv r"
  shows "entries (snd (unregister r i)) t = filter (\<lambda>s. sub_id s \<noteq> i) (entries r t)"
proof (cases "map_of (subscription_to_type r) i")
  case None
  then have "i \<notin> sub_id ` set (entries r t)"
    using assms by (simp add: entries_inv_def)
  then have "filter (\<lambda>s. sub_id s \<noteq> i) (entries r t) = entries r t"
    by (intro filter_True) auto
  then show ?thesis
    by (simp add: unregister_unknown [OF None])
next
  case (Some t0)
  have other: "filter (\<lambda>s. sub_id s \<noteq> i) (entries r t) = entries r t" if "t \<noteq> t0"
  proof -
    have "i \<notin> sub_id ` set (entries r t)"
      using assms Some that by (auto simp: entries_inv_def)
    then show ?thesis by (intro filter_True) auto
  qed
  show ?thesis
    using other mkeys_entries [of r t0]
    by (auto simp: entries_def unregister_known(6) [OF Some] split: if_splits)
qed

lemma keys_inv_unregister: "keys_inv r \<Longrightarrow> keys_inv (snd (unregister r i))"
proof (cases "map_of (subscription_to_type r) i")
  case None
  then show "keys_inv r \<Longrightarrow> ?thesis" by (simp add: unregister_unknown)
next
  case (Some t)
  then show "keys_inv r \<Longrightarrow> ?thesis"
    by (simp add: keys_inv_def unregister_known [OF Some] tix.wf_del tix.wf_del_all split: option.splits)
qed

lemma mkeys_unregister:
  "entries_inv r \<Longrightarrow> t \<in> mkeys (reg_subscriptions (snd (unregister r i))) \<Longrightarrow>
     entries (snd (unregister r i)) t \<noteq> []"
proof (cases "map_of (subscription_to_type r) i")
  case None
  then show "entries_inv r \<Longrightarrow> t \<in> mkeys (reg_subscriptions (snd (unregister r i))) \<Longrightarrow> ?thesis"
    by (simp add: unregister_unknown entries_inv_def)
next
  case (Some t0)
  assume inv: "entries_inv r" and t: "t \<in> mkeys (reg_subscriptions (snd (unregister r i)))"
  show ?thesis
  proof (cases "t = t0")
    case True
    then show ?thesis
      using t mkeys_map_of [of t "reg_subscriptions r"]
      by (simp add: entries_unregister [OF inv] unregister_known(6) [OF Some] split: if_splits)
  next
    case False
    then have "t \<in> mkeys (reg_subscriptions r)"
      using t by (simp add: unregister_known(6) [OF Some] split: if_splits)
    then have "entries r t \<noteq> []"
      using inv by (simp add: entries_inv_def)
    moreover have "i \<notin> sub_id ` set (entries r t)"
      using False Some by (simp add: entries_inv_ids [OF inv])
    then have "filter (\<lambda>s. sub_id s \<noteq> i) (entries r t) = entries r t"
      by (intro filter_True) auto
    ultimately show ?thesis
      by (simp add: entries_unregister [OF inv])
  qed
qed

lemma type_unregister:
  "map_of (subscription_to_type (snd (unregister r i))) = (map_of (subscription_to_type r))(i := None)"
proof (cases "map_of (subscription_to_type r) i")
  case None
  then show ?thesis by (simp add: unregister_unknown fun_upd_idem)
next
  case (Some t)
  then show ?thesis by (simp add: unregister_known [OF Some])
qed

lemma entries_inv_unregister:
  assumes "entries_inv r"
  shows "entries_inv (snd (unregister r i))"
proof -
  have "distinct (map sub_id (filter (\<lambda>s. sub_id s \<noteq> i) (entries r t)))" for t
    using assms by (simp add: entries_inv_def distinct_map_filter)
  moreover have "j \<in> sub_id ` set (filter (\<lambda>s. sub_id s \<noteq> i) (entries r t)) \<longleftrightarrow>
      j \<noteq> i \<and> map_of (subscription_to_type r) j = Some t" for t j
    unfolding entries_inv_ids [OF assms, symmetric] by auto
  ultimately show ?thesis
    using mkeys_unregister [OF assms]
    unfolding entries_inv_def [of "snd (unregister r i)"] entries_unregister [OF assms] type_unregister
    by simp
qed

lemma stored_unregister:
  assumes "entries_inv r" "topic_inv r" "map_of (subscription_to_type r) i = Some t"
  shows "j \<in> stored_ids (reg_trie (snd (unregister r i))) q \<longleftrightarrow>
    j \<in> stored_ids (reg_trie r) q \<and> j \<noteq> i"
proof (cases "map_of (subscription_to_topic r) i")
  case None
  then show ?thesis by (simp add: unregister_known [OF assms(3)] tix.stored_del_all)
next
  case (Some p)
  have "q = split_on dot p" if "i \<in> stored_ids (reg_trie r) q"
  proof -
    from that assms(2) obtain t' s p' where
      s: "s \<in> set (entries r t')" "sub_id s = i" "sub_topic s = Some p'" "q = split_on dot p'"
      by (auto simp: topic_inv_def)
    then have "sub_topic s = Some p"
      using assms(2) Some by (auto simp: topic_inv_def)
    with s show ?thesis by simp
  qed
  then show ?thesis
    using Some by (auto simp: unregister_known [OF assms(3)] tix.stored_del)
qed

lemma topic_inv_unregister:
  assumes "entries_inv r" "topic_inv r"
  shows "topic_inv (snd (unregister r i))"
proof (cases "map_of (subscription_to_type r) i")
  case None
  then show ?thesis using assms by (simp add: unregister_unknown)
next
  case (Some t)
  have "j \<in> stored_ids (reg_trie (snd (unregister r i))) q \<longleftrightarrow>
      (\<exists>t. \<exists>s\<in>set (entries (snd (unregister r i)) t).
        sub_id s = j \<and> (\<exists>p. sub_topic s = Some p \<and> q = split_on dot p))" for j q
  proof -
    have "j \<in> stored_ids (reg_trie r) q \<longleftrightarrow>
        (\<exists>t. \<exists>s\<in>set (entries r t). sub_id s = j \<and> (\<exists>p. sub_topic s = Some p \<and> q = split_on dot p))"
      using assms(2) unfolding topic_inv_def by blast
    then show ?thesis
      unfolding stored_unregister [OF assms Some] entries_unregister [OF assms(1)] by auto
  qed
  moreover have "sub_topic s = map_of (subscription_to_topic (snd (unregister r i))) (sub_id s) \<and>
      (\<forall>p. sub_topic s = Some p \<longrightarrow> valid_topic p)"
    if "s \<in> set (entries (snd (unregister r i)) t')" for s t'
    using assms(2) that
    by (auto simp: topic_inv_def entries_unregister [OF assms(1)] unregister_known [OF Some] split: option.splits)
  ultimately show ?thesis
    unfolding topic_inv_def by blast
qed

lemma registry_inv_unregister: "registry_inv r \<Longrightarrow> registry_inv (snd (unregister r i))"
  by (simp add: registry_inv_def keys_inv_unregister entries_inv_unregister topic_inv_unregister)

lemma live_unregister:
  assumes "registry_inv r"
  shows "live (snd (unregister r i)) = (live r)(i := None)"
proof (rule ext)
  fix j
  have inv: "entries_inv r" using assms by (simp add: registry_inv_def)
  show "live (snd (unregister r i)) j = ((live r)(i := None)) j"
    by (rule live_eqI [OF entries_inv_unregister [OF inv]])
      (auto simp: live_iff [OF inv] entries_unregister [OF inv])
qed

subsection \<open>Updates of one entry\<close>

text \<open>\<open>increment_processed\<close> and \<open>deactivate\<close> rewrite one entry in place.\<close>

definition touch :: "'v dashmap_registry \<Rightarrow> uuid \<Rightarrow> ('v sub_entry \<Rightarrow> 'v sub_entry) \<Rightarrow> 'v dashmap_registry" where
  "touch r i f =
     (case map_of (subscription_to_type r) i of
        None \<Rightarrow> r
      | Some t \<Rightarrow>
          (case map_of (reg_subscriptions r) t of
             None \<Rightarrow> r
           | Some es \<Rightarrow>
               r\<lparr>reg_subscriptions :=
                  mput t (update_first (\<lambda>s. sub_id s = i) f es) (reg_subscriptions r)\<rparr>))"

lemma touch_sel [simp]:
  "subscription_to_type (touch r i f) = subscription_to_type r"
  "name_to_type (touch r i f) = name_to_type r"
  "subscription_to_topic (touch r i f) = subscription_to_topic r"
  "reg_trie (touch r i f) = reg_trie r"
  by (simp_all add: touch_def split: option.splits)

lemma increment_processed_touch:
  "increment_processed r i = touch r i (\<lambda>s. s\<lparr>events_processed := events_processed s + 1\<rparr>)"
  by (simp add: increment_processed_def touch_def)

lemma update_first_distinct:
  assumes "distinct (map g xs)"
  shows "update_first (\<lambda>x. g x = i) f xs = map (\<lambda>x. if g x = i then f x else x) xs"
  using assms
proof (induction xs)
  case Nil
  then show ?case by simp
next
  case (Cons x xs)
  have "map (\<lambda>y. if g y = i then f y else y) xs = xs" if "g x = i"
    using Cons.prems that by (intro map_idI) (auto simp: image_iff)
  then show ?case
    using Cons by simp
qed

lemma entries_touch:
  assumes "entries_inv r"
  shows "entries (touch r i f) t = map (\<lambda>s. if sub_id s = i then f s else s) (entries r t)"
proof -
  have d: "distinct (map sub_id (entries r t'))" for t'
    using assms by (simp add: entries_inv_def)
  have same: "map (\<lambda>s. if sub_id s = i then f s else s) (entries r t) = entries r t"
    if "i \<notin> sub_id ` set (entries r t)"
    using that by (intro map_idI) (auto simp: image_iff)
  show ?thesis
  proof (cases "map_of (subscription_to_type r) i = Some t")
    case True
    then have "entries (touch r i f) t = update_first (\<lambda>s. sub_id s = i) f (entries r t)"
      by (simp add: touch_def entries_def split: option.splits)
    then show ?thesis
      by (simp only: update_first_distinct [OF d])
  next
    case False
    then have "entries (touch r i f) t = entries r t"
      by (auto simp: touch_def entries_def split: option.splits)
    moreover have "i \<notin> sub_id ` set (entries r t)"
      using False by (simp add: entries_inv_ids [OF assms])
    ultimately show ?thesis
      using same by simp
  qed
qed

lemma registry_inv_touch:
  assumes "registry_inv r" "\<And>s. sub_id (f s) = sub_id s" "\<And>s. sub_topic (f s) = sub_topic s"
  shows "registry_inv (touch r i f)"
proof -
  have inv: "entries_inv r" using assms(1) by (simp add: registry_inv_def)
  define g where "g = (\<lambda>s. if sub_id s = i then f s else s)"
  have g: "sub_id (g s) = sub_id s" "sub_topic (g s) = sub_topic s" for s
    by (simp_all add: g_def assms(2,3))
  have ent: "entries (touch r i f) t = map g (entries r t)" for t
    by (simp add: g_def entries_touch [OF inv])
  have ids: "map sub_id (map g es) = map sub_id es" for es
    by (simp add: g)
  have img: "sub_id ` set (map g es) = sub_id ` set es" for es
    by (simp add: g image_image)
  have "keys_inv (touch r i f)"
    using assms(1) by (auto simp: registry_inv_def keys_inv_def touch_def split: option.splits)
  moreover have "t \<in> mkeys (reg_subscriptions (touch r i f)) \<longleftrightarrow> t \<in> mkeys (reg_subscriptions r)" for t
    by (auto simp: touch_def mkeys_map_of split: option.splits if_splits)
  then have "entries_inv (touch r i f)"
    using inv unfolding entries_inv_def ent touch_sel ids img by simp
  moreover have "topic_inv (touch r i f)"
    using assms(1) unfolding registry_inv_def topic_inv_def ent touch_sel
    by (simp add: g)
  ultimately show ?thesis
    by (simp add: registry_inv_def)
qed

lemma live_touch:
  assumes "registry_inv r" "\<And>s. sub_id (f s) = sub_id s" "\<And>s. sub_topic (f s) = sub_topic s"
  shows "live (touch r i f) = (live r)(i := map_option (apsnd f) (live r i))"
proof (rule ext)
  fix j
  have inv: "entries_inv r" and inv': "entries_inv (touch r i f)"
    using assms(1) registry_inv_touch [OF assms] by (simp_all add: registry_inv_def)
  show "live (touch r i f) j = ((live r)(i := map_option (apsnd f) (live r i))) j"
  proof (rule live_eqI [OF inv'])
    fix t e
    show "((live r)(i := map_option (apsnd f) (live r i))) j = Some (t, e) \<longleftrightarrow>
        e \<in> set (entries (touch r i f) t) \<and> sub_id e = j"
    proof (cases "j = i")
      case True
      have "map_option (apsnd f) (live r i) = Some (t, e) \<longleftrightarrow> (\<exists>e0. live r i = Some (t, e0) \<and> e = f e0)"
        by (cases "live r i") auto
      also have "\<dots> \<longleftrightarrow> e \<in> set (entries (touch r i f) t) \<and> sub_id e = i"
        unfolding live_iff [OF inv] entries_touch [OF inv] using assms(2) by auto
      finally show ?thesis
        using True by simp
    next
      case False
      then show ?thesis
        unfolding entries_touch [OF inv] using assms(2) live_iff [OF inv, of j t e] by auto
    qed
  qed
qed

lemma deactivate_live:
  assumes "registry_inv r"
  shows "deactivate r i =
    (if live r i = None then (Inl (SubscriptionNotFound i), r)
     else (Inr (), touch r i (\<lambda>s. s\<lparr>active := False\<rparr>)))"
proof (cases "live r i")
  case None
  then show ?thesis
    using assms by (simp add: live_None registry_inv_def deactivate_def)
next
  case (Some te)
  obtain t e where te: "te = (t, e)" by (cases te)
  have inv: "entries_inv r" using assms by (simp add: registry_inv_def)
  have e: "e \<in> set (entries r t)" "sub_id e = i"
    using Some te live_iff [OF inv] by auto
  then have "map_of (subscription_to_type r) i = Some t"
    using mem_entries_type [OF inv] by blast
  moreover have "map_of (reg_subscriptions r) t = Some (entries r t)"
    using e(1) mkeys_entries [of r t] by (cases "map_of (reg_subscriptions r) t") (auto simp: entries_def)
  ultimately show ?thesis
    using e Some by (auto simp: deactivate_def touch_def)
qed

subsection \<open>What the lookups return\<close>

lemma get_subscriptions_live:
  "registry_inv r \<Longrightarrow> set (get_subscriptions r t) = {e. live r (sub_id e) = Some (t, e) \<and> active e}"
  by (auto simp: get_subscriptions_entries registry_inv_def live_iff)

lemma distinct_get_subscriptions:
  "registry_inv r \<Longrightarrow> distinct (map sub_id (get_subscriptions r t))"
  by (simp add: get_subscriptions_entries registry_inv_def entries_inv_def distinct_map_filter)

lemma subscription_count_live:
  assumes "registry_inv r"
  shows "subscription_count r t = card {i. \<exists>e. live r i = Some (t, e)}"
proof -
  have inv: "entries_inv r" using assms by (simp add: registry_inv_def)
  have "{i. \<exists>e. live r i = Some (t, e)} = set (map sub_id (entries r t))"
    using live_iff [OF inv] by auto
  moreover have "distinct (map sub_id (entries r t))"
    using inv by (simp add: entries_inv_def)
  ultimately show ?thesis
    by (simp only: distinct_card length_map subscription_count_entries)
qed

lemma match_topic_live:
  assumes "registry_inv r"
  shows "i \<in> match_topic (reg_trie r) lit \<longleftrightarrow>
    (\<exists>t e p. live r i = Some (t, e) \<and> sub_topic e = Some p \<and>
       pattern_matches (split_on dot p) (split_on dot lit))"
proof -
  have inv: "entries_inv r" and wf: "wf_trie (reg_trie r)"
    and st: "i \<in> stored_ids (reg_trie r) q \<longleftrightarrow>
      (\<exists>t. \<exists>s\<in>set (entries r t). sub_id s = i \<and> (\<exists>p. sub_topic s = Some p \<and> q = split_on dot p))" for q
    using assms by (simp_all add: registry_inv_def keys_inv_def topic_inv_def)
  show ?thesis
    unfolding tix.lookup_iff [OF wf] st live_iff [OF inv] by blast
qed

lemma set_get_topic_subscriptions:
  assumes "registry_inv r"
  shows "set (get_topic_subscriptions r lit) =
    {s. \<exists>t. s \<in> set (entries r t) \<and> active s \<and> sub_id s \<in> match_topic (reg_trie r) lit}"
proof -
  have d: "distinct (map fst (reg_subscriptions r))"
    using assms by (simp add: registry_inv_def keys_inv_def)
  have ent: "s \<in> set (entries r t) \<longleftrightarrow> (\<exists>es. (t, es) \<in> set (reg_subscriptions r) \<and> s \<in> set es)" for s t
    unfolding set_map_of_distinct [OF d] by (cases "map_of (reg_subscriptions r) t") (simp_all add: entries_def)
  have "s \<in> set (get_topic_subscriptions r lit) \<longleftrightarrow>
      (\<exists>t es. (t, es) \<in> set (reg_subscriptions r) \<and> s \<in> set es) \<and>
      active s \<and> sub_id s \<in> match_topic (reg_trie r) lit" for s
    by (auto simp: get_topic_subscriptions_def Let_def)
  then show ?thesis
    unfolding ent by blast
qed

lemma get_topic_subscriptions_live:
  assumes "registry_inv r"
  shows "set (get_topic_subscriptions r lit) =
    {e. \<exists>t p. live r (sub_id e) = Some (t, e) \<and> active e \<and> sub_topic e = Some p \<and>
       pattern_matches (split_on dot p) (split_on dot lit)}"
proof -
  have inv: "entries_inv r" using assms by (simp add: registry_inv_def)
  have "live r (sub_id e) = Some (t, e) \<longleftrightarrow> e \<in> set (entries r t)" for e t
    using live_iff [OF inv] by simp
  then show ?thesis
    unfolding set_get_topic_subscriptions [OF assms] match_topic_live [OF assms]
    by (auto simp: live_iff [OF inv] dest: entries_unique [OF inv])
qed

lemma fresh_not_live:
  "registry_inv r \<Longrightarrow> fresh_id r i \<Longrightarrow> live r i = None"
  by (simp add: live_def fresh_id_def map_of_eq_None_iff [THEN iffD2])

lemma unregister_result:
  assumes "registry_inv r"
  shows "fst (unregister r i) =
    (if live r i = None then Inl (SubscriptionNotFound i) else Inr ())"
proof -
  have "live r i = None \<longleftrightarrow> map_of (subscription_to_type r) i = None"
    using assms by (intro live_None) (simp add: registry_inv_def)
  then show ?thesis
    by (cases "map_of (subscription_to_type r) i")
      (simp_all add: unregister_unknown unregister_known(1))
qed

lemma total_subscriptions_live:
  assumes "registry_inv r"
  shows "total_subscriptions r = card (dom (live r))"
proof -
  have "i \<in> dom (live r) \<longleftrightarrow> i \<in> mkeys (subscription_to_type r)" for i
    using assms live_None [of r i]
    by (cases "map_of (subscription_to_type r) i") (auto simp: registry_inv_def dom_def mkeys_map_of)
  then have "dom (live r) = set (map fst (subscription_to_type r))"
    by auto
  then show ?thesis
    using assms
    by (simp only: total_subscriptions_def registry_inv_def keys_inv_def distinct_card length_map)
qed

interpretation dash: topic_event_registry dashmap_vtable registry_inv live fresh_id valid_topic
proof (unfold_locales, unfold dashmap_vtable_sel)
qed (simp_all add: registry_inv_register registry_inv_unregister fresh_not_live live_register
    unregister_result live_unregister get_subscriptions_live distinct_get_subscriptions
    subscription_count_live get_topic_subscriptions_live)

section \<open>The properties\<close>

text \<open>Sequences of registry calls, and what they do to the finite map.\<close>

datatype 'v reg_op =
    OpRegister type_id string "'v sub_entry"
  | OpUnregister uuid
  | OpDeactivate uuid
  | OpIncrement uuid

fun reg_step :: "'v reg_op \<Rightarrow> 'v dashmap_registry \<Rightarrow> 'v dashmap_registry" where
  "reg_step (OpRegister t n e) r = snd (register r t n e)"
| "reg_step (OpUnregister i) r = snd (unregister r i)"
| "reg_step (OpDeactivate i) r = snd (deactivate r i)"
| "reg_step (OpIncrement i) r = increment_processed r i"

definition reg_run :: "'v reg_op list \<Rightarrow> 'v dashmap_registry" where
  "reg_run ops = fold reg_step ops dashmap_new"

type_synonym 'v reg_map = "uuid \<Rightarrow> (type_id \<times> 'v sub_entry) option"

fun map_step :: "'v reg_op \<Rightarrow> 'v reg_map \<Rightarrow> 'v reg_map" where
  "map_step (OpRegister t n e) m = m(sub_id e \<mapsto> (t, e))"
| "map_step (OpUnregister i) m = m(i := None)"
| "map_step (OpDeactivate i) m = m(i := map_option (apsnd (\<lambda>s. s\<lparr>active := False\<rparr>)) (m i))"
| "map_step (OpIncrement i) m =
     m(i := map_option (apsnd (\<lambda>s. s\<lparr>events_processed := events_processed s + 1\<rparr>)) (m i))"

definition map_run :: "'v reg_op list \<Rightarrow> 'v reg_map" where
  "map_run ops = fold map_step ops Map.empty"

fun registered :: "'v reg_op list \<Rightarrow> 'v sub_entry list" where
  "registered [] = []"
| "registered (OpRegister t n e # ops) = e # registered ops"
| "registered (_ # ops) = registered ops"

text \<open>Every registration uses a new identifier (the code draws a UUID) and a valid pattern.\<close>

definition ops_ok :: "'v reg_op list \<Rightarrow> bool" where
  "ops_ok ops \<longleftrightarrow> distinct (map sub_id (registered ops)) \<and>
     list_all (\<lambda>e. case sub_topic e of None \<Rightarrow> True | Some p \<Rightarrow> valid_topic p) (registered ops)"

lemma registry_inv_new: "registry_inv dashmap_new"
  by (simp add: registry_inv_defs entries_def dashmap_new_def tix.wf_new tix.stored_new)

lemma live_new: "live dashmap_new = Map.empty"
  by (simp add: live_def dashmap_new_def fun_eq_iff)

lemma fresh_id_step:
  assumes "registry_inv r" "fresh_id r j" "j \<notin> sub_id ` set (registered [op])"
  shows "fresh_id (reg_step op r) j"
proof (cases op)
  case (OpRegister t n e)
  then show ?thesis
    using assms by (auto simp: fresh_id_def split: option.splits)
next
  case (OpUnregister i)
  then show ?thesis
    using assms
    by (cases "map_of (subscription_to_type r) i")
      (auto simp: fresh_id_def unregister_unknown unregister_known split: option.splits)
next
  case (OpDeactivate i)
  then show ?thesis
    using assms by (simp add: fresh_id_def deactivate_live)
next
  case (OpIncrement i)
  then show ?thesis
    using assms by (simp add: fresh_id_def increment_processed_touch)
qed

lemma registered_Cons: "registered (op # ops) = registered [op] @ registered ops"
  by (cases op) simp_all

lemma reg_step_refines:
  assumes "registry_inv r" "\<And>e. e \<in> set (registered [op]) \<Longrightarrow> fresh_id r (sub_id e)"
    "ops_ok [op]"
  shows "registry_inv (reg_step op r) \<and> live (reg_step op r) = map_step op (live r)"
proof (cases op)
  case (OpRegister t n e)
  then show ?thesis
    using assms by (auto simp: ops_ok_def live_register intro: registry_inv_register)
next
  case (OpUnregister i)
  then show ?thesis
    using assms(1) by (simp add: live_unregister registry_inv_unregister)
next
  case (OpDeactivate i)
  then show ?thesis
    using assms(1) by (auto simp: deactivate_live live_touch registry_inv_touch fun_upd_idem_iff)
next
  case (OpIncrement i)
  then show ?thesis
    using assms(1) by (simp add: increment_processed_touch live_touch registry_inv_touch)
qed

lemma reg_fold_refines:
  assumes "registry_inv r" "ops_ok ops" "\<And>e. e \<in> set (registered ops) \<Longrightarrow> fresh_id r (sub_id e)"
  shows "registry_inv (fold reg_step ops r) \<and> live (fold reg_step ops r) = fold map_step ops (live r)"
  using assms
proof (induction ops arbitrary: r)
  case Nil
  then show ?case by simp
next
  case (Cons op ops)
  have regs: "registered (op # ops) = registered [op] @ registered ops"
    by (rule registered_Cons)
  have ok: "ops_ok [op]" "ops_ok ops"
    and sep: "sub_id ` set (registered [op]) \<inter> sub_id ` set (registered ops) = {}"
    using Cons.prems(2) by (simp_all add: ops_ok_def regs)
  have step: "registry_inv (reg_step op r)" "live (reg_step op r) = map_step op (live r)"
    using reg_step_refines [OF Cons.prems(1) _ ok(1)] Cons.prems(3) by (simp_all add: regs)
  have "fresh_id (reg_step op r) (sub_id e)" if "e \<in> set (registered ops)" for e
    using that sep Cons.prems(3) [of e]
    by (intro fresh_id_step [OF Cons.prems(1)]) (auto simp: regs)
  then show ?case
    using Cons.IH [OF step(1) ok(2)] step(2) by simp
qed

lemma reg_run_refines:
  "ops_ok ops \<Longrightarrow> registry_inv (reg_run ops) \<and> live (reg_run ops) = map_run ops"
  using reg_fold_refines [OF registry_inv_new, of ops]
  by (simp add: reg_run_def map_run_def live_new fresh_id_def) (simp add: dashmap_new_def)

text \<open>
  C9: after any sequence of registrations (each with a fresh id and a valid pattern), removals,
  deactivations and counter updates, the five maps of the registry agree with one finite map from
  subscription id to (event type, entry): the lookup by type returns exactly the active entries of
  that type, each once; the counts are the sizes of the map; a removal fails exactly for the ids
  that are not in it.
\<close>

theorem registry_refines_finite_map:
  assumes "ops_ok ops"
  shows "set (get_subscriptions (reg_run ops) t) = {e. map_run ops (sub_id e) = Some (t, e) \<and> active e} \<and>
    distinct (map sub_id (get_subscriptions (reg_run ops) t)) \<and>
    subscription_count (reg_run ops) t = card {i. \<exists>e. map_run ops i = Some (t, e)} \<and>
    total_subscriptions (reg_run ops) = card (dom (map_run ops)) \<and>
    fst (unregister (reg_run ops) i) =
      (if map_run ops i = None then Inl (SubscriptionNotFound i) else Inr ())"
proof -
  have inv: "registry_inv (reg_run ops)" and live: "live (reg_run ops) = map_run ops"
    using reg_run_refines [OF assms] by simp_all
  show ?thesis
    using dash.get_subscriptions_set [OF inv, of t] dash.get_subscriptions_distinct [OF inv, of t]
      dash.subscription_count [OF inv, of t] total_subscriptions_live [OF inv]
      dash.unregister_result [OF inv, of i]
    by (simp only: dashmap_vtable_sel live)
qed

definition sample_ops :: "unit reg_op list" where
  "sample_ops =
     [OpRegister 7 ''E'' (with_topic (entry_new 1) ''a.*''), OpRegister 7 ''E'' (entry_new 2),
      OpRegister 8 ''F'' (with_topic (entry_new 3) ''a.>''), OpDeactivate 2, OpIncrement 1]"

lemma sample_ops_ok: "ops_ok sample_ops"
  by code_simp

theorem registry_refines_finite_map_witness:
  "fst (unregister (reg_run sample_ops) 9) = Inl (SubscriptionNotFound 9)"
  using registry_refines_finite_map [OF sample_ops_ok, of 7 9]
  by (simp add: map_run_def sample_ops_def with_topic_def)

text \<open>
  Routing by topic. After any such sequence, the lookup of a literal topic returns exactly the
  active entries whose topic pattern matches it, whatever their event type.
\<close>

lemma topic_lookup_spec:
  assumes "ops_ok ops"
  shows "set (get_topic_subscriptions (reg_run ops) lit) =
    {e. \<exists>t p. map_run ops (sub_id e) = Some (t, e) \<and> active e \<and> sub_topic e = Some p \<and>
       pattern_matches (split_on dot p) (split_on dot lit)}"
proof -
  have inv: "registry_inv (reg_run ops)" and live: "live (reg_run ops) = map_run ops"
    using reg_run_refines [OF assms] by simp_all
  show ?thesis
    using dash.get_topic_subscriptions_set [OF inv, of lit] by (simp only: dashmap_vtable_sel live)
qed

lemma topic_lookup_spec_example:
  "with_topic (entry_new 3) ''a.>'' \<in> set (get_topic_subscriptions (reg_run sample_ops) ''a.b.c'')"
  unfolding topic_lookup_spec [OF sample_ops_ok]
  by (simp add: map_run_def sample_ops_def with_topic_def entry_new_def gt_def star_def)

text \<open>
  An id is drawn afresh for each registration, and unregistering it afterwards restores every
  lookup, by type and by topic, to what it was before.
\<close>

lemma unregister_reverts_register:
  assumes "ops_ok (ops @ [OpRegister t n e])"
  shows "fst (unregister (reg_run (ops @ [OpRegister t n e])) (sub_id e)) = Inr () \<and>
    set (get_subscriptions (reg_run (ops @ [OpRegister t n e, OpUnregister (sub_id e)])) t') =
      set (get_subscriptions (reg_run ops) t') - {s. sub_id s = sub_id e} \<and>
    set (get_topic_subscriptions (reg_run (ops @ [OpRegister t n e, OpUnregister (sub_id e)])) lit) =
      set (get_topic_subscriptions (reg_run ops) lit) - {s. sub_id s = sub_id e}"
proof -
  have regs: "registered (xs @ ys) = registered xs @ registered ys" for xs ys :: "'a reg_op list"
    by (induction xs rule: registered.induct) simp_all
  have ok: "ops_ok ops" "ops_ok (ops @ [OpRegister t n e, OpUnregister (sub_id e)])"
    using assms by (auto simp: ops_ok_def regs)
  have "map_run (ops @ [OpRegister t n e]) (sub_id e) \<noteq> None"
    by (simp add: map_run_def)
  then have res: "fst (unregister (reg_run (ops @ [OpRegister t n e])) (sub_id e)) = Inr ()"
    using reg_run_refines [OF assms] by (simp add: unregister_result)
  have map: "map_run (ops @ [OpRegister t n e, OpUnregister (sub_id e)]) =
      (map_run ops)(sub_id e := None)"
    by (simp add: map_run_def)
  note r1 = reg_run_refines [OF ok(1)] and r2 = reg_run_refines [OF ok(2)]
  have "set (get_subscriptions (reg_run (ops @ [OpRegister t n e, OpUnregister (sub_id e)])) t') =
      set (get_subscriptions (reg_run ops) t') - {s. sub_id s = sub_id e}"
    using r1 r2 map by (auto simp: get_subscriptions_live)
  moreover have
    "set (get_topic_subscriptions (reg_run (ops @ [OpRegister t n e, OpUnregister (sub_id e)])) lit) =
      set (get_topic_subscriptions (reg_run ops) lit) - {s. sub_id s = sub_id e}"
    using r1 r2 map by (auto simp: get_topic_subscriptions_live)
  ultimately show ?thesis
    using res by blast
qed

lemma unregister_reverts_register_example:
  "set (get_topic_subscriptions
      (reg_run (sample_ops @ [OpRegister 9 ''G'' (with_topic (entry_new 4) ''>''), OpUnregister 4])) ''x'') =
   set (get_topic_subscriptions (reg_run sample_ops) ''x'') - {s. sub_id s = 4}"
proof -
  have "ops_ok (sample_ops @ [OpRegister 9 ''G'' (with_topic (entry_new 4) ''>'')])"
    by code_simp
  from unregister_reverts_register [OF this, of _ "''x''"] show ?thesis
    by simp
qed

text \<open>
  C0: a registration that runs between the two halves of an \<open>unregister\<close> of the last subscription
  of the same type (the code drops its lock before it removes the emptied list) returns success
  and is lost: neither lookup finds it, although its id stays recorded. In both sequential orders
  it is kept.
\<close>

theorem unregister_race_loses_registration:
  assumes "registry_inv r" "entries r t = [s]" "fresh_id r (sub_id e)" "active e"
    "case sub_topic e of None \<Rightarrow> True | Some p \<Rightarrow> valid_topic p"
  shows "(let (found, r1) = unregister_indexes r (sub_id s);
              (emptied, r2) = unregister_retain r1 t (sub_id s);
              (registered, r3) = register r2 t n e;
              r4 = unregister_drop_type r3 t
          in found = Inr t \<and> emptied \<and> registered = Inr () \<and>
             get_subscriptions r4 t = [] \<and> get_subscription r4 (sub_id e) = None \<and>
             map_of (subscription_to_type r4) (sub_id e) = Some t) \<and>
    set (get_subscriptions (snd (unregister (snd (register r t n e)) (sub_id s))) t) = {e} \<and>
    set (get_subscriptions (snd (register (snd (unregister r (sub_id s))) t n e)) t) = {e}"
proof -
  have inv: "entries_inv r" using assms(1) by (simp add: registry_inv_def)
  have inv': "entries_inv (snd (register r t n e))"
    by (rule entries_inv_register [OF inv assms(3)])
  have ty: "map_of (subscription_to_type r) (sub_id s) = Some t"
    using mem_entries_type [OF inv, of s t] assms(2) by simp
  have es: "map_of (reg_subscriptions r) t = Some [s]"
    using assms(2) by (simp add: entries_def split: option.splits)
  have ne: "sub_id e \<noteq> sub_id s"
    using fresh_id_not_entry [OF inv assms(3), of t] assms(2) by simp
  have "set (get_subscriptions (snd (unregister (snd (register r t n e)) (sub_id s))) t) = {e}"
    using ne assms(2,4) by (simp add: get_subscriptions_entries entries_unregister [OF inv'])
  moreover have "set (get_subscriptions (snd (register (snd (unregister r (sub_id s))) t n e)) t) = {e}"
    using assms(2,4) by (simp add: get_subscriptions_entries entries_unregister [OF inv])
  moreover obtain r1 where r1: "unregister_indexes r (sub_id s) = (Inr t, r1)"
      "reg_subscriptions r1 = reg_subscriptions r"
    using ty by (simp add: unregister_indexes_def Let_def split: option.splits)
  define r2 where "r2 = snd (unregister_retain r1 t (sub_id s))"
  have r2: "unregister_retain r1 t (sub_id s) = (True, r2)"
    using r1(2) es by (simp add: r2_def unregister_retain_def)
  define r4 where "r4 = unregister_drop_type (snd (register r2 t n e)) t"
  have ent: "map_of (reg_subscriptions r4) t = None"
    by (simp add: r4_def unregister_drop_type_def)
  have ids: "map_of (subscription_to_type r4) (sub_id e) = Some t"
    by (simp add: r4_def unregister_drop_type_def)
  have "get_subscriptions r4 t = []" "get_subscription r4 (sub_id e) = None"
    by (simp_all add: get_subscriptions_def get_subscription_def ent ids)
  ultimately show ?thesis
    using ids by (simp add: r1(1) r2 split_beta Let_def r4_def)
qed

theorem unregister_race_loses_registration_witness:
  "(let r = reg_run [OpRegister 7 ''E'' (entry_new 1 :: unit sub_entry)];
        (found, r1) = unregister_indexes r 1;
        (emptied, r2) = unregister_retain r1 7 1;
        (res, r3) = register r2 7 ''E'' (entry_new 2);
        r4 = unregister_drop_type r3 7
    in res = Inr () \<and> get_subscriptions r4 7 = [])"
proof -
  let ?r = "reg_run [OpRegister 7 ''E'' (entry_new 1 :: unit sub_entry)]"
  have "ops_ok [OpRegister 7 ''E'' (entry_new 1 :: unit sub_entry)]"
    by code_simp
  then have "registry_inv ?r"
    using reg_run_refines by blast
  moreover have "entries ?r 7 = [entry_new 1]" "fresh_id ?r (sub_id (entry_new 2 :: unit sub_entry))"
    by (simp_all add: reg_run_def entries_def fresh_id_def dashmap_new_def register_def Let_def)
  ultimately show ?thesis
    using unregister_race_loses_registration [of ?r 7 "entry_new 1" "entry_new 2" "''E''"]
    by (simp add: Let_def split_beta)
qed

text \<open>
  The statistics never report an inactive subscription, because they count what the lookup by
  type returns, which leaves the inactive entries out. The total is the number of active ones.
\<close>

lemma statistics_never_inactive:
  assumes "ops_ok ops"
  shows "rs_inactive_subscriptions (registry_statistics dashmap_vtable (reg_run ops)) = 0"
  using reg_run_refines [OF assms] by (intro dash.stats_never_inactive) simp

lemma statistics_never_inactive_example:
  "rs_inactive_subscriptions (registry_statistics dashmap_vtable (reg_run sample_ops)) = 0 \<and>
   fst (deactivate (reg_run sample_ops) 2) = Inr () \<and> map_run sample_ops 2 \<noteq> None"
proof -
  have "map_run sample_ops 2 \<noteq> None"
    by (simp add: map_run_def sample_ops_def with_topic_def)
  moreover have "fst (deactivate (reg_run sample_ops) 2) = Inr ()"
    using reg_run_refines [OF sample_ops_ok] calculation by (simp add: deactivate_live)
  ultimately show ?thesis
    using statistics_never_inactive [OF sample_ops_ok] by blast
qed

end
