(* ===== verification/Handlers.thy ===== *)
theory Handlers
  imports Registry
begin

text \<open>
  Event handlers (src/src/subscription/handler.rs): the trait \<open>EventHandler\<close> as a record of its
  methods, and the adapters that build one from a typed function, a predicate or another handler.
  A handler runs against a state \<open>'w\<close> of the program around the bus and returns the new one.
\<close>

section \<open>The trait\<close>

record ('v, 'w) handler =
  handle :: "'v envelope \<Rightarrow> 'w \<Rightarrow> unit result \<times> 'w"
  handler_name :: string
  on_shutdown :: "'w \<Rightarrow> unit result \<times> 'w"
  handler_filter :: "'v event_filter option"

definition provided_name :: string where
  "provided_name = ''unnamed''"

definition provided_on_shutdown :: "'w \<Rightarrow> unit result \<times> 'w" where
  "provided_on_shutdown w = (Inr (), w)"

definition provided_filter :: "'v event_filter option" where
  "provided_filter = None"

section \<open>Adapters\<close>

text \<open>A \<open>TypedHandler\<close>: what it does with an event, and its name.\<close>

record ('v, 'w) typed_handler =
  handle_typed :: "'v \<Rightarrow> 'w \<Rightarrow> unit result \<times> 'w"
  typed_name :: string

definition typed_handler_adapter :: "'v event_ty \<Rightarrow> ('v, 'w) typed_handler \<Rightarrow> ('v, 'w) handler" where
  "typed_handler_adapter T h =
     \<lparr>handle = (\<lambda>env w.
        (case get_event T env of
           Inr v \<Rightarrow> handle_typed h v w
         | Inl _ \<Rightarrow> (Inl (EventNotRegistered (type_name env)), w))),
      handler_name = typed_name h, on_shutdown = provided_on_shutdown,
      handler_filter = provided_filter\<rparr>"

definition function_handler_with_name ::
    "'v event_ty \<Rightarrow> ('v \<Rightarrow> 'w \<Rightarrow> 'w) \<Rightarrow> string \<Rightarrow> ('v, 'w) handler" where
  "function_handler_with_name T f n =
     \<lparr>handle = (\<lambda>env w.
        (case get_event T env of
           Inr v \<Rightarrow> (Inr (), f v w)
         | Inl _ \<Rightarrow> (Inl (EventNotRegistered (type_name env)), w))),
      handler_name = n, on_shutdown = provided_on_shutdown, handler_filter = provided_filter\<rparr>"

definition function_handler :: "'v event_ty \<Rightarrow> ('v \<Rightarrow> 'w \<Rightarrow> 'w) \<Rightarrow> ('v, 'w) handler" where
  "function_handler T f =
     function_handler_with_name T f (''FunctionHandler<'' @ ty_name T @ ''>'')"

definition fallible_function_handler ::
    "'v event_ty \<Rightarrow> ('v \<Rightarrow> 'w \<Rightarrow> unit result \<times> 'w) \<Rightarrow> string \<Rightarrow> ('v, 'w) handler" where
  "fallible_function_handler T f n =
     \<lparr>handle = (\<lambda>env w.
        (case get_event T env of
           Inr v \<Rightarrow> f v w
         | Inl _ \<Rightarrow> (Inl (EventNotRegistered (type_name env)), w))),
      handler_name = n, on_shutdown = provided_on_shutdown, handler_filter = provided_filter\<rparr>"

definition filtered_handler :: "('v, 'w) handler \<Rightarrow> 'v event_filter \<Rightarrow> ('v, 'w) handler" where
  "filtered_handler h p =
     \<lparr>handle = (\<lambda>env w. if p env then handle h env w else (Inr (), w)),
      handler_name = handler_name h, on_shutdown = provided_on_shutdown,
      handler_filter = Some p\<rparr>"

definition error_wrapping_handler ::
    "('v, 'w) handler \<Rightarrow> (error \<Rightarrow> 'w \<Rightarrow> 'w) \<Rightarrow> ('v, 'w) handler" where
  "error_wrapping_handler h on_error =
     \<lparr>handle = (\<lambda>env w.
        (case handle h env w of
           (Inr _, w') \<Rightarrow> (Inr (), w')
         | (Inl e, w') \<Rightarrow> (Inr (), on_error e w'))),
      handler_name = handler_name h, on_shutdown = provided_on_shutdown,
      handler_filter = provided_filter\<rparr>"

record handler_stats =
  hs_events_processed :: u64
  hs_events_failed :: u64
  hs_total_processing_time_ms :: u64
  hs_last_error :: "string option"

text \<open>The average that \<open>Display\<close> prints: \<open>checked_div\<close>, 0 when nothing was processed.\<close>

definition stats_avg_time :: "handler_stats \<Rightarrow> u64" where
  "stats_avg_time s =
     (if hs_events_processed s = 0 then 0
      else hs_total_processing_time_ms s div hs_events_processed s)"

section \<open>Facts\<close>

lemmas handler_defs = typed_handler_adapter_def function_handler_with_name_def
  function_handler_def fallible_function_handler_def filtered_handler_def
  error_wrapping_handler_def provided_filter_def provided_on_shutdown_def

text \<open>The function runs exactly for the envelopes whose event can be read at the handler's type.\<close>

lemma function_handler_result:
  "fst (handle (function_handler T f) env w) = Inr () \<longleftrightarrow> (\<exists>v. get_event T env = Inr v)"
  by (auto simp: handler_defs split: sum.splits)

lemma function_handler_error:
  "get_event T env = Inl e \<Longrightarrow>
     handle (function_handler T f) env w = (Inl (EventNotRegistered (type_name env)), w)"
  by (simp add: handler_defs)

text \<open>An event of another type is refused by every typed adapter, with the program's state untouched.\<close>

lemma typed_handlers_refuse_other_types:
  assumes "env_type_id env \<noteq> ty_of T"
  shows "handle (function_handler T f) env w = (Inl (EventNotRegistered (type_name env)), w)"
    "handle (fallible_function_handler T g n) env w = (Inl (EventNotRegistered (type_name env)), w)"
    "handle (typed_handler_adapter T h) env w = (Inl (EventNotRegistered (type_name env)), w)"
  using get_event_wrong_type [OF assms] by (simp_all add: handler_defs)

lemma filtered_handler_rejects:
  "\<not> p env \<Longrightarrow> handle (filtered_handler h p) env w = (Inr (), w)"
  by (simp add: handler_defs)

text \<open>
  The bus asks a handler for its filter when it subscribes. A filter around a filtered handler
  hides the inner one from the bus, but the inner one still guards the execution.
\<close>

lemma filtered_twice:
  "handler_filter (filtered_handler (filtered_handler h p) q) = Some q"
  "handle (filtered_handler (filtered_handler h p) q) = handle (filtered_handler h (\<lambda>e. q e \<and> p e))"
  by (auto simp: handler_defs fun_eq_iff)

lemma error_wrapping_never_fails: "fst (handle (error_wrapping_handler h g) env w) = Inr ()"
  by (simp add: handler_defs split: prod.split sum.split)

text \<open>An error wrapper hides the filter of the handler it wraps, which then runs for every event.\<close>

lemma error_wrapping_hides_filter:
  "handler_filter (error_wrapping_handler (filtered_handler h p) g) = None"
  by (simp add: handler_defs)

end
