(* ===== verification/Retry_Policy.thy ===== *)
theory Retry_Policy
  imports Envelope
begin

text \<open>
  Retry policies (src/src/dispatcher/retry.rs): exponential backoff, fixed delay, no retry, the
  circuit breaker that wraps another policy, and the in-memory dead letter queue. A policy is a
  record of its methods over its own state; a call returns a decision and the new state, or panics
  (a \<open>u32\<close> or \<open>Duration\<close> overflow). The locale \<open>retry_policy\<close> states what a caller may rely on.
\<close>

section \<open>The trait\<close>

text \<open>
  What a call reads besides the policy: whether the build checks overflow, the clock, and the
  random jitter applied to a delay (the code scales it by a random factor in [0.5, 1)).
\<close>

record retry_context =
  overflow_checks :: bool
  clock :: datetime
  jitter_of :: "duration \<Rightarrow> duration"

record ('p, 'v) retry_vtable =
  should_retry ::
    "retry_context \<Rightarrow> 'p \<Rightarrow> u32 \<Rightarrow> error \<Rightarrow> 'v envelope \<Rightarrow> (duration option \<times> 'p) outcome"
  on_permanent_failure :: "retry_context \<Rightarrow> 'p \<Rightarrow> u32 \<Rightarrow> error \<Rightarrow> 'v envelope \<Rightarrow> 'p outcome"
  max_attempts :: "'p \<Rightarrow> u32"
  policy_name :: string

definition provided_on_permanent_failure ::
    "retry_context \<Rightarrow> 'p \<Rightarrow> u32 \<Rightarrow> error \<Rightarrow> 'v envelope \<Rightarrow> 'p outcome" where
  "provided_on_permanent_failure ctx p attempt e env = Done p"

section \<open>Exponential backoff\<close>

record exponential_backoff =
  base_delay :: duration
  max_delay :: duration
  eb_max_attempts :: u32
  jitter :: bool

definition backoff_default :: exponential_backoff where
  "backoff_default =
     \<lparr>base_delay = from_millis 100, max_delay = from_secs 30, eb_max_attempts = 5, jitter = True\<rparr>"

definition backoff_new :: "duration \<Rightarrow> duration \<Rightarrow> u32 \<Rightarrow> exponential_backoff" where
  "backoff_new b m n = \<lparr>base_delay = b, max_delay = m, eb_max_attempts = n, jitter = True\<rparr>"

definition without_jitter :: "exponential_backoff \<Rightarrow> exponential_backoff" where
  "without_jitter p = p\<lparr>jitter := False\<rparr>"

text \<open>\<open>base * 2u32.pow(attempt - 1)\<close>, each operation with its own overflow behaviour.\<close>

definition doubled_delay :: "bool \<Rightarrow> duration \<Rightarrow> u32 \<Rightarrow> duration outcome" where
  "doubled_delay oc b attempt =
     bind_outcome (u32_dec oc attempt) (\<lambda>n. bind_outcome (pow2_u32 oc n) (duration_mul b))"

definition backoff_should_retry ::
    "retry_context \<Rightarrow> exponential_backoff \<Rightarrow> u32 \<Rightarrow> error \<Rightarrow> 'v envelope \<Rightarrow>
       (duration option \<times> exponential_backoff) outcome" where
  "backoff_should_retry ctx p attempt e env =
     (if eb_max_attempts p \<le> attempt then Done (None, p)
      else bind_outcome (doubled_delay (overflow_checks ctx) (base_delay p) attempt)
        (\<lambda>d. let d' = min d (max_delay p)
             in Done (Some (if jitter p then jitter_of ctx d' else d'), p)))"

definition backoff_vtable :: "(exponential_backoff, 'v) retry_vtable" where
  "backoff_vtable =
     \<lparr>should_retry = backoff_should_retry, on_permanent_failure = provided_on_permanent_failure,
      max_attempts = eb_max_attempts, policy_name = ''ExponentialBackoff''\<rparr>"

section \<open>Fixed delay and no retry\<close>

record fixed_delay =
  fd_delay :: duration
  fd_max_attempts :: u32

definition fixed_default :: fixed_delay where
  "fixed_default = \<lparr>fd_delay = from_millis 100, fd_max_attempts = 3\<rparr>"

definition fixed_should_retry ::
    "retry_context \<Rightarrow> fixed_delay \<Rightarrow> u32 \<Rightarrow> error \<Rightarrow> 'v envelope \<Rightarrow>
       (duration option \<times> fixed_delay) outcome" where
  "fixed_should_retry ctx p attempt e env =
     (if fd_max_attempts p \<le> attempt then Done (None, p) else Done (Some (fd_delay p), p))"

definition fixed_vtable :: "(fixed_delay, 'v) retry_vtable" where
  "fixed_vtable =
     \<lparr>should_retry = fixed_should_retry, on_permanent_failure = provided_on_permanent_failure,
      max_attempts = fd_max_attempts, policy_name = ''FixedDelay''\<rparr>"

definition no_retry_should_retry ::
    "retry_context \<Rightarrow> unit \<Rightarrow> u32 \<Rightarrow> error \<Rightarrow> 'v envelope \<Rightarrow> (duration option \<times> unit) outcome" where
  "no_retry_should_retry ctx p attempt e env = Done (None, p)"

definition no_retry_vtable :: "(unit, 'v) retry_vtable" where
  "no_retry_vtable =
     \<lparr>should_retry = no_retry_should_retry, on_permanent_failure = provided_on_permanent_failure,
      max_attempts = (\<lambda>_. 0), policy_name = ''NoRetry''\<rparr>"

section \<open>Circuit breaker\<close>

datatype circuit_state = Closed | Open | HalfOpen

record 'p circuit_breaker =
  cb_inner :: 'p
  failure_threshold :: u32
  success_threshold :: u32
  cb_timeout :: duration
  cb_state :: circuit_state
  failure_count :: u32
  success_count :: u32
  last_failure :: "datetime option"

definition circuit_new :: "'p \<Rightarrow> u32 \<Rightarrow> u32 \<Rightarrow> duration \<Rightarrow> 'p circuit_breaker" where
  "circuit_new p ft st t =
     \<lparr>cb_inner = p, failure_threshold = ft, success_threshold = st, cb_timeout = t,
      cb_state = Closed, failure_count = 0, success_count = 0, last_failure = None\<rparr>"

text \<open>\<open>Instant::elapsed\<close> saturates at zero.\<close>

definition elapsed :: "datetime \<Rightarrow> datetime \<Rightarrow> duration" where
  "elapsed now t = nat (now - t)"

definition check_state :: "retry_context \<Rightarrow> 'p circuit_breaker \<Rightarrow> circuit_state \<times> 'p circuit_breaker" where
  "check_state ctx cb =
     (case cb_state cb of
        Open \<Rightarrow>
          (case last_failure cb of
             Some t \<Rightarrow>
               (if cb_timeout cb \<le> elapsed (clock ctx) t
                then (HalfOpen, cb\<lparr>cb_state := HalfOpen, success_count := 0\<rparr>)
                else (Open, cb))
           | None \<Rightarrow> (Open, cb))
      | HalfOpen \<Rightarrow> (HalfOpen, cb)
      | Closed \<Rightarrow> (Closed, cb))"

definition record_success :: "retry_context \<Rightarrow> 'p circuit_breaker \<Rightarrow> 'p circuit_breaker outcome" where
  "record_success ctx cb =
     (let (st, cb1) = check_state ctx cb
      in if st = HalfOpen
         then bind_outcome (u32_inc (overflow_checks ctx) (success_count cb1))
           (\<lambda>n. let cb2 = cb1\<lparr>success_count := n\<rparr>
                in Done (if success_threshold cb2 \<le> n
                         then cb2\<lparr>cb_state := Closed, failure_count := 0\<rparr> else cb2))
         else if st = Closed then Done (cb1\<lparr>failure_count := 0\<rparr>)
         else Done cb1)"

definition record_failure :: "retry_context \<Rightarrow> 'p circuit_breaker \<Rightarrow> 'p circuit_breaker outcome" where
  "record_failure ctx cb =
     bind_outcome (u32_inc (overflow_checks ctx) (failure_count cb))
       (\<lambda>n. let cb1 = cb\<lparr>failure_count := n, last_failure := Some (clock ctx)\<rparr>
            in Done (if failure_threshold cb1 \<le> n then cb1\<lparr>cb_state := Open\<rparr> else cb1))"

definition circuit_should_retry ::
    "('p, 'v) retry_vtable \<Rightarrow> retry_context \<Rightarrow> 'p circuit_breaker \<Rightarrow> u32 \<Rightarrow> error \<Rightarrow> 'v envelope \<Rightarrow>
       (duration option \<times> 'p circuit_breaker) outcome" where
  "circuit_should_retry P ctx cb attempt e env =
     (let (st, cb1) = check_state ctx cb
      in if st = Open then Done (None, cb1)
         else bind_outcome (should_retry P ctx (cb_inner cb1) attempt e env)
           (\<lambda>(res, p). let cb2 = cb1\<lparr>cb_inner := p\<rparr>
              in bind_outcome (if res \<noteq> None then record_failure ctx cb2 else record_success ctx cb2)
                (\<lambda>cb3. Done (res, cb3))))"

definition circuit_on_permanent_failure ::
    "('p, 'v) retry_vtable \<Rightarrow> retry_context \<Rightarrow> 'p circuit_breaker \<Rightarrow> u32 \<Rightarrow> error \<Rightarrow> 'v envelope \<Rightarrow>
       'p circuit_breaker outcome" where
  "circuit_on_permanent_failure P ctx cb attempt e env =
     bind_outcome (on_permanent_failure P ctx (cb_inner cb) attempt e env)
       (\<lambda>p. record_failure ctx (cb\<lparr>cb_inner := p\<rparr>))"

definition circuit_vtable :: "('p, 'v) retry_vtable \<Rightarrow> ('p circuit_breaker, 'v) retry_vtable" where
  "circuit_vtable P =
     \<lparr>should_retry = circuit_should_retry P, on_permanent_failure = circuit_on_permanent_failure P,
      max_attempts = (\<lambda>cb. max_attempts P (cb_inner cb)), policy_name = ''CircuitBreaker''\<rparr>"

section \<open>Dead letter queue\<close>

text \<open>
  The in-memory queue over an unbounded channel: what was sent and not yet received, whether the
  receiver is still there to be taken, and whether it is alive.
\<close>

record 'v in_memory_dlq =
  dlq_queue :: "('v envelope \<times> error) list"
  dlq_receiver :: bool
  dlq_receiver_alive :: bool

definition dlq_new :: "'v in_memory_dlq" where
  "dlq_new = \<lparr>dlq_queue = [], dlq_receiver = True, dlq_receiver_alive = True\<rparr>"

definition take_receiver :: "'v in_memory_dlq \<Rightarrow> bool \<times> 'v in_memory_dlq" where
  "take_receiver q = (dlq_receiver q, q\<lparr>dlq_receiver := False\<rparr>)"

definition dlq_handle :: "'v in_memory_dlq \<Rightarrow> 'v envelope \<Rightarrow> error \<Rightarrow> unit result \<times> 'v in_memory_dlq" where
  "dlq_handle q env e =
     (if dlq_receiver_alive q then (Inr (), q\<lparr>dlq_queue := dlq_queue q @ [(env, e)]\<rparr>)
      else (Inl (internal ''DLQ channel closed''), q))"

section \<open>Configuration\<close>

record ('p, 'v) retry_config =
  rc_policy :: 'p
  rc_dlq :: "'v in_memory_dlq option"
  rc_enable_metrics :: bool

definition retry_config_default :: "(exponential_backoff, 'v) retry_config" where
  "retry_config_default =
     \<lparr>rc_policy = backoff_default, rc_dlq = Some dlq_new, rc_enable_metrics = True\<rparr>"

section \<open>What a caller may rely on\<close>

text \<open>
  The protocol of the trait's documentation: ask with attempts 1, 2, \<dots> after each failure, stop at
  the first refusal and report the permanent failure. The result is the number of retries granted
  and whether the policy gave up within the fuel.
\<close>

fun drive ::
    "nat \<Rightarrow> ('p, 'v) retry_vtable \<Rightarrow> retry_context \<Rightarrow> error \<Rightarrow> 'v envelope \<Rightarrow> 'p \<Rightarrow> u32 \<Rightarrow>
       (nat \<times> bool \<times> 'p) outcome" where
  "drive 0 V ctx e env p a = Done (0, False, p)"
| "drive (Suc n) V ctx e env p a =
     bind_outcome (should_retry V ctx p a e env)
       (\<lambda>(r, p'). case r of
          None \<Rightarrow> bind_outcome (on_permanent_failure V ctx p' a e env) (\<lambda>p''. Done (0, True, p''))
        | Some d \<Rightarrow>
            bind_outcome (u32_inc (overflow_checks ctx) a)
              (\<lambda>a'. bind_outcome (drive n V ctx e env p' a')
                 (\<lambda>(k, gave_up, p''). Done (Suc k, gave_up, p''))))"

locale retry_policy =
  fixes V :: "('p, 'v) retry_vtable"
  assumes exhausted: "should_retry V ctx p a e env = Done (r, p') \<Longrightarrow> max_attempts V p \<le> a \<Longrightarrow> r = None"
    and max_kept: "should_retry V ctx p a e env = Done (r, p') \<Longrightarrow> max_attempts V p' = max_attempts V p"
    and max_kept_failure:
      "on_permanent_failure V ctx p a e env = Done p' \<Longrightarrow> max_attempts V p' = max_attempts V p"
begin

lemma drive_bounded:
  assumes "drive n V ctx e env p a = Done (k, gave_up, p')"
    and "unat (max_attempts V p) - unat a < n"
  shows "gave_up \<and> k \<le> unat (max_attempts V p) - unat a \<and> max_attempts V p' = max_attempts V p"
  using assms
proof (induction n arbitrary: p a k)
  case 0
  then show ?case by simp
next
  case (Suc n)
  from Suc.prems(1) obtain r q where q: "should_retry V ctx p a e env = Done (r, q)" by auto
  have m: "max_attempts V q = max_attempts V p" by (rule max_kept [OF q])
  show ?case
  proof (cases r)
    case None
    then show ?thesis
      using Suc.prems(1) q m by (auto dest: max_kept_failure)
  next
    case (Some d)
    have "\<not> max_attempts V p \<le> a"
      using exhausted [OF q] Some by blast
    then have a: "unat a < unat (max_attempts V p)"
      by (simp add: not_le word_less_nat_alt)
    then have lt: "unat a < 2 ^ 32 - 1"
      using unat_u32_less [of "max_attempts V p"] by linarith
    have "\<exists>k'. drive n V ctx e env q (a + 1) = Done (k', gave_up, p') \<and> k = Suc k'"
      using Suc.prems(1) q Some by (auto simp: u32_inc_below_max [OF lt])
    then obtain k' where k': "drive n V ctx e env q (a + 1) = Done (k', gave_up, p')" "k = Suc k'"
      by blast
    have "unat (max_attempts V q) - unat (a + 1) < n"
      using Suc.prems(2) a m unat_Suc_u32 [OF lt] by simp
    from Suc.IH [OF k'(1) this] show ?thesis
      using a m k'(2) unat_Suc_u32 [OF lt] by clarsimp linarith
  qed
qed

end

interpretation backoff: retry_policy backoff_vtable
  by unfold_locales
    (auto simp: backoff_vtable_def backoff_should_retry_def provided_on_permanent_failure_def Let_def
      split: if_splits)

interpretation fixed: retry_policy fixed_vtable
  by unfold_locales
    (auto simp: fixed_vtable_def fixed_should_retry_def provided_on_permanent_failure_def
      split: if_splits)

interpretation no_retry: retry_policy no_retry_vtable
  by unfold_locales
    (auto simp: no_retry_vtable_def no_retry_should_retry_def provided_on_permanent_failure_def)

section \<open>Facts about the circuit breaker\<close>

lemma check_state_inner [simp]:
  "cb_inner (snd (check_state ctx cb)) = cb_inner cb"
  "failure_threshold (snd (check_state ctx cb)) = failure_threshold cb"
  "failure_count (snd (check_state ctx cb)) = failure_count cb"
  "cb_state (snd (check_state ctx cb)) = fst (check_state ctx cb)"
  by (simp_all add: check_state_def split: circuit_state.split option.split)

lemma record_failure_inner:
  "record_failure ctx cb = Done cb' \<Longrightarrow> cb_inner cb' = cb_inner cb"
  by (auto simp: record_failure_def Let_def)

lemma record_success_inner:
  "record_success ctx cb = Done cb' \<Longrightarrow> cb_inner cb' = cb_inner cb"
  by (auto simp: record_success_def Let_def split_beta split: if_splits)

text \<open>A breaker around a policy is again a policy with the same bound.\<close>

context retry_policy
begin

lemma circuit_retry_policy: "retry_policy (circuit_vtable V)"
  by unfold_locales
    (auto simp: circuit_vtable_def circuit_should_retry_def circuit_on_permanent_failure_def Let_def
      split_beta dest!: record_failure_inner record_success_inner dest: exhausted max_kept max_kept_failure
      split: if_splits)

end

interpretation circuit_fixed: retry_policy "circuit_vtable fixed_vtable"
  by (rule fixed.circuit_retry_policy)

interpretation circuit_backoff: retry_policy "circuit_vtable backoff_vtable"
  by (rule backoff.circuit_retry_policy)

text \<open>The fixed policy, driven from attempt \<open>a\<close>, grants every attempt below its maximum.\<close>

lemma drive_fixed:
  assumes "unat (fd_max_attempts p) - unat a < n"
  shows "drive n fixed_vtable ctx e env p a = Done (unat (fd_max_attempts p) - unat a, True, p)"
  using assms
proof (induction n arbitrary: a)
  case 0
  then show ?case by simp
next
  case (Suc n)
  show ?case
  proof (cases "fd_max_attempts p \<le> a")
    case True
    then show ?thesis
      by (simp add: fixed_vtable_def fixed_should_retry_def provided_on_permanent_failure_def
          word_le_nat_alt)
  next
    case False
    then have a: "unat a < unat (fd_max_attempts p)" by (simp add: not_le word_less_nat_alt)
    then have lt: "unat a < 2 ^ 32 - 1"
      using unat_u32_less [of "fd_max_attempts p"] by linarith
    have "drive n fixed_vtable ctx e env p (a + 1) =
        Done (unat (fd_max_attempts p) - unat (a + 1), True, p)"
      using Suc.prems a by (intro Suc.IH) (simp add: unat_Suc_u32 [OF lt])
    moreover have "should_retry fixed_vtable ctx p a e env = Done (Some (fd_delay p), p)"
      using False by (simp add: fixed_vtable_def fixed_should_retry_def)
    ultimately show ?thesis
      using a by (simp add: u32_inc_below_max [OF lt] unat_Suc_u32 [OF lt])
  qed
qed

text \<open>The state of a closed breaker after one permanently failed event.\<close>

definition after_failed_event :: "retry_context \<Rightarrow> 'p circuit_breaker \<Rightarrow> 'p circuit_breaker" where
  "after_failed_event ctx cb = cb\<lparr>failure_count := 1, last_failure := Some (clock ctx)\<rparr>"

lemma u32_inc_zero [simp]: "u32_inc oc 0 = Done 1"
  by (simp add: u32_inc_def)

lemma circuit_gives_up:
  assumes "cb_inner cb = p" "cb_state cb = Closed" "1 < failure_threshold cb" "fd_max_attempts p \<le> a"
  shows "should_retry (circuit_vtable fixed_vtable) ctx cb a e env = Done (None, cb\<lparr>failure_count := 0\<rparr>)"
    "on_permanent_failure (circuit_vtable fixed_vtable) ctx (cb\<lparr>failure_count := 0\<rparr>) a e env =
      Done (after_failed_event ctx cb)"
proof -
  have same: "cb\<lparr>cb_inner := p\<rparr> = cb" using assms(1) by (cases cb) simp
  show "should_retry (circuit_vtable fixed_vtable) ctx cb a e env = Done (None, cb\<lparr>failure_count := 0\<rparr>)"
    using assms(1,2,4)
    by (simp add: circuit_vtable_def circuit_should_retry_def fixed_vtable_def check_state_def
        fixed_should_retry_def record_success_def same)
  show "on_permanent_failure (circuit_vtable fixed_vtable) ctx (cb\<lparr>failure_count := 0\<rparr>) a e env =
      Done (after_failed_event ctx cb)"
    using assms(1,3)
    by (simp add: circuit_vtable_def circuit_on_permanent_failure_def fixed_vtable_def not_le
        provided_on_permanent_failure_def record_failure_def after_failed_event_def same Let_def)
qed

lemma drive_circuit_fixed:
  assumes "cb_inner cb = p" "cb_state cb = Closed" "1 < failure_threshold cb"
    and "unat (failure_count cb) + (unat (fd_max_attempts p) - unat a) < unat (failure_threshold cb)"
    and "unat (fd_max_attempts p) - unat a < n"
  shows "drive n (circuit_vtable fixed_vtable) ctx e env cb a =
    Done (unat (fd_max_attempts p) - unat a, True, after_failed_event ctx cb)"
  using assms
proof (induction n arbitrary: a cb)
  case 0
  then show ?case by simp
next
  case (Suc n)
  have closed: "check_state ctx cb = (Closed, cb)"
    using Suc.prems(2) by (simp add: check_state_def)
  have same: "cb\<lparr>cb_inner := p\<rparr> = cb"
    using Suc.prems(1) by (cases cb) simp
  show ?case
  proof (cases "fd_max_attempts p \<le> a")
    case True
    then show ?thesis
      using circuit_gives_up [OF Suc.prems(1-3) True, where ctx = ctx and e = e and env = env] True by (simp add: word_le_nat_alt)
  next
    case False
    then have a: "unat a < unat (fd_max_attempts p)" by (simp add: not_le word_less_nat_alt)
    then have lt: "unat a < 2 ^ 32 - 1"
      using unat_u32_less [of "fd_max_attempts p"] by linarith
    have lt': "unat (failure_count cb) < 2 ^ 32 - 1"
      using Suc.prems(4) a unat_u32_less [of "failure_threshold cb"] by linarith
    let ?cb = "cb\<lparr>failure_count := failure_count cb + 1, last_failure := Some (clock ctx)\<rparr>"
    have below: "\<not> failure_threshold cb \<le> failure_count cb + 1"
      using Suc.prems(4) a by (simp add: word_le_nat_alt unat_Suc_u32 [OF lt'])
    have "should_retry (circuit_vtable fixed_vtable) ctx cb a e env = Done (Some (fd_delay p), ?cb)"
      using False closed Suc.prems(1) below
      by (simp add: circuit_vtable_def circuit_should_retry_def fixed_vtable_def
          fixed_should_retry_def record_failure_def u32_inc_below_max [OF lt'] same)
    moreover have "drive n (circuit_vtable fixed_vtable) ctx e env ?cb (a + 1) =
        Done (unat (fd_max_attempts p) - unat (a + 1), True, after_failed_event ctx ?cb)"
      using Suc.prems a
      by (intro Suc.IH) (simp_all add: unat_Suc_u32 [OF lt] unat_Suc_u32 [OF lt'])
    ultimately show ?thesis
      using a by (simp add: u32_inc_below_max [OF lt] unat_Suc_u32 [OF lt] after_failed_event_def)
  qed
qed

text \<open>A service that fails every event, each driven to exhaustion.\<close>

fun fail_events ::
    "nat \<Rightarrow> (retry_context \<times> error \<times> 'v envelope) list \<Rightarrow> fixed_delay circuit_breaker \<Rightarrow>
       fixed_delay circuit_breaker outcome" where
  "fail_events n [] cb = Done cb"
| "fail_events n ((ctx, e, env) # evs) cb =
     bind_outcome (drive n (circuit_vtable fixed_vtable) ctx e env cb 1)
       (\<lambda>(k, gave_up, cb'). fail_events n evs cb')"

lemma fail_events_closed:
  assumes "cb_state cb = Closed" "1 < failure_threshold cb" "unat (failure_count cb) \<le> 1"
    and "unat (fd_max_attempts (cb_inner cb)) < unat (failure_threshold cb)"
    and "unat (fd_max_attempts (cb_inner cb)) \<le> n" "0 < n"
  shows "\<exists>cb'. fail_events n evs cb = Done cb' \<and> cb_state cb' = Closed \<and> unat (failure_count cb') \<le> 1"
  using assms
proof (induction evs arbitrary: cb)
  case Nil
  then show ?case by simp
next
  case (Cons ev evs)
  obtain ctx e env where ev: "ev = (ctx, e, env)" by (cases ev)
  have "1 < unat (failure_threshold cb)"
    using Cons.prems(2) by (simp add: word_less_nat_alt)
  then have "drive n (circuit_vtable fixed_vtable) ctx e env cb 1 =
      Done (unat (fd_max_attempts (cb_inner cb)) - unat (1::u32), True, after_failed_event ctx cb)"
    using Cons.prems by (intro drive_circuit_fixed) auto
  moreover have "\<exists>cb'. fail_events n evs (after_failed_event ctx cb) = Done cb' \<and>
      cb_state cb' = Closed \<and> unat (failure_count cb') \<le> 1"
    using Cons.prems by (intro Cons.IH) (simp_all add: after_failed_event_def)
  ultimately show ?case
    by (simp add: ev)
qed

section \<open>Locks of the circuit breaker\<close>

text \<open>
  The breaker's state sits behind four locks. Each method is the sequence of lock operations that
  the code performs: guards held in variables are released in reverse order at the end of the
  function, a guard used within one statement is released at its end.
\<close>

datatype cb_lock = StateLock | FailureCountLock | SuccessCountLock | LastFailureLock

datatype lock_action = Acquire cb_lock | Release cb_lock

definition check_state_locks :: "bool \<Rightarrow> lock_action list" where
  "check_state_locks timed_out =
     [Acquire StateLock, Acquire LastFailureLock] @
     (if timed_out then [Acquire SuccessCountLock, Release SuccessCountLock] else []) @
     [Release LastFailureLock, Release StateLock]"

definition record_failure_locks :: "bool \<Rightarrow> lock_action list" where
  "record_failure_locks threshold_reached =
     [Acquire FailureCountLock, Acquire LastFailureLock] @
     (if threshold_reached then [Acquire StateLock, Release StateLock] else []) @
     [Release LastFailureLock, Release FailureCountLock]"

text \<open>Tasks run their lock operations one at a time; an acquired lock is held by one task.\<close>

record lock_system =
  lock_holder :: "cb_lock \<Rightarrow> nat option"
  lock_tasks :: "lock_action list list"

definition lock_start :: "lock_action list list \<Rightarrow> lock_system" where
  "lock_start ts = \<lparr>lock_holder = (\<lambda>_. None), lock_tasks = ts\<rparr>"

fun task_step :: "lock_system \<Rightarrow> nat \<Rightarrow> lock_system option" where
  "task_step s i =
     (if i < length (lock_tasks s)
      then (case lock_tasks s ! i of
              [] \<Rightarrow> None
            | Acquire l # rest \<Rightarrow>
                (if lock_holder s l = None
                 then Some (s\<lparr>lock_holder := (lock_holder s)(l := Some i),
                              lock_tasks := (lock_tasks s)[i := rest]\<rparr>)
                 else None)
            | Release l # rest \<Rightarrow>
                Some (s\<lparr>lock_holder := (lock_holder s)(l := None),
                        lock_tasks := (lock_tasks s)[i := rest]\<rparr>))
      else None)"

inductive lock_reach :: "lock_system \<Rightarrow> lock_system \<Rightarrow> bool" for s0 where
  start: "lock_reach s0 s0"
| step: "lock_reach s0 s \<Longrightarrow> task_step s i = Some s' \<Longrightarrow> lock_reach s0 s'"

definition deadlocked :: "lock_system \<Rightarrow> bool" where
  "deadlocked s \<longleftrightarrow> (\<exists>i < length (lock_tasks s). lock_tasks s ! i \<noteq> []) \<and> (\<forall>i. task_step s i = None)"

text \<open>A schedule: the task to move at each step.\<close>

fun run_schedule :: "nat list \<Rightarrow> lock_system \<Rightarrow> lock_system option" where
  "run_schedule [] s = Some s"
| "run_schedule (i # is) s =
     (case task_step s i of None \<Rightarrow> None | Some s' \<Rightarrow> run_schedule is s')"

lemma lock_reach_run:
  "lock_reach s0 s \<Longrightarrow> run_schedule is s = Some s' \<Longrightarrow> lock_reach s0 s'"
  by (induction "is" arbitrary: s) (auto simp del: task_step.simps intro: lock_reach.step split: option.splits)

section \<open>Properties\<close>

definition sample_env :: "unit envelope" where
  "sample_env = from_serialized 1 ''E'' (metadata_new 1 0) Normal []"

lemma doubled_delay_ok:
  assumes "1 \<le> unat a" "unat a \<le> 32" "b * 2 ^ (unat a - 1) \<le> duration_max"
  shows "doubled_delay oc b a = Done (b * 2 ^ (unat a - 1))"
proof -
  have nz: "a \<noteq> 0" using assms(1) by auto
  have u: "unat (a - 1) = unat a - 1"
    using assms(1) by (simp add: unat_minus_one nz)
  have less: "\<not> 32 \<le> unat a - Suc 0"
    using assms(1,2) by arith
  from u have "unat ((2::u32) ^ unat (a - 1)) = 2 ^ (unat a - 1)"
    using assms(1,2) by (simp add: unat_pow2_u32)
  then show ?thesis
    using assms nz u less
    by (simp add: doubled_delay_def u32_dec_def pow2_u32_def duration_mul_def)
qed

lemma power_2_ge_u32: "32 \<le> n \<Longrightarrow> (2::u32) ^ n = 0"
  by (simp add: exp_eq_zero_iff)

text \<open>
  Without jitter, exponential backoff waits \<open>min(base * 2^(attempt - 1), max_delay)\<close> before each
  retry below its maximum, for attempts 1 to 32 and delays that fit a \<open>Duration\<close>.
\<close>

lemma backoff_schedule:
  assumes "1 \<le> unat a" "unat a \<le> 32" "a < eb_max_attempts p" "\<not> jitter p"
    and "base_delay p * 2 ^ (unat a - 1) \<le> duration_max"
  shows "backoff_should_retry ctx p a e env =
    Done (Some (min (base_delay p * 2 ^ (unat a - 1)) (max_delay p)), p)"
  using assms doubled_delay_ok [OF assms(1,2,5), of "overflow_checks ctx"]
  by (simp add: backoff_should_retry_def not_le)

lemma backoff_schedule_example:
  "backoff_should_retry \<lparr>overflow_checks = True, clock = 0, jitter_of = id\<rparr>
     (without_jitter (backoff_new 100 1000 9)) 3 Backpressure sample_env =
   Done (Some 400, without_jitter (backoff_new 100 1000 9))"
  using backoff_schedule [of 3 "without_jitter (backoff_new 100 1000 9)"
      "\<lparr>overflow_checks = True, clock = 0, jitter_of = id\<rparr>" Backpressure sample_env]
  by (simp add: without_jitter_def backoff_new_def duration_max_def)




text \<open>
  A fixed-delay policy with maximum \<open>m\<close> grants \<open>m - 1\<close> retries to an event that keeps failing,
  counted from attempt 1, and then gives up: the maximum counts attempts, not retries.
\<close>

lemma fixed_delay_grants_one_less:
  assumes "unat (fd_max_attempts p) < n" "1 \<le> unat (fd_max_attempts p)"
  shows "drive n fixed_vtable ctx e env p 1 = Done (unat (fd_max_attempts p) - 1, True, p)"
  using drive_fixed [of p 1 n ctx e env] assms by simp

lemma fixed_delay_grants_one_less_example:
  "drive 9 fixed_vtable \<lparr>overflow_checks = True, clock = 0, jitter_of = id\<rparr> Backpressure sample_env
     fixed_default 1 = Done (2, True, fixed_default)"
  using fixed_delay_grants_one_less [of fixed_default 9]
  by (simp add: fixed_default_def)

text \<open>
  Every policy, a circuit breaker around another one included, refuses to retry from its
  maximum on: however often the caller asks, at most \<open>max - 1\<close> retries are granted.
\<close>

lemma breaker_retries_bounded:
  assumes "drive n (circuit_vtable backoff_vtable) ctx e env cb 1 = Done (k, gave_up, cb')"
    and "unat (eb_max_attempts (cb_inner cb)) < n"
  shows "gave_up \<and> k \<le> unat (eb_max_attempts (cb_inner cb)) - 1"
  using circuit_backoff.drive_bounded [OF assms(1)] assms(2)
  by (simp add: circuit_vtable_def backoff_vtable_def)

lemma breaker_retries_bounded_example:
  "\<exists>k cb'. drive 3 (circuit_vtable backoff_vtable)
       \<lparr>overflow_checks = True, clock = 0, jitter_of = id\<rparr> Backpressure sample_env
       (circuit_new (backoff_new 100 1000 2) 9 1 5) 1 = Done (k, True, cb') \<and> k \<le> 1"
proof -
  let ?ctx = "\<lparr>overflow_checks = True, clock = 0, jitter_of = \<lambda>d. d\<rparr>"
  let ?V = "circuit_vtable backoff_vtable :: (exponential_backoff circuit_breaker, unit) retry_vtable"
  let ?cb = "circuit_new (backoff_new 100 1000 2) 9 1 5"
  note defs = circuit_vtable_def circuit_should_retry_def circuit_on_permanent_failure_def
    circuit_new_def check_state_def record_failure_def record_success_def u32_inc_def
    backoff_vtable_def backoff_should_retry_def backoff_new_def doubled_delay_def u32_dec_def
    pow2_u32_def duration_mul_def duration_max_def provided_on_permanent_failure_def Let_def
  have a1: "\<exists>cb. should_retry ?V ?ctx ?cb 1 Backpressure sample_env = Done (Some 100, cb) \<and>
      cb = ?cb\<lparr>failure_count := 1, last_failure := Some 0\<rparr>"
    by (simp add: defs word_le_nat_alt)
  have a2: "should_retry ?V ?ctx (?cb\<lparr>failure_count := 1, last_failure := Some 0\<rparr>) 2
      Backpressure sample_env = Done (None, ?cb\<lparr>last_failure := Some 0\<rparr>)"
    by (simp add: defs word_le_nat_alt)
  have a3: "on_permanent_failure ?V ?ctx (?cb\<lparr>last_failure := Some 0\<rparr>) 2 Backpressure sample_env =
      Done (?cb\<lparr>failure_count := 1, last_failure := Some 0\<rparr>)"
    by (simp add: defs word_le_nat_alt)
  have d: "drive 3 ?V ?ctx Backpressure sample_env ?cb 1 =
      Done (1, True, ?cb\<lparr>failure_count := 1, last_failure := Some 0\<rparr>)"
    using a1 a2 a3 by (simp add: numeral_3_eq_3 u32_inc_def)
  show ?thesis
    using breaker_retries_bounded [OF d] d
    by (simp add: circuit_new_def backoff_new_def id_def)
qed



text \<open>
  C40: checking the state while another task records the failure that reaches the threshold can
  deadlock: the two methods take the state lock and the last-failure lock in opposite orders.
\<close>

theorem breaker_locks_can_deadlock:
  "\<exists>s. lock_reach (lock_start [check_state_locks timed_out, record_failure_locks True]) s \<and> deadlocked s"
proof -
  let ?s0 = "lock_start [check_state_locks timed_out, record_failure_locks True]"
  let ?h = "(\<lambda>_. None)(StateLock := Some 0, FailureCountLock := Some 1, LastFailureLock := Some 1)"
  obtain s where s: "s = \<lparr>lock_holder = ?h,
      lock_tasks = [tl (check_state_locks timed_out), tl (tl (record_failure_locks True))]\<rparr>"
    by blast
  have "run_schedule [0, 1, 1] ?s0 = Some s"
    by (simp add: s lock_start_def check_state_locks_def record_failure_locks_def)
  then have "lock_reach ?s0 s"
    by (rule lock_reach_run [OF lock_reach.start])
  moreover have "task_step s i = None" for i
    by (cases i; cases "i - 1") (auto simp: s check_state_locks_def record_failure_locks_def)
  then have "deadlocked s"
    by (auto simp: deadlocked_def s check_state_locks_def intro!: exI [of _ 0])
  ultimately show ?thesis by blast
qed

end
