(* ===== verification/Subscription_Handle.thy ===== *)
theory Subscription_Handle
  imports Prelude
begin

text \<open>
  Subscription handles (src/src/subscription/handle.rs). The clones of a handle share one cell with
  the sender of a one-shot channel; the handler task ends when that channel is signalled, either by
  an explicit \<open>unsubscribe\<close> or because the last clone was dropped with the sender still in place.
  A detached handle is forgotten, so its reference is never given back.
\<close>

section \<open>State and operations\<close>

record subscription_handle =
  h_id :: uuid
  h_name :: "string option"

text \<open>The shared cell: how many handles refer to it, whether it still holds the sender, and
  whether the receiver's end has been woken up.\<close>

record handle_cell =
  cell_refs :: nat
  cell_sender :: bool
  cell_signalled :: bool

definition handle_new :: "uuid \<Rightarrow> subscription_handle \<times> handle_cell" where
  "handle_new i =
     (\<lparr>h_id = i, h_name = None\<rparr>,
      \<lparr>cell_refs = 1, cell_sender = True, cell_signalled = False\<rparr>)"

definition handle_with_name :: "uuid \<Rightarrow> string \<Rightarrow> subscription_handle \<times> handle_cell" where
  "handle_with_name i n = (let (h, c) = handle_new i in (h\<lparr>h_name := Some n\<rparr>, c))"

text \<open>The derived \<open>Clone\<close> and the drop of a handle: reference counting of the cell.\<close>

definition handle_clone :: "handle_cell \<Rightarrow> handle_cell" where
  "handle_clone c = c\<lparr>cell_refs := cell_refs c + 1\<rparr>"

definition handle_drop :: "handle_cell \<Rightarrow> handle_cell" where
  "handle_drop c =
     (let c1 = c\<lparr>cell_refs := cell_refs c - 1\<rparr>
      in if cell_refs c1 = 0 \<and> cell_sender c1
         then c1\<lparr>cell_sender := False, cell_signalled := True\<rparr> else c1)"

text \<open>\<open>unsubscribe\<close> takes the sender, signals, and consumes the handle.\<close>

definition handle_unsubscribe :: "handle_cell \<Rightarrow> handle_cell" where
  "handle_unsubscribe c =
     handle_drop (if cell_sender c then c\<lparr>cell_sender := False, cell_signalled := True\<rparr> else c)"

definition handle_is_active :: "handle_cell \<Rightarrow> bool" where
  "handle_is_active c = cell_sender c"

text \<open>\<open>std::mem::forget\<close>: the reference count keeps the forgotten handle.\<close>

definition handle_detach :: "handle_cell \<Rightarrow> handle_cell" where
  "handle_detach c = c"

definition handle_display :: "(uuid \<Rightarrow> string) \<Rightarrow> subscription_handle \<Rightarrow> string" where
  "handle_display show_id h =
     (case h_name h of
        Some n \<Rightarrow> ''Subscription '' @ [CHR 0x27] @ n @ [CHR 0x27] @ '' ('' @ show_id (h_id h) @ '')''
      | None \<Rightarrow> ''Subscription '' @ show_id (h_id h))"

record subscription_builder =
  sb_name :: "string option"
  sb_auto_unsubscribe :: bool

definition subscription_builder_new :: subscription_builder where
  "subscription_builder_new = \<lparr>sb_name = None, sb_auto_unsubscribe = True\<rparr>"

definition subscription_builder_name :: "subscription_builder \<Rightarrow> string \<Rightarrow> subscription_builder" where
  "subscription_builder_name b n = b\<lparr>sb_name := Some n\<rparr>"

definition subscription_builder_auto :: "subscription_builder \<Rightarrow> bool \<Rightarrow> subscription_builder" where
  "subscription_builder_auto b a = b\<lparr>sb_auto_unsubscribe := a\<rparr>"

definition subscription_builder_build ::
    "subscription_builder \<Rightarrow> uuid \<Rightarrow> subscription_handle \<times> handle_cell" where
  "subscription_builder_build b fresh =
     (case sb_name b of Some n \<Rightarrow> handle_with_name fresh n | None \<Rightarrow> handle_new fresh)"

record weak_handle =
  wh_id :: uuid
  wh_name :: "string option"

definition weak_from_handle :: "subscription_handle \<Rightarrow> weak_handle" where
  "weak_from_handle h = \<lparr>wh_id = h_id h, wh_name = h_name h\<rparr>"

section \<open>Life cycles\<close>

text \<open>What the program may do with the handles it has; each operation needs one.\<close>

datatype handle_op = OpClone | OpDrop | OpUnsubscribe | OpDetach

fun handle_step :: "handle_op \<Rightarrow> handle_cell \<Rightarrow> handle_cell" where
  "handle_step OpClone c = handle_clone c"
| "handle_step OpDrop c = handle_drop c"
| "handle_step OpUnsubscribe c = handle_unsubscribe c"
| "handle_step OpDetach c = handle_detach c"

text \<open>The handles left in the program's hands, or nothing when an operation had none to use.\<close>

fun handles_left :: "nat \<Rightarrow> handle_op list \<Rightarrow> nat option" where
  "handles_left n [] = Some n"
| "handles_left n (op # ops) =
     (if n = 0 then None
      else handles_left (if op = OpClone then n + 1 else n - 1) ops)"

definition handle_run :: "handle_op list \<Rightarrow> handle_cell" where
  "handle_run ops = fold handle_step ops (snd (handle_new 0))"

text \<open>
  After a legal life cycle the count is the handles left plus the detached ones, and the task is
  signalled exactly when someone unsubscribed or no counted reference is left.
\<close>

definition cell_inv :: "nat \<Rightarrow> handle_op list \<Rightarrow> handle_cell \<Rightarrow> bool" where
  "cell_inv n done c \<longleftrightarrow>
     cell_refs c = n + count_list done OpDetach \<and>
     cell_signalled c = (\<not> cell_sender c) \<and>
     (cell_signalled c \<longleftrightarrow> OpUnsubscribe \<in> set done \<or> n + count_list done OpDetach = 0)"

lemma cell_inv_step:
  assumes "cell_inv n done c" "0 < n"
  shows "cell_inv (if op = OpClone then n + 1 else n - 1) (done @ [op]) (handle_step op c)"
  using assms
  by (cases op)
    (auto simp: cell_inv_def handle_clone_def handle_drop_def handle_unsubscribe_def
      handle_detach_def Let_def count_list_append)

lemma cell_inv_fold:
  "cell_inv n done c \<Longrightarrow> handles_left n ops = Some k \<Longrightarrow> cell_inv k (done @ ops) (fold handle_step ops c)"
proof (induction ops arbitrary: n "done" c)
  case Nil
  then show ?case by simp
next
  case (Cons op ops)
  then have "0 < n" by (simp split: if_splits)
  from Cons.IH [OF cell_inv_step [OF Cons.prems(1) this, of op]] Cons.prems(2) show ?case
    by (simp split: if_splits)
qed

lemma cell_inv_new: "cell_inv 1 [] (snd (handle_new 0))"
  by (simp add: cell_inv_def handle_new_def)

lemma cell_inv_run: "handles_left 1 ops = Some k \<Longrightarrow> cell_inv k ops (handle_run ops)"
  using cell_inv_fold [OF cell_inv_new, of ops k] by (simp only: handle_run_def append_Nil)

section \<open>Properties\<close>

text \<open>
  C37: the life of a subscription's handles. In any legal life cycle the handler task is told to
  stop exactly when a handle was unsubscribed, or when every handle was dropped and none detached;
  a detached subscription runs until an unsubscribe of a clone.
\<close>

theorem handle_life_cycle:
  assumes "handles_left 1 ops = Some k"
  shows "cell_signalled (handle_run ops) \<longleftrightarrow>
      OpUnsubscribe \<in> set ops \<or> (k = 0 \<and> OpDetach \<notin> set ops)"
    (is ?signalled)
proof -
  have "count_list ops OpDetach = 0 \<longleftrightarrow> OpDetach \<notin> set ops"
    by (rule count_list_0_iff)
  then show ?signalled
    using cell_inv_run [OF assms] by (auto simp: cell_inv_def)
qed

theorem handle_life_cycle_witness:
  "\<not> cell_signalled (handle_run [OpClone, OpDetach, OpClone, OpDrop, OpDrop]) \<and>
   handles_left 1 [OpClone, OpDetach, OpClone, OpDrop, OpDrop] = Some 0"
  using handle_life_cycle [of "[OpClone, OpDetach, OpClone, OpDrop, OpDrop]" 0] by simp

end
