(* ===== verification/Subscription_Manager.thy ===== *)
theory Subscription_Manager
  imports DashMap_Registry Handlers Retry_Policy Channels Subscription_Handle
begin

text \<open>
  The subscription manager (src/src/subscription/mod.rs): the routing of an envelope to the queues
  of its subscriptions, the handler tasks with their retry loop and dead letter queue, and the
  life cycle of a subscription. The registry is a trait object, that is a record of methods; the
  theory works for any of them and the properties instantiate it with the default registry.
  Here a task takes an envelope and runs its retry loop in one step; \<open>Task_Steps\<close> splits that step at
  the points where the task waits.
\<close>

section \<open>State\<close>

text \<open>What a handler task does with an envelope, in order.\<close>

datatype loop_event =
    Execute
  | Increment uuid
  | AckEvent uuid uuid
  | Backoff duration
  | SendDlq uuid
  | MarkFailed uuid uuid

text \<open>What the tasks share: the registry, the state of the program, the dead letter queue.\<close>

record ('r, 'v, 'w) shared =
  sh_registry :: 'r
  sh_world :: 'w
  sh_dlq :: "'v envelope chan option"
  sh_log :: "loop_event list"

text \<open>A subscription's task: the handler, its queue, the sender held by the manager, the handle's
  cell, and whether it still runs.\<close>

record ('v, 'w) sub_task =
  task_handler :: "('v, 'w) handler"
  task_queue :: "'v envelope chan"
  task_cell :: handle_cell
  task_running :: bool

record ('r, 'v, 'w) manager =
  m_shared :: "('r, 'v, 'w) shared"
  m_subscriptions :: "(uuid \<times> ('v, 'w) sub_task) list"
  m_unsub_queue :: "uuid list"
  m_max_retries :: u32
  m_retry_backoff :: duration
  m_handler_channel_size :: nat

definition manager_with_channel_size ::
    "'r \<Rightarrow> 'w \<Rightarrow> u32 \<Rightarrow> duration \<Rightarrow> nat \<Rightarrow> ('r, 'v, 'w) manager" where
  "manager_with_channel_size r w retries backoff n =
     \<lparr>m_shared = \<lparr>sh_registry = r, sh_world = w, sh_dlq = None, sh_log = []\<rparr>,
      m_subscriptions = [], m_unsub_queue = [], m_max_retries = retries,
      m_retry_backoff = backoff, m_handler_channel_size = n\<rparr>"

definition manager_new :: "'r \<Rightarrow> 'w \<Rightarrow> u32 \<Rightarrow> duration \<Rightarrow> ('r, 'v, 'w) manager" where
  "manager_new r w retries backoff = manager_with_channel_size r w retries backoff 256"

definition set_dlq :: "('r, 'v, 'w) manager \<Rightarrow> 'v envelope chan \<Rightarrow> ('r, 'v, 'w) manager" where
  "set_dlq m c = m\<lparr>m_shared := (m_shared m)\<lparr>sh_dlq := Some c\<rparr>\<rparr>"

section \<open>The retry loop of a handler task\<close>

datatype 's loop_result = Completed 's | DlqBlocked 's | LoopPanicked 's

definition log_event :: "loop_event \<Rightarrow> ('r, 'v, 'w) shared \<Rightarrow> ('r, 'v, 'w) shared" where
  "log_event e s = s\<lparr>sh_log := sh_log s @ [e]\<rparr>"

definition on_success ::
    "('r, 'v) registry_vtable \<Rightarrow> uuid \<Rightarrow> 'v envelope \<Rightarrow> ('r, 'v, 'w) shared \<Rightarrow> ('r, 'v, 'w) shared" where
  "on_success V sid env s =
     (let s1 = log_event (Increment sid) (s\<lparr>sh_registry := vt_increment_processed V (sh_registry s) sid\<rparr>);
          s2 = s1\<lparr>sh_registry := vt_ack_event V (sh_registry s1) sid (env_event_id env)\<rparr>
      in log_event (AckEvent sid (env_event_id env)) s2)"

text \<open>The last failure: the dead letter queue first, which may be full and stall the task, then the
  mark in the registry.\<close>

definition mark_failed ::
    "('r, 'v) registry_vtable \<Rightarrow> uuid \<Rightarrow> 'v envelope \<Rightarrow> ('r, 'v, 'w) shared \<Rightarrow> ('r, 'v, 'w) shared" where
  "mark_failed V sid env s =
     log_event (MarkFailed sid (env_event_id env))
       (s\<lparr>sh_registry := snd (vt_mark_failed V (sh_registry s) sid (env_event_id env))\<rparr>)"

definition on_permanent_error ::
    "('r, 'v) registry_vtable \<Rightarrow> uuid \<Rightarrow> 'v envelope \<Rightarrow> ('r, 'v, 'w) shared \<Rightarrow>
       ('r, 'v, 'w) shared loop_result" where
  "on_permanent_error V sid env s =
     (case sh_dlq s of
        None \<Rightarrow> Completed (mark_failed V sid env s)
      | Some c \<Rightarrow>
          (case chan_send c env of
             (Pending, c') \<Rightarrow> DlqBlocked s
           | (Ready _, c') \<Rightarrow>
               Completed (mark_failed V sid env
                 (log_event (SendDlq (env_event_id env)) (s\<lparr>sh_dlq := Some c'\<rparr>)))))"

definition run_handler ::
    "('v, 'w) handler \<Rightarrow> 'v envelope \<Rightarrow> ('r, 'v, 'w) shared \<Rightarrow> unit result \<times> ('r, 'v, 'w) shared" where
  "run_handler h env s =
     (let (res, w) = handle h env (sh_world s) in (res, log_event Execute (s\<lparr>sh_world := w\<rparr>)))"

partial_function (option) retry_loop ::
    "('r, 'v) registry_vtable \<Rightarrow> ('v, 'w) handler \<Rightarrow> bool \<Rightarrow> u32 \<Rightarrow> duration \<Rightarrow> uuid \<Rightarrow> 'v envelope \<Rightarrow>
       u32 \<Rightarrow> ('r, 'v, 'w) shared \<Rightarrow> ('r, 'v, 'w) shared loop_result option" where
  "retry_loop V h oc max_retries retry_backoff sid env attempt s =
     (let (res, s1) = run_handler h env s
      in case res of
           Inr _ \<Rightarrow> Some (Completed (on_success V sid env s1))
         | Inl e \<Rightarrow>
             (case u32_inc oc attempt of
                Panic \<Rightarrow> Some (LoopPanicked s1)
              | Done a \<Rightarrow>
                  if max_retries < a then Some (on_permanent_error V sid env s1)
                  else (case doubled_delay oc retry_backoff a of
                          Panic \<Rightarrow> Some (LoopPanicked s1)
                        | Done d \<Rightarrow>
                            retry_loop V h oc max_retries retry_backoff sid env a
                              (log_event (Backoff d) s1))))"

section \<open>Handler tasks\<close>

text \<open>
  A task's select loop: it takes an envelope from its queue, or ends because the queue is closed and
  empty or because its handle was signalled; when both are possible the runtime picks. An ending
  task reports its id for removal; a panicking one does not.
\<close>

definition set_task :: "uuid \<Rightarrow> ('v, 'w) sub_task \<Rightarrow> ('r, 'v, 'w) manager \<Rightarrow> ('r, 'v, 'w) manager" where
  "set_task sid t m = m\<lparr>m_subscriptions := mput sid t (m_subscriptions m)\<rparr>"

definition end_task :: "('v, 'w) sub_task \<Rightarrow> ('v, 'w) sub_task" where
  "end_task t =
     t\<lparr>task_running := False, task_queue := (task_queue t)\<lparr>chan_buffer := [], chan_open := False\<rparr>\<rparr>"

definition task_recv ::
    "('r, 'v) registry_vtable \<Rightarrow> bool \<Rightarrow> uuid \<Rightarrow> ('r, 'v, 'w) manager \<Rightarrow> ('r, 'v, 'w) manager option" where
  "task_recv V oc sid m =
     (case map_of (m_subscriptions m) sid of
        None \<Rightarrow> None
      | Some t \<Rightarrow>
          (if \<not> task_running t then None
           else (case chan_recv (task_queue t) of
                   (None, _) \<Rightarrow> None
                 | (Some env, q) \<Rightarrow>
                     (case retry_loop V (task_handler t) oc (m_max_retries m) (m_retry_backoff m)
                             sid env 0 (m_shared m) of
                        None \<Rightarrow> None
                      | Some (Completed s) \<Rightarrow>
                          Some (set_task sid (t\<lparr>task_queue := q\<rparr>) (m\<lparr>m_shared := s\<rparr>))
                      | Some (DlqBlocked s) \<Rightarrow> None
                      | Some (LoopPanicked s) \<Rightarrow>
                          Some (set_task sid (end_task t) (m\<lparr>m_shared := s\<rparr>))))))"

definition task_shutdown :: "uuid \<Rightarrow> ('r, 'v, 'w) manager \<Rightarrow> ('r, 'v, 'w) manager option" where
  "task_shutdown sid m =
     (case map_of (m_subscriptions m) sid of
        None \<Rightarrow> None
      | Some t \<Rightarrow>
          (if task_running t \<and> cell_signalled (task_cell t)
           then Some ((set_task sid (end_task t) m)\<lparr>m_unsub_queue := m_unsub_queue m @ [sid]\<rparr>)
           else None))"

text \<open>The manager's own task removes what it is told to, and aborts what is left of it.\<close>

definition auto_unsubscribe :: "('r, 'v) registry_vtable \<Rightarrow> ('r, 'v, 'w) manager \<Rightarrow> ('r, 'v, 'w) manager option" where
  "auto_unsubscribe V m =
     (case m_unsub_queue m of
        [] \<Rightarrow> None
      | sid # rest \<Rightarrow>
          (let m1 = m\<lparr>m_unsub_queue := rest\<rparr>
           in if map_of (m_subscriptions m1) sid = None then Some m1
              else Some (m1\<lparr>m_subscriptions := mdel sid (m_subscriptions m1),
                   m_shared := (m_shared m1)\<lparr>sh_registry :=
                     snd (vt_unregister V (sh_registry (m_shared m1)) sid)\<rparr>\<rparr>)))"

section \<open>Subscribing\<close>

definition update_cell :: "uuid \<Rightarrow> (handle_cell \<Rightarrow> handle_cell) \<Rightarrow> ('r, 'v, 'w) manager \<Rightarrow> ('r, 'v, 'w) manager" where
  "update_cell sid f m =
     (case map_of (m_subscriptions m) sid of
        None \<Rightarrow> m
      | Some t \<Rightarrow> set_task sid (t\<lparr>task_cell := f (task_cell t)\<rparr>) m)"

text \<open>
  Both subscribe methods: spawn the task, store it, then register the entry; when registration
  fails the handle is dropped on the way out. A channel of capacity zero panics.
\<close>

definition spawn_and_register ::
    "('r, 'v) registry_vtable \<Rightarrow> ('v, 'w) handler \<Rightarrow> type_id \<Rightarrow> string \<Rightarrow> 'v sub_entry \<Rightarrow>
       subscription_handle \<times> handle_cell \<Rightarrow> ('r, 'v, 'w) manager \<Rightarrow>
       (subscription_handle result \<times> ('r, 'v, 'w) manager) outcome" where
  "spawn_and_register V h tid tname entry hc m =
     bind_outcome (chan_new (m_handler_channel_size m))
       (\<lambda>q. let (hd, cell) = hc;
                t = \<lparr>task_handler = h, task_queue = q, task_cell = cell, task_running = True\<rparr>;
                m1 = set_task (h_id hd) t m;
                (res, r) = vt_register V (sh_registry (m_shared m1)) tid tname entry;
                m2 = m1\<lparr>m_shared := (m_shared m1)\<lparr>sh_registry := r\<rparr>\<rparr>
            in Done (case res of
                       Inr _ \<Rightarrow> (Inr hd, m2)
                     | Inl e \<Rightarrow> (Inl e, update_cell (h_id hd) handle_drop m2)))"

definition typed_entry :: "('v, 'w) handler \<Rightarrow> string \<Rightarrow> string option \<Rightarrow> uuid \<Rightarrow> 'v sub_entry" where
  "typed_entry h name topic_opt fresh =
     (let entry = entry_with_name fresh name;
          entry1 = (case topic_opt of Some p \<Rightarrow> with_topic entry p | None \<Rightarrow> entry)
      in case handler_filter h of Some f \<Rightarrow> with_filter entry1 f | None \<Rightarrow> entry1)"

definition subscribe_typed ::
    "('r, 'v) registry_vtable \<Rightarrow> 'v event_ty \<Rightarrow> ('v, 'w) handler \<Rightarrow> string \<Rightarrow> string option \<Rightarrow> uuid \<Rightarrow>
       ('r, 'v, 'w) manager \<Rightarrow> (subscription_handle result \<times> ('r, 'v, 'w) manager) outcome" where
  "subscribe_typed V T h name topic_opt fresh m =
     spawn_and_register V h (ty_type_id T) (ty_name T) (typed_entry h name topic_opt fresh)
       (handle_with_name fresh name) m"

definition subscribe ::
    "('r, 'v) registry_vtable \<Rightarrow> 'v event_ty \<Rightarrow> ('v, 'w) handler \<Rightarrow> uuid \<Rightarrow> ('r, 'v, 'w) manager \<Rightarrow>
       (subscription_handle result \<times> ('r, 'v, 'w) manager) outcome" where
  "subscribe V T h fresh m =
     subscribe_typed V T h (''Handler<'' @ ty_name T @ ''>'') None fresh m"

definition subscribe_untyped ::
    "('r, 'v) registry_vtable \<Rightarrow> ('v, 'w) handler \<Rightarrow> type_id \<Rightarrow> string \<Rightarrow> uuid \<Rightarrow> ('r, 'v, 'w) manager \<Rightarrow>
       (subscription_handle result \<times> ('r, 'v, 'w) manager) outcome" where
  "subscribe_untyped V h tid tname fresh m =
     (let name = ''Handler<'' @ tname @ ''>''
      in spawn_and_register V h tid tname (entry_with_name fresh name) (handle_with_name fresh name) m)"

definition subscribe_fn ::
    "('r, 'v) registry_vtable \<Rightarrow> 'v event_ty \<Rightarrow> ('v \<Rightarrow> 'w \<Rightarrow> 'w) \<Rightarrow> uuid \<Rightarrow> ('r, 'v, 'w) manager \<Rightarrow>
       (subscription_handle result \<times> ('r, 'v, 'w) manager) outcome" where
  "subscribe_fn V T f fresh m = subscribe V T (function_handler T f) fresh m"

definition subscribe_topic_fn ::
    "('r, 'v) registry_vtable \<Rightarrow> 'v event_ty \<Rightarrow> string \<Rightarrow> ('v \<Rightarrow> 'w \<Rightarrow> 'w) \<Rightarrow> uuid \<Rightarrow>
       ('r, 'v, 'w) manager \<Rightarrow> (subscription_handle result \<times> ('r, 'v, 'w) manager) outcome" where
  "subscribe_topic_fn V T p f fresh m =
     subscribe_typed V T (function_handler T f)
       (''TopicHandler<'' @ ty_name T @ ''>::'' @ p) (Some p) fresh m"

text \<open>\<open>unsubscribe\<close>: the registry first; the task is aborted with what its queue still holds.\<close>

definition manager_unsubscribe ::
    "('r, 'v) registry_vtable \<Rightarrow> uuid \<Rightarrow> ('r, 'v, 'w) manager \<Rightarrow> unit result \<times> ('r, 'v, 'w) manager" where
  "manager_unsubscribe V sid m =
     (case vt_unregister V (sh_registry (m_shared m)) sid of
        (Inl e, r) \<Rightarrow> (Inl e, update_cell sid handle_drop (m\<lparr>m_shared := (m_shared m)\<lparr>sh_registry := r\<rparr>\<rparr>))
      | (Inr _, r) \<Rightarrow>
          (let m1 = m\<lparr>m_shared := (m_shared m)\<lparr>sh_registry := r\<rparr>\<rparr>
           in if map_of (m_subscriptions m1) sid = None
              then (Inl (SubscriptionNotFound sid), m1)
              else (Inr (), m1\<lparr>m_subscriptions := mdel sid (m_subscriptions m1)\<rparr>)))"

section \<open>Dispatching\<close>

definition target_topic :: "'v envelope \<Rightarrow> string" where
  "target_topic env = (case topic (metadata env) of Some p \<Rightarrow> p | None \<Rightarrow> type_name env)"

text \<open>The loop that adds the topic subscriptions not yet in the list.\<close>

fun add_topic_subs :: "'v sub_entry list \<Rightarrow> 'v sub_entry list \<Rightarrow> 'v sub_entry list" where
  "add_topic_subs subs [] = subs"
| "add_topic_subs subs (s # ss) =
     add_topic_subs (if \<exists>x\<in>set subs. sub_id x = sub_id s then subs else subs @ [s]) ss"

definition matching_subscriptions ::
    "('r, 'v) registry_vtable \<Rightarrow> 'r \<Rightarrow> 'v envelope \<Rightarrow> 'v sub_entry list" where
  "matching_subscriptions V r env =
     add_topic_subs (filter (\<lambda>s. sub_topic s = None) (vt_get_subscriptions V r (env_type_id env)))
       (vt_get_topic_subscriptions V r (target_topic env))"

definition passes_filter :: "'v envelope \<Rightarrow> 'v sub_entry \<Rightarrow> bool" where
  "passes_filter env s = (case sub_filter s of Some f \<Rightarrow> f env | None \<Rightarrow> True)"

definition dispatch_targets ::
    "('r, 'v) registry_vtable \<Rightarrow> ('r, 'v, 'w) manager \<Rightarrow> 'v envelope \<Rightarrow> uuid list" where
  "dispatch_targets V m env =
     map sub_id (filter (\<lambda>s. passes_filter env s \<and> map_of (m_subscriptions m) (sub_id s) \<noteq> None)
       (matching_subscriptions V (sh_registry (m_shared m)) env))"

text \<open>One poll of the joined sends: the ones still waiting for room stay pending; a send to a task
  that is gone is logged and dropped.\<close>

fun poll_sends ::
    "'v envelope \<Rightarrow> uuid list \<Rightarrow> ('r, 'v, 'w) manager \<Rightarrow> uuid list \<times> ('r, 'v, 'w) manager" where
  "poll_sends env [] m = ([], m)"
| "poll_sends env (sid # sids) m =
     (case map_of (m_subscriptions m) sid of
        None \<Rightarrow> poll_sends env sids m
      | Some t \<Rightarrow>
          (let (r, q) = chan_send (task_queue t) env;
               (waiting, m') = poll_sends env sids (set_task sid (t\<lparr>task_queue := q\<rparr>) m)
           in (if r = Pending then sid # waiting else waiting, m')))"

definition manager_dispatch ::
    "('r, 'v) registry_vtable \<Rightarrow> 'v envelope \<Rightarrow> ('r, 'v, 'w) manager \<Rightarrow>
       unit result poll \<times> ('r, 'v, 'w) manager" where
  "manager_dispatch V env m =
     (let targets = dispatch_targets V m env
      in if targets = [] then (Ready (Inr ()), m)
         else (let (waiting, m') = poll_sends env targets m
               in (if waiting = [] then Ready (Inr ()) else Pending, m')))"

section \<open>Shutting down\<close>

definition manager_shutdown ::
    "('r, 'v) registry_vtable \<Rightarrow> ('r, 'v, 'w) manager \<Rightarrow> unit result \<times> ('r, 'v, 'w) manager" where
  "manager_shutdown V m =
     (Inr (), m\<lparr>m_shared := (m_shared m)\<lparr>sh_registry := vt_clear V (sh_registry (m_shared m))\<rparr>,
                m_subscriptions := []\<rparr>)"

text \<open>A task works off the envelopes left in its queue; nothing is returned when it stalls for good.\<close>

fun drain ::
    "('r, 'v) registry_vtable \<Rightarrow> ('v, 'w) handler \<Rightarrow> bool \<Rightarrow> u32 \<Rightarrow> duration \<Rightarrow> uuid \<Rightarrow> 'v envelope list \<Rightarrow>
       ('r, 'v, 'w) shared \<Rightarrow> ('r, 'v, 'w) shared option" where
  "drain V h oc mr rb sid [] s = Some s"
| "drain V h oc mr rb sid (env # envs) s =
     (case retry_loop V h oc mr rb sid env 0 s of
        None \<Rightarrow> None
      | Some (Completed s') \<Rightarrow> drain V h oc mr rb sid envs s'
      | Some (DlqBlocked s') \<Rightarrow> None
      | Some (LoopPanicked s') \<Rightarrow> Some s')"

text \<open>
  Graceful shutdown: every subscription leaves the map and the registry and loses its sender, then
  the tasks are awaited. A task whose handle was signalled stops after as many envelopes as the
  runtime's choices \<open>picks\<close> let it take.
\<close>

fun drain_tasks ::
    "('r, 'v) registry_vtable \<Rightarrow> bool \<Rightarrow> (uuid \<Rightarrow> nat) \<Rightarrow> u32 \<Rightarrow> duration \<Rightarrow>
       (uuid \<times> ('v, 'w) sub_task) list \<Rightarrow> ('r, 'v, 'w) shared \<Rightarrow> ('r, 'v, 'w) shared option" where
  "drain_tasks V oc picks mr rb [] s = Some s"
| "drain_tasks V oc picks mr rb ((sid, t) # ts) s =
     (let envs = (if \<not> task_running t then []
                  else if cell_signalled (task_cell t) then take (picks sid) (chan_buffer (task_queue t))
                  else chan_buffer (task_queue t))
      in case drain V (task_handler t) oc mr rb sid envs s of
           None \<Rightarrow> None
         | Some s' \<Rightarrow> drain_tasks V oc picks mr rb ts s')"

definition manager_shutdown_gracefully ::
    "('r, 'v) registry_vtable \<Rightarrow> bool \<Rightarrow> (uuid \<Rightarrow> nat) \<Rightarrow> ('r, 'v, 'w) manager \<Rightarrow> ('r, 'v, 'w) manager option" where
  "manager_shutdown_gracefully V oc picks m =
     (let ts = m_subscriptions m;
          r = fold (\<lambda>sid r. snd (vt_unregister V r sid)) (map fst ts) (sh_registry (m_shared m))
      in case drain_tasks V oc picks (m_max_retries m) (m_retry_backoff m) ts
                ((m_shared m)\<lparr>sh_registry := r\<rparr>) of
           None \<Rightarrow> None
         | Some s \<Rightarrow> Some (m\<lparr>m_subscriptions := [], m_shared := s\<rparr>))"

record subscription_stats =
  ss_active_subscriptions :: nat
  ss_total_event_types :: nat

definition manager_stats ::
    "('r, 'v) registry_vtable \<Rightarrow> ('r, 'v, 'w) manager \<Rightarrow> subscription_stats" where
  "manager_stats V m =
     \<lparr>ss_active_subscriptions = length (m_subscriptions m),
      ss_total_event_types = length (vt_event_types V (sh_registry (m_shared m)))\<rparr>"

section \<open>The retry loop: facts\<close>

lemma run_handler_sel [simp]:
  "fst (run_handler h env s) = fst (handle h env (sh_world s))"
  "sh_world (snd (run_handler h env s)) = snd (handle h env (sh_world s))"
  "sh_registry (snd (run_handler h env s)) = sh_registry s"
  "sh_dlq (snd (run_handler h env s)) = sh_dlq s"
  "sh_log (snd (run_handler h env s)) = sh_log s @ [Execute]"
  by (simp_all add: run_handler_def log_event_def split_beta)

lemma log_event_sel [simp]:
  "sh_world (log_event e s) = sh_world s" "sh_registry (log_event e s) = sh_registry s"
  "sh_dlq (log_event e s) = sh_dlq s" "sh_log (log_event e s) = sh_log s @ [e]"
  by (simp_all add: log_event_def)

text \<open>The world after \<open>k\<close> executions of a handler, and the handler failing \<open>k\<close> times in a row.\<close>

fun world_after :: "('v, 'w) handler \<Rightarrow> 'v envelope \<Rightarrow> nat \<Rightarrow> 'w \<Rightarrow> 'w" where
  "world_after h env 0 w = w"
| "world_after h env (Suc k) w = world_after h env k (snd (handle h env w))"

fun fails_times :: "('v, 'w) handler \<Rightarrow> 'v envelope \<Rightarrow> nat \<Rightarrow> 'w \<Rightarrow> bool" where
  "fails_times h env 0 w \<longleftrightarrow> True"
| "fails_times h env (Suc k) w \<longleftrightarrow>
     isl (fst (handle h env w)) \<and>
     fails_times h env k (snd (handle h env w))"

lemma world_after_Suc: "world_after h env (Suc n) w = snd (handle h env (world_after h env n w))"
  by (induction n arbitrary: w) auto

lemma fails_last:
  assumes "fails_times h env (Suc n) w"
  shows "fails_times h env n w" "isl (fst (handle h env (world_after h env n w)))"
  using assms by (induction n arbitrary: w) auto

text \<open>The log of \<open>k\<close> failed attempts that are retried, from attempt \<open>n\<close> on.\<close>

definition retry_log :: "duration \<Rightarrow> nat \<Rightarrow> nat \<Rightarrow> loop_event list" where
  "retry_log b n k = concat (map (\<lambda>i. [Execute, Backoff (b * 2 ^ i)]) [n..<n + k])"

definition after_failures ::
    "('v, 'w) handler \<Rightarrow> 'v envelope \<Rightarrow> duration \<Rightarrow> nat \<Rightarrow> nat \<Rightarrow> ('r, 'v, 'w) shared \<Rightarrow> ('r, 'v, 'w) shared" where
  "after_failures h env b n k s =
     s\<lparr>sh_world := world_after h env k (sh_world s), sh_log := sh_log s @ retry_log b n k\<rparr>"

lemma after_failures_sel [simp]:
  "sh_world (after_failures h env b n k s) = world_after h env k (sh_world s)"
  "sh_log (after_failures h env b n k s) = sh_log s @ retry_log b n k"
  "sh_registry (after_failures h env b n k s) = sh_registry s"
  "sh_dlq (after_failures h env b n k s) = sh_dlq s"
  by (simp_all add: after_failures_def)

lemma unat_of_nat_u32: "n \<le> 32 \<Longrightarrow> unat (of_nat n :: u32) = n"
  by (simp add: unat_of_nat)

lemma u32_inc_of_nat: "n \<le> 31 \<Longrightarrow> u32_inc oc (of_nat n) = Done (of_nat (Suc n))"
  by (subst u32_inc_below_max) (simp_all add: unat_of_nat_u32 add.commute)

lemma retry_step_failure:
  assumes "run_handler h env s = (Inl e, s1)" "n < unat mr" "unat mr \<le> 32"
    and "b * 2 ^ unat mr \<le> duration_max"
  shows "retry_loop V h oc mr b sid env (of_nat n) s =
    retry_loop V h oc mr b sid env (of_nat (Suc n)) (log_event (Backoff (b * 2 ^ n)) s1)"
proof -
  have u: "unat (of_nat (Suc n) :: u32) = Suc n"
    using assms(2,3) by (intro unat_of_nat_u32) simp
  have "b * 2 ^ n \<le> b * 2 ^ unat mr"
    using assms(2) by (intro mult_left_mono power_increasing) simp_all
  then have "b * 2 ^ n \<le> duration_max"
    using assms(4) by (rule order.trans)
  then have d: "doubled_delay oc b (of_nat (Suc n)) = Done (b * 2 ^ n)"
    using doubled_delay_ok [of "of_nat (Suc n)" b oc] assms(2-4) u by (simp del: of_nat_Suc)
  have "\<not> mr < of_nat (Suc n)"
    using assms(2) u by (simp add: word_less_nat_alt del: of_nat_Suc)
  then show ?thesis
    using assms(1) u32_inc_of_nat [of n oc] assms(2,3) d
    by (subst retry_loop.simps) (simp del: of_nat_Suc)
qed

lemma retry_log_Suc: "retry_log b n (Suc k) = Execute # Backoff (b * 2 ^ n) # retry_log b (Suc n) k"
  by (simp add: retry_log_def upt_conv_Cons del: upt_Suc)

lemma retry_loop_failures:
  assumes "fails_times h env k (sh_world s)" "n + k \<le> unat mr" "unat mr \<le> 32"
    and "b * 2 ^ unat mr \<le> duration_max"
  shows "retry_loop V h oc mr b sid env (of_nat n) s =
    retry_loop V h oc mr b sid env (of_nat (n + k)) (after_failures h env b n k s)"
  using assms
proof (induction k arbitrary: n s)
  case 0
  then show ?case by (simp add: after_failures_def retry_log_def)
next
  case (Suc k)
  obtain e where e: "fst (run_handler h env s) = Inl e"
    using Suc.prems(1) by (auto simp: isl_def)
  let ?s1 = "snd (run_handler h env s)"
  let ?s2 = "log_event (Backoff (b * 2 ^ n)) ?s1"
  have "retry_loop V h oc mr b sid env (of_nat n) s =
      retry_loop V h oc mr b sid env (of_nat (Suc n)) ?s2"
    using Suc.prems e by (intro retry_step_failure [where e = e]) (simp_all add: prod_eq_iff)
  also have "\<dots> = retry_loop V h oc mr b sid env (of_nat (Suc n + k)) (after_failures h env b (Suc n) k ?s2)"
    using Suc.prems by (intro Suc.IH) simp_all
  also have "after_failures h env b (Suc n) k ?s2 = after_failures h env b n (Suc k) s"
    by (simp add: after_failures_def run_handler_def log_event_def split_beta retry_log_Suc)
  finally show ?case by simp
qed

text \<open>The loop returns: the attempt counter cannot wrap below a maximum that is not the last \<open>u32\<close>.\<close>

lemma retry_loop_total:
  assumes "mr \<noteq> - 1" "a \<le> mr"
  shows "\<exists>r. retry_loop V h oc mr b sid env a s = Some r"
  using assms(2)
proof (induction "unat mr - unat a" arbitrary: a s rule: less_induct)
  case less
  have lt: "unat a < 2 ^ 32 - 1"
  proof -
    have "mr < - 1"
      using assms(1) by (simp add: word_le_less_eq word_order.not_eq_extremum)
    then have "a < - 1" using less.prems by simp
    then show ?thesis by (simp add: word_less_nat_alt unat_max_u32)
  qed
  obtain res s1 where rs: "run_handler h env s = (res, s1)" by (cases "run_handler h env s")
  show ?case
  proof (cases "\<exists>e d. res = Inl e \<and> \<not> mr < a + 1 \<and> doubled_delay oc b (a + 1) = Done d")
    case True
    then obtain e d where d: "res = Inl e" "\<not> mr < a + 1" "doubled_delay oc b (a + 1) = Done d" by blast
    then have "retry_loop V h oc mr b sid env a s =
        retry_loop V h oc mr b sid env (a + 1) (log_event (Backoff d) s1)"
      by (subst retry_loop.simps) (simp add: rs u32_inc_below_max [OF lt])
    moreover have "unat mr - unat (a + 1) < unat mr - unat a"
      using d(2) unat_Suc_u32 [OF lt] by (simp add: word_less_nat_alt not_less)
    ultimately show ?thesis
      using less.hyps [of "a + 1" "log_event (Backoff d) s1"] d(2) by (simp add: not_less)
  next
    case False
    then show ?thesis
      by (subst retry_loop.simps)
        (auto simp: rs u32_inc_below_max [OF lt] split: sum.split outcome.split)
  qed
qed

section \<open>Dispatch: facts\<close>

lemma set_task_sel [simp]:
  "m_shared (set_task sid t m) = m_shared m"
  "map_of (m_subscriptions (set_task sid t m)) = (map_of (m_subscriptions m))(sid \<mapsto> t)"
  "m_max_retries (set_task sid t m) = m_max_retries m"
  "m_retry_backoff (set_task sid t m) = m_retry_backoff m"
  "m_unsub_queue (set_task sid t m) = m_unsub_queue m"
  "m_handler_channel_size (set_task sid t m) = m_handler_channel_size m"
  by (simp_all add: set_task_def)

lemma poll_sends_shared [simp]: "m_shared (snd (poll_sends env sids m)) = m_shared m"
proof (induction sids arbitrary: m)
  case Nil
  then show ?case by simp
next
  case (Cons sid sids)
  then show ?case
    by (cases "map_of (m_subscriptions m) sid") (simp_all add: Let_def split_beta)
qed

definition sent :: "'v envelope \<Rightarrow> ('v, 'w) sub_task \<Rightarrow> ('v, 'w) sub_task" where
  "sent env t = t\<lparr>task_queue := snd (chan_send (task_queue t) env)\<rparr>"

text \<open>Sending changes queues only: the subscriptions stay the same, in the same order.\<close>

lemma keys_mput_present: "k \<in> mkeys m \<Longrightarrow> map fst (mput k v m) = map fst m"
  by (induction m) auto

lemma set_task_keys:
  "map_of (m_subscriptions m) sid = Some t \<Longrightarrow>
     map fst (m_subscriptions (set_task sid t' m)) = map fst (m_subscriptions m)"
  by (simp add: set_task_def keys_mput_present rev_image_eqI [OF map_of_SomeD])

lemma poll_sends_keys [simp]:
  "map fst (m_subscriptions (snd (poll_sends env sids m))) = map fst (m_subscriptions m)"
  by (induction sids arbitrary: m) (auto simp: split_beta set_task_keys split: option.splits)

lemma poll_sends_tasks:
  "distinct sids \<Longrightarrow>
     map_of (m_subscriptions (snd (poll_sends env sids m))) i =
       (if i \<in> set sids then map_option (sent env) (map_of (m_subscriptions m) i)
        else map_of (m_subscriptions m) i)"
proof (induction sids arbitrary: m)
  case Nil
  then show ?case by simp
next
  case (Cons sid sids)
  then show ?case
    by (cases "map_of (m_subscriptions m) sid") (auto simp: Let_def split_beta sent_def [abs_def])
qed

lemma poll_sends_waiting:
  "distinct sids \<Longrightarrow>
     fst (poll_sends env sids m) =
       filter (\<lambda>i. \<exists>t. map_of (m_subscriptions m) i = Some t \<and>
          fst (chan_send (task_queue t) env) = Pending) sids"
proof (induction sids arbitrary: m)
  case Nil
  then show ?case by simp
next
  case (Cons sid sids)
  have other: "filter (\<lambda>i. \<exists>t'. map_of (m_subscriptions (set_task sid t m)) i = Some t' \<and>
        fst (chan_send (task_queue t') env) = Pending) sids =
      filter (\<lambda>i. \<exists>t. map_of (m_subscriptions m) i = Some t \<and>
        fst (chan_send (task_queue t) env) = Pending) sids" for t
    using Cons.prems by (intro filter_cong) auto
  show ?case
    using Cons other by (cases "map_of (m_subscriptions m) sid") (auto simp: Let_def split_beta)
qed

lemma add_topic_subs_distinct:
  "distinct (map sub_id xs) \<Longrightarrow> distinct (map sub_id (add_topic_subs xs ys))"
proof (induction ys arbitrary: xs)
  case Nil
  then show ?case by simp
next
  case (Cons y ys)
  have "distinct (map sub_id (if \<exists>x\<in>set xs. sub_id x = sub_id y then xs else xs @ [y]))"
    using Cons.prems by auto
  from Cons.IH [OF this] show ?case by simp
qed

lemma add_topic_subs_set:
  assumes "\<And>x y. x \<in> S \<Longrightarrow> y \<in> S \<Longrightarrow> sub_id x = sub_id y \<Longrightarrow> x = y"
    and "set xs \<subseteq> S" "set ys \<subseteq> S"
  shows "set (add_topic_subs xs ys) = set xs \<union> set ys"
  using assms(2,3)
proof (induction xs ys rule: add_topic_subs.induct)
  case (1 xs)
  then show ?case by simp
next
  case (2 xs y ys)
  show ?case
  proof (cases "\<exists>x\<in>set xs. sub_id x = sub_id y")
    case True
    then have "y \<in> set xs"
      using assms(1) "2.prems" by (metis list.set_intros(1) subsetD)
    then show ?thesis
      using 2 True by auto
  next
    case False
    then show ?thesis
      using 2 by auto
  qed
qed

text \<open>Which entries an envelope is for: the type's subscriptions without a topic, and those whose
  topic pattern matches.\<close>

definition entry_matches :: "'v envelope \<Rightarrow> type_id \<Rightarrow> 'v sub_entry \<Rightarrow> bool" where
  "entry_matches env t e \<longleftrightarrow> active e \<and>
     (case sub_topic e of
        None \<Rightarrow> t = env_type_id env
      | Some p \<Rightarrow> pattern_matches (split_on dot p) (split_on dot (target_topic env)))"

context topic_event_registry
begin

lemma matching_set:
  assumes "invar r"
  shows "set (matching_subscriptions V r env) =
    {e. \<exists>t. live r (sub_id e) = Some (t, e) \<and> entry_matches env t e}"
proof -
  let ?S = "{e. \<exists>t. live r (sub_id e) = Some (t, e)}"
  have "set (matching_subscriptions V r env) =
      set (filter (\<lambda>s. sub_topic s = None) (vt_get_subscriptions V r (env_type_id env))) \<union>
      set (vt_get_topic_subscriptions V r (target_topic env))"
    unfolding matching_subscriptions_def
  proof (rule add_topic_subs_set [where S = ?S])
    fix x y
    assume "x \<in> ?S" "y \<in> ?S" and eq: "sub_id x = sub_id y"
    then obtain t t' where "live r (sub_id x) = Some (t, x)" "live r (sub_id y) = Some (t', y)" by blast
    then show "x = y" by (metis eq option.inject prod.inject)
  next
    show "set (filter (\<lambda>s. sub_topic s = None) (vt_get_subscriptions V r (env_type_id env))) \<subseteq> ?S"
      unfolding set_filter get_subscriptions_set [OF assms] by blast
    show "set (vt_get_topic_subscriptions V r (target_topic env)) \<subseteq> ?S"
      unfolding get_topic_subscriptions_set [OF assms] by blast
  qed
  then have eq: "e \<in> set (matching_subscriptions V r env) \<longleftrightarrow>
      live r (sub_id e) = Some (env_type_id env, e) \<and> active e \<and> sub_topic e = None \<or>
      (\<exists>t p. live r (sub_id e) = Some (t, e) \<and> active e \<and> sub_topic e = Some p \<and>
        pattern_matches (split_on dot p) (split_on dot (target_topic env)))" for e
    unfolding set_filter get_subscriptions_set [OF assms] get_topic_subscriptions_set [OF assms]
    by blast
  have "e \<in> set (matching_subscriptions V r env) \<longleftrightarrow>
      (\<exists>t. live r (sub_id e) = Some (t, e) \<and> entry_matches env t e)" for e
    unfolding eq entry_matches_def by (cases "sub_topic e") auto
  then show ?thesis by blast
qed

lemma matching_distinct:
  "invar r \<Longrightarrow> distinct (map sub_id (matching_subscriptions V r env))"
  unfolding matching_subscriptions_def
  by (intro add_topic_subs_distinct distinct_map_filter get_subscriptions_distinct)

lemma targets_distinct:
  "invar (sh_registry (m_shared m)) \<Longrightarrow> distinct (dispatch_targets V m env)"
  unfolding dispatch_targets_def by (intro distinct_map_filter matching_distinct)

lemma targets_iff:
  assumes "invar (sh_registry (m_shared m))"
  shows "i \<in> set (dispatch_targets V m env) \<longleftrightarrow>
    map_of (m_subscriptions m) i \<noteq> None \<and>
    (\<exists>t e. live (sh_registry (m_shared m)) i = Some (t, e) \<and> sub_id e = i \<and>
       entry_matches env t e \<and> passes_filter env e)"
  by (auto simp: dispatch_targets_def matching_set [OF assms])

end

lemma live_sub_id: "registry_inv r \<Longrightarrow> live r i = Some (t, e) \<Longrightarrow> sub_id e = i"
  by (simp add: live_iff registry_inv_def)

text \<open>The condition under which a subscription receives an envelope, over the registry's map.\<close>

definition receives :: "('v dashmap_registry, 'v, 'w) manager \<Rightarrow> 'v envelope \<Rightarrow> uuid \<Rightarrow> bool" where
  "receives m env i \<longleftrightarrow>
     map_of (m_subscriptions m) i \<noteq> None \<and>
     (case live (sh_registry (m_shared m)) i of
        None \<Rightarrow> False
      | Some (t, e) \<Rightarrow> entry_matches env t e \<and> passes_filter env e)"

lemma targets_receives:
  assumes "registry_inv (sh_registry (m_shared m))"
  shows "i \<in> set (dispatch_targets dashmap_vtable m env) \<longleftrightarrow> receives m env i"
  using dash.targets_iff [OF assms, of i env] live_sub_id [OF assms, of i]
  by (auto simp: receives_def split: option.splits)

lemma dispatch_room:
  assumes "registry_inv (sh_registry (m_shared m))"
    and "\<And>i t. receives m env i \<Longrightarrow> map_of (m_subscriptions m) i = Some t \<Longrightarrow>
      chan_open (task_queue t) \<and> length (chan_buffer (task_queue t)) < chan_capacity (task_queue t)"
  shows "fst (manager_dispatch dashmap_vtable env m) = Ready (Inr ())"
    "map_of (m_subscriptions (snd (manager_dispatch dashmap_vtable env m))) i =
      map_option (\<lambda>t. if receives m env i
         then t\<lparr>task_queue := (task_queue t)\<lparr>chan_buffer := chan_buffer (task_queue t) @ [env]\<rparr>\<rparr> else t)
       (map_of (m_subscriptions m) i)"
proof -
  let ?ts = "dispatch_targets dashmap_vtable m env"
  have d: "distinct ?ts" by (rule dash.targets_distinct [OF assms(1)])
  have "fst (poll_sends env ?ts m) = []"
    using assms(2) by (auto simp: poll_sends_waiting [OF d] filter_empty_conv
        targets_receives [OF assms(1)] chan_send_room)
  then show "fst (manager_dispatch dashmap_vtable env m) = Ready (Inr ())"
    by (simp add: manager_dispatch_def Let_def split_beta)
  have "snd (manager_dispatch dashmap_vtable env m) = snd (poll_sends env ?ts m)"
    by (simp add: manager_dispatch_def Let_def split_beta)
  then show "map_of (m_subscriptions (snd (manager_dispatch dashmap_vtable env m))) i =
      map_option (\<lambda>t. if receives m env i
         then t\<lparr>task_queue := (task_queue t)\<lparr>chan_buffer := chan_buffer (task_queue t) @ [env]\<rparr>\<rparr> else t)
       (map_of (m_subscriptions m) i)"
    using assms(2) [of i]
    by (cases "map_of (m_subscriptions m) i")
      (auto simp: poll_sends_tasks [OF d] targets_receives [OF assms(1)] sent_def chan_send_room)
qed

section \<open>Properties\<close>


definition echo_ty :: "nat event_ty" where
  "echo_ty =
     \<lparr>ty_of = 5, ty_type_id = 5, ty_name = ''Echo'',
      serialize_event = (\<lambda>v. Inr [of_nat v]),
      deserialize_event = (\<lambda>bs. case bs of [b] \<Rightarrow> Inr (unat b) | _ \<Rightarrow> Inl (SerializationError ''length''))\<rparr>"

text \<open>A handler that refuses its first events, and counts its calls.\<close>

definition flaky :: "nat \<Rightarrow> (nat, nat) handler" where
  "flaky k =
     fallible_function_handler echo_ty
       (\<lambda>v w. (if w < k then Inl (handler_error ''not yet'') else Inr (), w + 1)) ''flaky''"

definition echo_env :: "nat \<Rightarrow> nat envelope" where
  "echo_env v = envelope_new echo_ty v 77 0"

definition echo_shared :: "(nat dashmap_registry, nat, nat) shared" where
  "echo_shared =
     \<lparr>sh_registry = dashmap_new, sh_world = 0,
      sh_dlq = Some \<lparr>chan_capacity = 2, chan_buffer = [], chan_open = True\<rparr>, sh_log = []\<rparr>"

lemma handle_flaky [simp]:
  "handle (flaky k) (echo_env v) w = (if w < k then Inl (handler_error ''not yet'') else Inr (), w + 1)"
  by (simp add: flaky_def fallible_function_handler_def echo_env_def envelope_new_def
      get_event_with_metadata default_type_id_def event_type_id_def echo_ty_def)

lemma echo_event_id [simp]: "env_event_id (echo_env v) = 77"
  by (simp add: echo_env_def envelope_new_def metadata_new_def)

lemma upt_0_2: "[0..<2] = [0, 1]"
  by (simp add: upt_rec)

lemma fails_flaky: "w + n \<le> k \<Longrightarrow> fails_times (flaky k) (echo_env v) n w"
  by (induction n arbitrary: w) auto

lemma world_after_flaky: "world_after (flaky k) (echo_env v) n w = w + n"
  by (induction n arbitrary: w) auto


text \<open>A handler that fails on every attempt ends with the handling of the last error.\<close>

lemma retry_loop_exhausted:
  assumes "fails_times h env (unat mr + 1) (sh_world s)" "unat mr \<le> 32" "b * 2 ^ unat mr \<le> duration_max"
  shows "retry_loop V h oc mr b sid env 0 s =
    Some (on_permanent_error V sid env (snd (run_handler h env (after_failures h env b 0 (unat mr) s))))"
proof -
  let ?s = "after_failures h env b 0 (unat mr) s"
  note last = fails_last [OF assms(1) [folded Suc_eq_plus1]]
  have "retry_loop V h oc mr b sid env 0 s = retry_loop V h oc mr b sid env mr ?s"
    using retry_loop_failures [of h env "unat mr" s 0 mr b V oc sid] last(1) assms(2,3) by simp
  moreover obtain e where e: "run_handler h env ?s = (Inl e, snd (run_handler h env ?s))"
    using last(2) by (auto simp: isl_def prod_eq_iff)
  have lt: "unat mr < 2 ^ 32 - 1" using assms(2) by simp
  then have "mr < mr + 1"
    by (simp add: word_less_nat_alt unat_Suc_u32)
  then have "retry_loop V h oc mr b sid env mr ?s =
      Some (on_permanent_error V sid env (snd (run_handler h env ?s)))"
    by (subst retry_loop.simps) (subst e, simp add: u32_inc_below_max [OF lt])
  ultimately show ?thesis by simp
qed

lemma retry_loop_permanent:
  assumes "fails_times h env (unat mr + 1) (sh_world s)" "unat mr \<le> 32" "b * 2 ^ unat mr \<le> duration_max"
    and "sh_dlq s = Some c" "chan_open c" "length (chan_buffer c) < chan_capacity c"
  shows "retry_loop V h oc mr b sid env 0 s = Some (Completed
    \<lparr>sh_registry = snd (vt_mark_failed V (sh_registry s) sid (env_event_id env)),
     sh_world = world_after h env (unat mr + 1) (sh_world s),
     sh_dlq = Some (c\<lparr>chan_buffer := chan_buffer c @ [env]\<rparr>),
     sh_log = sh_log s @ concat (map (\<lambda>i. [Execute, Backoff (b * 2 ^ i)]) [0..<unat mr]) @
       [Execute, SendDlq (env_event_id env), MarkFailed sid (env_event_id env)]\<rparr>)"
  using assms(4-6) world_after_Suc [of h env "unat mr" "sh_world s"]
  by (simp add: retry_loop_exhausted [OF assms(1-3)] on_permanent_error_def chan_send_room mark_failed_def
      log_event_def run_handler_def split_beta after_failures_def retry_log_def del: world_after.simps)

text \<open>
  C12: a handler that keeps failing is executed once and then once per retry, with delays doubling
  from the base; then, in this order, the envelope goes to the dead letter queue once and is marked
  failed in the registry once. It is never acknowledged.
\<close>

theorem permanent_failure:
  assumes "fails_times h env (unat mr + 1) (sh_world s)" "unat mr \<le> 32" "b * 2 ^ unat mr \<le> duration_max"
    and "sh_dlq s = Some c" "chan_open c" "length (chan_buffer c) < chan_capacity c"
  shows "retry_loop V h oc mr b sid env 0 s = Some (Completed
    \<lparr>sh_registry = snd (vt_mark_failed V (sh_registry s) sid (env_event_id env)),
     sh_world = world_after h env (unat mr + 1) (sh_world s),
     sh_dlq = Some (c\<lparr>chan_buffer := chan_buffer c @ [env]\<rparr>),
     sh_log = sh_log s @ concat (map (\<lambda>i. [Execute, Backoff (b * 2 ^ i)]) [0..<unat mr]) @
       [Execute, SendDlq (env_event_id env), MarkFailed sid (env_event_id env)]\<rparr>)"
  by (rule retry_loop_permanent [OF assms])

theorem permanent_failure_witness:
  "retry_loop dashmap_vtable (flaky 9) True 2 100 1 (echo_env 4) 0 echo_shared = Some (Completed
    \<lparr>sh_registry = dashmap_new, sh_world = 3,
     sh_dlq = Some \<lparr>chan_capacity = 2, chan_buffer = [echo_env 4], chan_open = True\<rparr>,
     sh_log = [Execute, Backoff 100, Execute, Backoff 200, Execute, SendDlq 77, MarkFailed 1 77]\<rparr>)"
  using permanent_failure [of "flaky 9" "echo_env 4" 2 echo_shared 100
      "\<lparr>chan_capacity = 2, chan_buffer = [], chan_open = True\<rparr>" dashmap_vtable True 1]
  by (simp add: fails_flaky world_after_flaky echo_shared_def duration_max_def provided_mark_failed_def
      upt_0_2)

text \<open>
  A handler that fails \<open>k\<close> times within its retries and then succeeds is executed \<open>k + 1\<close> times;
  its success is counted and acknowledged exactly once, and nothing reaches the dead letter queue.
\<close>

lemma eventual_success:
  assumes "fails_times h env k (sh_world s)" "k \<le> unat mr" "unat mr \<le> 32" "b * 2 ^ unat mr \<le> duration_max"
    and "handle h env (world_after h env k (sh_world s)) = (Inr (), w')"
  shows "retry_loop V h oc mr b sid env 0 s = Some (Completed
    \<lparr>sh_registry = vt_ack_event V (vt_increment_processed V (sh_registry s) sid) sid (env_event_id env),
     sh_world = w', sh_dlq = sh_dlq s,
     sh_log = sh_log s @ concat (map (\<lambda>i. [Execute, Backoff (b * 2 ^ i)]) [0..<k]) @
       [Execute, Increment sid, AckEvent sid (env_event_id env)]\<rparr>)"
proof -
  let ?s = "after_failures h env b 0 k s"
  have "retry_loop V h oc mr b sid env 0 s = retry_loop V h oc mr b sid env (of_nat k) ?s"
    using retry_loop_failures [of h env k s 0 mr b V oc sid] assms(1-4) by simp
  moreover have "retry_loop V h oc mr b sid env (of_nat k) ?s =
      Some (Completed (on_success V sid env (snd (run_handler h env ?s))))"
    using assms(5) by (subst retry_loop.simps) (simp add: run_handler_def)
  ultimately show ?thesis
    using assms(5)
    by (simp add: on_success_def log_event_def run_handler_def after_failures_def retry_log_def Let_def)
qed

lemma eventual_success_example:
  "retry_loop dashmap_vtable (flaky 2) True 3 100 1 (echo_env 4) 0 echo_shared = Some (Completed
    \<lparr>sh_registry = dashmap_new, sh_world = 3,
     sh_dlq = Some \<lparr>chan_capacity = 2, chan_buffer = [], chan_open = True\<rparr>,
     sh_log = [Execute, Backoff 100, Execute, Backoff 200, Execute, Increment 1, AckEvent 1 77]\<rparr>)"
  using eventual_success [of "flaky 2" "echo_env 4" 2 echo_shared 3 100 3 dashmap_vtable True 1]
  by (simp add: fails_flaky world_after_flaky echo_shared_def duration_max_def provided_ack_event_def
      increment_processed_def dashmap_new_def upt_0_2)

text \<open>
  C3: dispatch is exact: when every subscription the envelope is for has room in its queue, the
  call succeeds and the envelope is appended exactly once to each of these queues and to no other.
\<close>

theorem dispatch_delivers_exactly:
  assumes "registry_inv (sh_registry (m_shared m))"
    and "\<And>i t. receives m env i \<Longrightarrow> map_of (m_subscriptions m) i = Some t \<Longrightarrow>
      chan_open (task_queue t) \<and> length (chan_buffer (task_queue t)) < chan_capacity (task_queue t)"
  shows "fst (manager_dispatch dashmap_vtable env m) = Ready (Inr ()) \<and>
    map_of (m_subscriptions (snd (manager_dispatch dashmap_vtable env m))) =
      (\<lambda>i. map_option (\<lambda>t. if receives m env i
         then t\<lparr>task_queue := (task_queue t)\<lparr>chan_buffer := chan_buffer (task_queue t) @ [env]\<rparr>\<rparr> else t)
       (map_of (m_subscriptions m) i))"
  using dispatch_room [OF assms] by (simp add: fun_eq_iff)

definition echo_manager :: "(nat dashmap_registry, nat, nat) manager" where
  "echo_manager =
     (manager_with_channel_size dashmap_new 0 3 100 2)\<lparr>
        m_shared := echo_shared\<lparr>sh_registry := reg_run [OpRegister 5 ''Echo'' (entry_new 1)]\<rparr>,
        m_subscriptions := [(1, \<lparr>task_handler = flaky 0,
           task_queue = \<lparr>chan_capacity = 2, chan_buffer = [], chan_open = True\<rparr>,
           task_cell = snd (handle_new 1), task_running = True\<rparr>)]\<rparr>"

lemma echo_manager_sel [simp]:
  "m_shared echo_manager = echo_shared\<lparr>sh_registry := reg_run [OpRegister 5 ''Echo'' (entry_new 1)]\<rparr>"
  "m_subscriptions echo_manager = [(1, \<lparr>task_handler = flaky 0,
     task_queue = \<lparr>chan_capacity = 2, chan_buffer = [], chan_open = True\<rparr>,
     task_cell = snd (handle_new 1), task_running = True\<rparr>)]"
  "m_handler_channel_size echo_manager = 2" "m_max_retries echo_manager = 3"
  "m_retry_backoff echo_manager = 100" "m_unsub_queue echo_manager = []"
  by (simp_all add: echo_manager_def manager_with_channel_size_def)

lemma echo_registry:
  "registry_inv (reg_run [OpRegister 5 ''Echo'' (entry_new 1 :: nat sub_entry)])"
  "live (reg_run [OpRegister 5 ''Echo'' (entry_new 1 :: nat sub_entry)]) = [1 \<mapsto> (5, entry_new 1)]"
  using reg_run_refines [of "[OpRegister 5 ''Echo'' (entry_new 1 :: nat sub_entry)]"]
  by (simp_all add: ops_ok_def map_run_def)

lemma echo_receives: "receives echo_manager (echo_env v) 1"
  by (simp add: receives_def echo_registry entry_matches_def passes_filter_def echo_env_def
      envelope_new_def echo_ty_def)

theorem dispatch_delivers_exactly_witness:
  "\<exists>t. map_of (m_subscriptions (snd (manager_dispatch dashmap_vtable (echo_env 4) echo_manager))) 1 = Some t \<and>
     chan_buffer (task_queue t) = [echo_env 4]"
proof -
  have "map_of (m_subscriptions (snd (manager_dispatch dashmap_vtable (echo_env 4) echo_manager))) =
      (\<lambda>i. map_option (\<lambda>t. if receives echo_manager (echo_env 4) i
         then t\<lparr>task_queue := (task_queue t)\<lparr>chan_buffer := chan_buffer (task_queue t) @ [echo_env 4]\<rparr>\<rparr> else t)
       (map_of (m_subscriptions echo_manager) i))"
    by (rule dispatch_delivers_exactly [THEN conjunct2]) (auto simp: echo_registry split: if_splits)
  then show ?thesis
    by (simp add: echo_receives)
qed

lemma typed_entry_sel [simp]:
  "sub_id (typed_entry h n p i) = i" "sub_topic (typed_entry h n p i) = p"
  "sub_filter (typed_entry h n p i) = handler_filter h" "active (typed_entry h n p i)"
  by (simp_all add: typed_entry_def Let_def split: option.splits)

text \<open>What a subscription leaves behind: a task with an empty queue and an entry in the registry.\<close>

definition subscribed_with ::
    "'v event_ty \<Rightarrow> ('v, 'w) handler \<Rightarrow> string \<Rightarrow> string option \<Rightarrow> uuid \<Rightarrow>
       ('v dashmap_registry, 'v, 'w) manager \<Rightarrow> ('v dashmap_registry, 'v, 'w) manager" where
  "subscribed_with T h name topic_opt i m =
     (set_task i \<lparr>task_handler = h,
        task_queue = \<lparr>chan_capacity = m_handler_channel_size m, chan_buffer = [], chan_open = True\<rparr>,
        task_cell = snd (handle_new i), task_running = True\<rparr> m)
     \<lparr>m_shared := (m_shared m)\<lparr>sh_registry := snd (register (sh_registry (m_shared m))
        (ty_type_id T) (ty_name T) (typed_entry h name topic_opt i))\<rparr>\<rparr>"

lemma subscribe_typed_run:
  assumes "0 < m_handler_channel_size m"
  shows "subscribe_typed dashmap_vtable T h name topic_opt i m =
    Done (Inr \<lparr>h_id = i, h_name = Some name\<rparr>, subscribed_with T h name topic_opt i m)"
proof (cases "register (sh_registry (m_shared m)) (ty_type_id T) (ty_name T) (typed_entry h name topic_opt i)")
  case (Pair res r)
  then have "res = Inr ()"
    using register_sel(1) [of "sh_registry (m_shared m)" "ty_type_id T" "ty_name T"
        "typed_entry h name topic_opt i"] by simp
  then show ?thesis
    using assms Pair
    by (simp add: subscribe_typed_def spawn_and_register_def chan_new_def handle_with_name_def
        handle_new_def subscribed_with_def Let_def)
qed

lemma subscribed_with_live:
  assumes "registry_inv (sh_registry (m_shared m))" "fresh_id (sh_registry (m_shared m)) i"
    and "case topic_opt of None \<Rightarrow> True | Some p \<Rightarrow> valid_topic p"
  shows "live (sh_registry (m_shared (subscribed_with T h name topic_opt i m))) =
      (live (sh_registry (m_shared m)))(i \<mapsto> (ty_type_id T, typed_entry h name topic_opt i))"
    "registry_inv (sh_registry (m_shared (subscribed_with T h name topic_opt i m)))"
  using live_register [OF assms(1), of "typed_entry h name topic_opt i"]
    registry_inv_register [OF assms(1), of "typed_entry h name topic_opt i"] assms(2,3)
  by (auto simp: subscribed_with_def split: option.splits)

lemma subscribed_with_receives:
  assumes "registry_inv (sh_registry (m_shared m))" "fresh_id (sh_registry (m_shared m)) i"
    and "case topic_opt of None \<Rightarrow> True | Some p \<Rightarrow> valid_topic p"
  shows "receives (subscribed_with T h name topic_opt i m) env i \<longleftrightarrow>
      (case topic_opt of None \<Rightarrow> env_type_id env = ty_type_id T
       | Some p \<Rightarrow> pattern_matches (split_on dot p) (split_on dot (target_topic env))) \<and>
      (case handler_filter h of None \<Rightarrow> True | Some f \<Rightarrow> f env)"
    "j \<noteq> i \<Longrightarrow> receives (subscribed_with T h name topic_opt i m) env j = receives m env j"
  by (auto simp: receives_def subscribed_with_live [OF assms] entry_matches_def passes_filter_def
      split: option.splits) (auto simp: subscribed_with_def)





subsection \<open>Wrong types, lost and drained envelopes\<close>

lemma function_handler_wrong_type:
  assumes "env_type_id env \<noteq> ty_of T"
  shows "fails_times (function_handler T f) env n w" "world_after (function_handler T f) env n w = w"
  by (induction n) (simp_all add: typed_handlers_refuse_other_types [OF assms])



text \<open>
  Unsubscribing a handle discards what its queue still holds: once the task's select takes the
  signal, the task ends and is removed without executing any of its buffered envelopes.
\<close>

lemma handle_unsubscribe_discards_buffer:
  assumes "map_of (m_subscriptions m) sid = Some t" "task_running t" "m_unsub_queue m = []"
    and "cell_signalled (task_cell t)"
  shows "\<exists>m1 m2. task_shutdown sid m = Some m1 \<and> auto_unsubscribe V m1 = Some m2 \<and>
    map_of (m_subscriptions m2) sid = None \<and>
    sh_log (m_shared m2) = sh_log (m_shared m) \<and> sh_world (m_shared m2) = sh_world (m_shared m) \<and>
    sh_registry (m_shared m2) = snd (vt_unregister V (sh_registry (m_shared m)) sid)"
  using assms by (simp add: task_shutdown_def auto_unsubscribe_def Let_def)

definition signalled_manager :: "(nat dashmap_registry, nat, nat) manager" where
  "signalled_manager = echo_manager\<lparr>m_subscriptions :=
     [(1, \<lparr>task_handler = flaky 0,
        task_queue = \<lparr>chan_capacity = 2, chan_buffer = [echo_env 4, echo_env 5], chan_open = True\<rparr>,
        task_cell = handle_unsubscribe (snd (handle_new 1)), task_running = True\<rparr>)]\<rparr>"

lemma handle_unsubscribe_discards_buffer_example:
  "\<exists>m1 m2. task_shutdown 1 signalled_manager = Some m1 \<and> auto_unsubscribe dashmap_vtable m1 = Some m2 \<and>
     map_of (m_subscriptions m2) 1 = None \<and> sh_log (m_shared m2) = [] \<and> sh_world (m_shared m2) = 0"
  using handle_unsubscribe_discards_buffer [of signalled_manager 1 _ dashmap_vtable]
  by (auto simp: signalled_manager_def echo_shared_def handle_unsubscribe_def handle_drop_def
      handle_new_def Let_def)

text \<open>The log of successful executions of a queue.\<close>

definition success_log :: "uuid \<Rightarrow> 'v envelope list \<Rightarrow> loop_event list" where
  "success_log sid envs =
     concat (map (\<lambda>env. [Execute, Increment sid, AckEvent sid (env_event_id env)]) envs)"

lemma drain_success:
  assumes "\<And>env w. env \<in> set envs \<Longrightarrow> fst (handle h env w) = Inr ()"
  shows "\<exists>s'. drain V h oc mr rb sid envs s = Some s' \<and> sh_log s' = sh_log s @ success_log sid envs \<and>
    sh_dlq s' = sh_dlq s"
  using assms
proof (induction envs arbitrary: s)
  case Nil
  then show ?case by (simp add: success_log_def)
next
  case (Cons env envs)
  let ?s1 = "on_success V sid env (snd (run_handler h env s))"
  have "retry_loop V h oc mr rb sid env 0 s = Some (Completed ?s1)"
    using Cons.prems by (subst retry_loop.simps) (simp add: run_handler_def split_beta)
  moreover have "sh_log ?s1 = sh_log s @ [Execute, Increment sid, AckEvent sid (env_event_id env)]"
    "sh_dlq ?s1 = sh_dlq s"
    by (simp_all add: on_success_def Let_def log_event_def)
  ultimately show ?case
    using Cons.IH [of ?s1] Cons.prems by (simp add: success_log_def)
qed

text \<open>A running task with an unsignalled handle whose handler accepts all that is queued for it.\<close>

definition drainable :: "('v, 'w) sub_task \<Rightarrow> bool" where
  "drainable t \<longleftrightarrow> task_running t \<and> \<not> cell_signalled (task_cell t) \<and>
     (\<forall>env\<in>set (chan_buffer (task_queue t)). \<forall>w. fst (handle (task_handler t) env w) = Inr ())"

lemma drain_tasks_success:
  assumes "\<forall>p\<in>set ts. drainable (snd p)"
  shows "\<exists>s'. drain_tasks V oc picks mr rb ts s = Some s' \<and>
    sh_log s' = sh_log s @ concat (map (\<lambda>(sid, t). success_log sid (chan_buffer (task_queue t))) ts) \<and>
    sh_dlq s' = sh_dlq s"
  using assms
proof (induction ts arbitrary: s)
  case Nil
  then show ?case by simp
next
  case (Cons p ts)
  obtain sid t where p: "p = (sid, t)" by (cases p)
  have t: "task_running t" "\<not> cell_signalled (task_cell t)"
    "\<And>env w. env \<in> set (chan_buffer (task_queue t)) \<Longrightarrow> fst (handle (task_handler t) env w) = Inr ()"
    using Cons.prems by (auto simp: p drainable_def)
  obtain s1 where s1: "drain V (task_handler t) oc mr rb sid (chan_buffer (task_queue t)) s = Some s1"
      "sh_log s1 = sh_log s @ success_log sid (chan_buffer (task_queue t))" "sh_dlq s1 = sh_dlq s"
    using drain_success [of "chan_buffer (task_queue t)" "task_handler t" V oc mr rb sid s] t(3) by blast
  have "\<exists>s'. drain_tasks V oc picks mr rb ts s1 = Some s' \<and>
      sh_log s' = sh_log s1 @ concat (map (\<lambda>(sid, t). success_log sid (chan_buffer (task_queue t))) ts) \<and>
      sh_dlq s' = sh_dlq s1"
    using Cons.prems by (intro Cons.IH) simp
  then show ?case
    using t(1,2) s1 by (auto simp: p)
qed

lemma manager_graceful_success:
  assumes "\<forall>p\<in>set (m_subscriptions m). drainable (snd p)"
  shows "\<exists>m'. manager_shutdown_gracefully V oc picks m = Some m' \<and> m_subscriptions m' = [] \<and>
    sh_dlq (m_shared m') = sh_dlq (m_shared m) \<and>
    sh_log (m_shared m') = sh_log (m_shared m) @
      concat (map (\<lambda>(sid, t). concat (map (\<lambda>env. [Execute, Increment sid, AckEvent sid (env_event_id env)])
        (chan_buffer (task_queue t)))) (m_subscriptions m))"
proof -
  let ?r = "fold (\<lambda>sid r. snd (vt_unregister V r sid)) (map fst (m_subscriptions m)) (sh_registry (m_shared m))"
  obtain s' where "drain_tasks V oc picks (m_max_retries m) (m_retry_backoff m) (m_subscriptions m)
        ((m_shared m)\<lparr>sh_registry := ?r\<rparr>) = Some s'"
      "sh_log s' = sh_log (m_shared m) @
        concat (map (\<lambda>(sid, t). success_log sid (chan_buffer (task_queue t))) (m_subscriptions m))"
      "sh_dlq s' = sh_dlq (m_shared m)"
    using drain_tasks_success [where ts = "m_subscriptions m" and V = V and oc = oc and picks = picks
        and mr = "m_max_retries m" and rb = "m_retry_backoff m"
        and s = "(m_shared m)\<lparr>sh_registry := ?r\<rparr>", OF assms] by auto
  then show ?thesis
    by (simp add: manager_shutdown_gracefully_def Let_def success_log_def)
qed

text \<open>A full dead letter queue stays as it is: whatever ends without waiting for it has not used it.\<close>

definition dlq_full :: "('r, 'v, 'w) shared \<Rightarrow> bool" where
  "dlq_full s \<longleftrightarrow> (case sh_dlq s of
     None \<Rightarrow> False | Some c \<Rightarrow> chan_open c \<and> chan_capacity c \<le> length (chan_buffer c))"

lemma on_permanent_error_full:
  "dlq_full s \<Longrightarrow> on_permanent_error V sid env s = DlqBlocked s"
  by (auto simp: dlq_full_def on_permanent_error_def chan_send_full split: option.splits)

fun loop_state :: "'s loop_result \<Rightarrow> 's" where
  "loop_state (Completed s) = s"
| "loop_state (DlqBlocked s) = s"
| "loop_state (LoopPanicked s) = s"

text \<open>What every piece of the loop keeps, the loop keeps.\<close>

lemma retry_loop_keeps:
  fixes I :: "('r, 'v, 'w) shared \<Rightarrow> bool"
  assumes "retry_loop V h oc mr b sid env a s = Some r" "I s"
    and run_keeps: "\<And>s. I s \<Longrightarrow> I (snd (run_handler h env s))"
    and log_keeps: "\<And>s d. I s \<Longrightarrow> I (log_event (Backoff d) s)"
    and success_keeps: "\<And>s. I s \<Longrightarrow> I (on_success V sid env s)"
    and failure_keeps: "\<And>s. I s \<Longrightarrow> I (loop_state (on_permanent_error V sid env s))"
  shows "I (loop_state r)"
proof -
  let ?keeps = "\<lambda>V h sid env. (\<forall>s. I s \<longrightarrow> I (snd (run_handler h env s))) \<and>
    (\<forall>s. I s \<longrightarrow> I (on_success V sid env s)) \<and> (\<forall>s. I s \<longrightarrow> I (loop_state (on_permanent_error V sid env s)))"
  have "I s \<longrightarrow> ?keeps V h sid env \<longrightarrow> I (loop_state r)"
    using assms(1)
  proof (rule retry_loop.raw_induct
      [where P = "\<lambda>V h oc mr b sid env a s r. I s \<longrightarrow> ?keeps V h sid env \<longrightarrow> I (loop_state r)", rotated])
    fix loop :: "('r, 'v) registry_vtable \<Rightarrow> ('v, 'w) handler \<Rightarrow> bool \<Rightarrow> u32 \<Rightarrow> duration \<Rightarrow> uuid \<Rightarrow>
        'v envelope \<Rightarrow> u32 \<Rightarrow> ('r, 'v, 'w) shared \<Rightarrow> ('r, 'v, 'w) shared loop_result option"
    fix V :: "('r, 'v) registry_vtable" and h :: "('v, 'w) handler" and oc mr b sid env a s r
    assume ih: "\<And>V h oc mr b sid env a s r. loop V h oc mr b sid env a s = Some r \<Longrightarrow>
        I s \<longrightarrow> ?keeps V h sid env \<longrightarrow> I (loop_state r)"
      and run: "(let (res, s1) = run_handler h env s
       in case res of
            Inl e \<Rightarrow>
              (case u32_inc oc a of
                 Done a' \<Rightarrow>
                   if mr < a' then Some (on_permanent_error V sid env s1)
                   else (case doubled_delay oc b a' of
                           Done d \<Rightarrow> loop V h oc mr b sid env a' (log_event (Backoff d) s1)
                         | Panic \<Rightarrow> Some (LoopPanicked s1))
               | Panic \<Rightarrow> Some (LoopPanicked s1))
          | Inr _ \<Rightarrow> Some (Completed (on_success V sid env s1))) = Some r"
    show "I s \<longrightarrow> ?keeps V h sid env \<longrightarrow> I (loop_state r)"
    proof (intro impI)
      assume "I s" and keeps: "?keeps V h sid env"
      obtain res s1 where rs: "run_handler h env s = (res, s1)" by (cases "run_handler h env s")
      then have "I s1" using \<open>I s\<close> keeps by (metis snd_conv)
      then show "I (loop_state r)"
        using run keeps log_keeps ih [of V h oc mr b sid env]
        by (auto simp: rs split: sum.splits outcome.splits if_splits)
    qed
  qed
  then show ?thesis using assms(2) run_keeps success_keeps failure_keeps by simp
qed

lemma retry_loop_dlq_full:
  assumes "retry_loop V h oc mr b sid env a s = Some r" "dlq_full s"
  shows "sh_dlq (loop_state r) = sh_dlq s"
proof -
  have full: "dlq_full s'" if "sh_dlq s' = sh_dlq s" for s' :: "('a, 'b, 'c) shared"
    using assms(2) that by (simp add: dlq_full_def)
  show ?thesis
    using assms(1)
    by (rule retry_loop_keeps [where I = "\<lambda>s'. sh_dlq s' = sh_dlq s"])
      (simp_all add: on_success_def Let_def on_permanent_error_full [OF full])
qed

lemma drain_dlq_full:
  "drain V h oc mr rb sid envs s = Some s' \<Longrightarrow> dlq_full s \<Longrightarrow> sh_dlq s' = sh_dlq s"
proof (induction envs arbitrary: s)
  case Nil
  then show ?case by simp
next
  case (Cons env envs)
  then obtain r where r: "retry_loop V h oc mr rb sid env 0 s = Some r"
    by (auto split: option.splits)
  then have "sh_dlq (loop_state r) = sh_dlq s"
    using Cons.prems(2) by (rule retry_loop_dlq_full)
  then show ?case
    using Cons.prems Cons.IH [of "loop_state r"] r by (cases r) (auto simp: dlq_full_def)
qed

text \<open>The head of the queue of a task fails for good.\<close>

definition stuck_head :: "('r, 'v, 'w) manager \<Rightarrow> ('v, 'w) sub_task \<Rightarrow> bool" where
  "stuck_head m t \<longleftrightarrow> task_running t \<and> \<not> cell_signalled (task_cell t) \<and> chan_buffer (task_queue t) \<noteq> [] \<and>
     unat (m_max_retries m) \<le> 32 \<and> m_retry_backoff m * 2 ^ unat (m_max_retries m) \<le> duration_max \<and>
     (\<forall>w. isl (fst (handle (task_handler t) (hd (chan_buffer (task_queue t))) w)))"

lemma always_fails: "\<forall>w. isl (fst (handle h env w)) \<Longrightarrow> fails_times h env k w"
  by (induction k arbitrary: w) auto

lemma stuck_retry:
  assumes "stuck_head m t" "dlq_full s"
  shows "\<exists>s'. retry_loop V (task_handler t) oc (m_max_retries m) (m_retry_backoff m) sid
    (hd (chan_buffer (task_queue t))) 0 s = Some (DlqBlocked s')"
proof -
  let ?h = "task_handler t" and ?env = "hd (chan_buffer (task_queue t))"
  have "fails_times ?h ?env (unat (m_max_retries m) + 1) (sh_world s)"
    using assms(1) by (intro always_fails) (simp add: stuck_head_def)
  moreover have "dlq_full (snd (run_handler ?h ?env
      (after_failures ?h ?env (m_retry_backoff m) 0 (unat (m_max_retries m)) s)))"
    using assms(2) by (simp add: dlq_full_def)
  note on_permanent_error_full [OF this]
  ultimately show ?thesis
    using assms(1) retry_loop_exhausted [of ?h ?env "m_max_retries m" s] by (simp add: stuck_head_def)
qed

lemma drain_tasks_stuck:
  assumes "stuck_head m t" "(sid, t) \<in> set ts" "dlq_full s"
  shows "drain_tasks V oc picks (m_max_retries m) (m_retry_backoff m) ts s = None"
  using assms(2,3)
proof (induction ts arbitrary: s)
  case Nil
  then show ?case by simp
next
  case (Cons p ts)
  obtain sid' t' where p: "p = (sid', t')" by (cases p)
  show ?case
  proof (cases "p = (sid, t)")
    case True
    obtain envs where q: "chan_buffer (task_queue t) = hd (chan_buffer (task_queue t)) # envs"
      using assms(1) by (cases "chan_buffer (task_queue t)") (auto simp: stuck_head_def)
    obtain s' where "retry_loop V (task_handler t) oc (m_max_retries m) (m_retry_backoff m) sid
        (hd (chan_buffer (task_queue t))) 0 s = Some (DlqBlocked s')"
      using stuck_retry [OF assms(1) Cons.prems(2)] by blast
    then have "drain V (task_handler t) oc (m_max_retries m) (m_retry_backoff m) sid
        (chan_buffer (task_queue t)) s = None"
      by (subst q) simp
    then show ?thesis
      using True assms(1) by (simp add: stuck_head_def)
  next
    case False
    then have "drain_tasks V oc picks (m_max_retries m) (m_retry_backoff m) ts s' = None"
      if "sh_dlq s' = sh_dlq s" for s'
      using Cons that by (simp add: dlq_full_def)
    then show ?thesis
      using Cons.prems(2) by (auto simp: p Let_def split: option.splits dest: drain_dlq_full)
  qed
qed

text \<open>
  C30: a full dead letter queue stops the bus for good. When nobody takes the dead letters (the
  default) and their queue is full, a handler whose next envelope fails on every attempt never gets
  past it, and the graceful shutdown never returns.
\<close>

theorem full_dlq_blocks_shutdown:
  assumes "map_of (m_subscriptions m) sid = Some t" "stuck_head m t" "dlq_full (m_shared m)"
  shows "task_recv V oc sid m = None \<and> manager_shutdown_gracefully V oc picks m = None"
proof -
  obtain envs where q: "chan_buffer (task_queue t) = hd (chan_buffer (task_queue t)) # envs"
    using assms(2) by (cases "chan_buffer (task_queue t)") (auto simp: stuck_head_def)
  obtain s' where "retry_loop V (task_handler t) oc (m_max_retries m) (m_retry_backoff m) sid
      (hd (chan_buffer (task_queue t))) 0 (m_shared m) = Some (DlqBlocked s')"
    using stuck_retry [OF assms(2,3)] by blast
  then have "task_recv V oc sid m = None"
    using assms(1,2) q by (auto simp: task_recv_def chan_recv_def stuck_head_def split: list.splits)
  moreover have "dlq_full ((m_shared m)\<lparr>sh_registry := r\<rparr>)" for r
    using assms(3) by (simp add: dlq_full_def)
  then have "manager_shutdown_gracefully V oc picks m = None"
    using drain_tasks_stuck [OF assms(2) map_of_SomeD [OF assms(1)], of _ V oc picks]
    by (simp add: manager_shutdown_gracefully_def Let_def)
  ultimately show ?thesis by simp
qed

definition stuck_task :: "(nat, nat) sub_task" where
  "stuck_task =
     \<lparr>task_handler = fallible_function_handler echo_ty (\<lambda>v w. (Inl (handler_error ''no''), w)) ''no'',
      task_queue = \<lparr>chan_capacity = 2, chan_buffer = [echo_env 4], chan_open = True\<rparr>,
      task_cell = snd (handle_new 1), task_running = True\<rparr>"

definition stuck_manager :: "(nat dashmap_registry, nat, nat) manager" where
  "stuck_manager = echo_manager\<lparr>m_subscriptions := [(1, stuck_task)],
     m_shared := echo_shared\<lparr>sh_dlq :=
       Some \<lparr>chan_capacity = 1, chan_buffer = [echo_env 3], chan_open = True\<rparr>\<rparr>\<rparr>"

theorem full_dlq_blocks_shutdown_witness:
  "manager_shutdown_gracefully dashmap_vtable True (\<lambda>_. 0) stuck_manager = None"
proof -
  have "isl (fst (handle (task_handler stuck_task) (echo_env 4) w))" for w
    by (simp add: stuck_task_def fallible_function_handler_def split: sum.split)
  then have "stuck_head stuck_manager stuck_task"
    by (simp add: stuck_head_def stuck_manager_def)
      (simp add: stuck_task_def handle_new_def echo_manager_def manager_with_channel_size_def duration_max_def)
  moreover have "dlq_full (m_shared stuck_manager)" "map_of (m_subscriptions stuck_manager) 1 = Some stuck_task"
    by (simp_all add: stuck_manager_def dlq_full_def)
  ultimately show ?thesis
    using full_dlq_blocks_shutdown [of stuck_manager 1 stuck_task dashmap_vtable True "\<lambda>_. 0"] by simp
qed

end
