(* ===== verification/Channel_Dispatcher.thy ===== *)
theory Channel_Dispatcher
  imports Dispatcher Subscription_Manager
begin

text \<open>
  The in-memory dispatcher (src/src/dispatcher/channel.rs): a bounded queue filled by the publishers
  and emptied by one worker task, which hands each envelope to the subscription manager, with a
  timeout. Scheduled events wait in tasks of their own, each with a clone of the sender.
\<close>

section \<open>State\<close>

record ('r, 'v, 'w) channel_dispatcher =
  cd_config :: dispatcher_config
  cd_sender :: bool
  cd_receiver :: bool
  cd_queue :: "'v envelope chan"
  cd_scheduled :: "(datetime \<times> 'v envelope) list"
  cd_manager :: "('r, 'v, 'w) manager"
  cd_worker :: bool
  cd_inflight :: "('v envelope \<times> uuid list) option"
  cd_running :: bool
  cd_events_dispatched :: u64
  cd_dispatch_errors :: u64
  cd_total_dispatch_time_us :: u64
  cd_max_queue_size :: u64

definition cd_new :: "dispatcher_config \<Rightarrow> ('r, 'v, 'w) manager \<Rightarrow> ('r, 'v, 'w) channel_dispatcher outcome" where
  "cd_new cfg m =
     bind_outcome (chan_new (dc_max_queue_size cfg))
       (\<lambda>q. Done \<lparr>cd_config = cfg, cd_sender = True, cd_receiver = True, cd_queue = q, cd_scheduled = [],
          cd_manager = m, cd_worker = False, cd_inflight = None, cd_running = False,
          cd_events_dispatched = 0, cd_dispatch_errors = 0, cd_total_dispatch_time_us = 0,
          cd_max_queue_size = 0\<rparr>)"

section \<open>Start and publication\<close>

definition cd_start :: "('r, 'v, 'w) channel_dispatcher \<Rightarrow> unit result \<times> ('r, 'v, 'w) channel_dispatcher" where
  "cd_start d =
     (if cd_running d then (Inl (internal ''Dispatcher already running''), d)
      else if \<not> cd_receiver d then (Inl (internal ''Dispatcher already started''), d)
      else (Inr (), d\<lparr>cd_receiver := False, cd_running := True, cd_worker := True\<rparr>))"

definition record_queue_size :: "('r, 'v, 'w) channel_dispatcher \<Rightarrow> ('r, 'v, 'w) channel_dispatcher" where
  "record_queue_size d =
     (let n = of_nat (chan_len (cd_queue d))
      in if cd_max_queue_size d < n then d\<lparr>cd_max_queue_size := n\<rparr> else d)"

text \<open>The part for an event due now; \<open>drop_on_full\<close> counts a refused event and reports success.\<close>

definition cd_enqueue ::
    "('r, 'v, 'w) channel_dispatcher \<Rightarrow> 'v envelope \<Rightarrow> unit result poll \<times> ('r, 'v, 'w) channel_dispatcher" where
  "cd_enqueue d0 env =
     (if \<not> cd_sender d0 then (Ready (Inl ShuttingDown), d0)
      else
        let d = record_queue_size d0 in
        if dc_drop_on_full (cd_config d) then
          (case chan_try_send (cd_queue d) env of
             (Sent, q) \<Rightarrow> (Ready (Inr ()), d\<lparr>cd_queue := q\<rparr>)
           | (Full, q) \<Rightarrow> (Ready (Inr ()), d\<lparr>cd_dispatch_errors := cd_dispatch_errors d + 1\<rparr>)
           | (Disconnected, q) \<Rightarrow> (Ready (Inl (internal ''Event channel closed'')), d))
        else
          (case chan_send (cd_queue d) env of
             (Pending, q) \<Rightarrow> (Pending, d)
           | (Ready ok, q) \<Rightarrow>
               if ok then (Ready (Inr ()), d\<lparr>cd_queue := q\<rparr>)
               else (Ready (Inl (internal ''Event channel closed'')), d)))"

definition cd_dispatch ::
    "datetime \<Rightarrow> ('r, 'v, 'w) channel_dispatcher \<Rightarrow> 'v envelope \<Rightarrow>
       unit result poll \<times> ('r, 'v, 'w) channel_dispatcher" where
  "cd_dispatch now d env =
     (if \<not> cd_running d then (Ready (Inl (internal ''Dispatcher not running'')), d)
      else case deliver_at (metadata env) of
        Some at \<Rightarrow>
          if now < at then
            (Ready (Inr ()), if cd_sender d then d\<lparr>cd_scheduled := cd_scheduled d @ [(at, env)]\<rparr> else d)
          else cd_enqueue d env
      | None \<Rightarrow> cd_enqueue d env)"

definition cd_try_dispatch ::
    "datetime \<Rightarrow> ('r, 'v, 'w) channel_dispatcher \<Rightarrow> 'v envelope \<Rightarrow>
       (try_publish_error + unit) \<times> ('r, 'v, 'w) channel_dispatcher" where
  "cd_try_dispatch now d0 env =
     (if \<not> cd_running d0 then (Inl NotRunning, d0)
      else if deliver_at (metadata env) \<noteq> None then (Inl TryBackpressure, d0)
      else if \<not> cd_sender d0 then (Inl TryShuttingDown, d0)
      else
        let d = record_queue_size d0
        in case chan_try_send (cd_queue d) env of
             (Sent, q) \<Rightarrow> (Inr (), d\<lparr>cd_queue := q\<rparr>)
           | (Full, q) \<Rightarrow> (Inl TryBackpressure, d\<lparr>cd_dispatch_errors := cd_dispatch_errors d + 1\<rparr>)
           | (Disconnected, q) \<Rightarrow> (Inl TryShuttingDown, d))"

section \<open>The worker\<close>

text \<open>
  The worker takes an envelope and starts its dispatch; one whose sends all complete at once is
  counted, the others stay in flight until the queues have room or the timeout strikes. An envelope
  taken after \<open>stop\<close> ends the worker, and with it the queue.
\<close>

definition cd_count_success :: "u64 \<Rightarrow> ('r, 'v, 'w) channel_dispatcher \<Rightarrow> ('r, 'v, 'w) channel_dispatcher" where
  "cd_count_success us d =
     d\<lparr>cd_inflight := None, cd_events_dispatched := cd_events_dispatched d + 1,
       cd_total_dispatch_time_us := cd_total_dispatch_time_us d + us\<rparr>"

definition cd_end_worker :: "('r, 'v, 'w) channel_dispatcher \<Rightarrow> ('r, 'v, 'w) channel_dispatcher" where
  "cd_end_worker d =
     d\<lparr>cd_worker := False, cd_queue := (cd_queue d)\<lparr>chan_buffer := [], chan_open := False\<rparr>\<rparr>"

definition worker_take ::
    "('r, 'v) registry_vtable \<Rightarrow> u64 \<Rightarrow> ('r, 'v, 'w) channel_dispatcher \<Rightarrow>
       ('r, 'v, 'w) channel_dispatcher option" where
  "worker_take V us d =
     (if \<not> cd_worker d \<or> cd_inflight d \<noteq> None then None
      else case chan_recv (cd_queue d) of
        (None, _) \<Rightarrow> None
      | (Some env, q) \<Rightarrow>
          if \<not> cd_running d then Some (cd_end_worker d)
          else
            let d1 = d\<lparr>cd_queue := q\<rparr>;
                (waiting, m) = poll_sends env (dispatch_targets V (cd_manager d1) env) (cd_manager d1);
                d2 = d1\<lparr>cd_manager := m\<rparr>
            in Some (if waiting = [] then cd_count_success us d2
                     else d2\<lparr>cd_inflight := Some (env, waiting)\<rparr>))"

definition worker_poll :: "u64 \<Rightarrow> ('r, 'v, 'w) channel_dispatcher \<Rightarrow> ('r, 'v, 'w) channel_dispatcher option" where
  "worker_poll us d =
     (case cd_inflight d of
        None \<Rightarrow> None
      | Some (env, waiting) \<Rightarrow>
          let (waiting', m) = poll_sends env waiting (cd_manager d);
              d1 = d\<lparr>cd_manager := m\<rparr>
          in Some (if waiting' = [] then cd_count_success us d1
                   else d1\<lparr>cd_inflight := Some (env, waiting')\<rparr>))"

definition worker_timeout :: "('r, 'v, 'w) channel_dispatcher \<Rightarrow> ('r, 'v, 'w) channel_dispatcher option" where
  "worker_timeout d =
     (if cd_inflight d \<noteq> None \<and> 0 < dc_processing_timeout_ms (cd_config d)
      then Some (d\<lparr>cd_inflight := None, cd_dispatch_errors := cd_dispatch_errors d + 1\<rparr>)
      else None)"

text \<open>A scheduled event whose time has come is put on the queue, or lost when the queue is closed.\<close>

definition fire_scheduled ::
    "datetime \<Rightarrow> nat \<Rightarrow> ('r, 'v, 'w) channel_dispatcher \<Rightarrow> ('r, 'v, 'w) channel_dispatcher option" where
  "fire_scheduled now i d =
     (if i < length (cd_scheduled d) \<and> fst (cd_scheduled d ! i) \<le> now
      then (case chan_send (cd_queue d) (snd (cd_scheduled d ! i)) of
              (Pending, _) \<Rightarrow> None
            | (Ready _, q) \<Rightarrow>
                Some (d\<lparr>cd_queue := q,
                  cd_scheduled := take i (cd_scheduled d) @ drop (Suc i) (cd_scheduled d)\<rparr>))
      else None)"

section \<open>Stopping\<close>

text \<open>
  \<open>stop\<close> lowers the flag and drops its sender, then waits five seconds for the worker. A worker
  that ends in time (with no dispatch in flight) takes what is left in the queue with it.
\<close>

definition cd_stop_begin :: "('r, 'v, 'w) channel_dispatcher \<Rightarrow> ('r, 'v, 'w) channel_dispatcher" where
  "cd_stop_begin d = (if cd_running d then d\<lparr>cd_running := False, cd_sender := False\<rparr> else d)"

definition cd_stop_finish ::
    "bool \<Rightarrow> ('r, 'v, 'w) channel_dispatcher \<Rightarrow> (unit result \<times> ('r, 'v, 'w) channel_dispatcher) option" where
  "cd_stop_finish in_time d =
     (if \<not> cd_worker d then Some (Inr (), d)
      else if \<not> in_time then Some (Inl (internal ''Worker shutdown timeout''), d)
      else if cd_inflight d \<noteq> None then None
      else Some (Inr (), cd_end_worker d))"

text \<open>
  The graceful shutdown drops its sender and waits for the worker, which ends when every sender is
  gone (the scheduled tasks hold clones) and the queue is empty.
\<close>

definition cd_shutdown_begin :: "('r, 'v, 'w) channel_dispatcher \<Rightarrow> ('r, 'v, 'w) channel_dispatcher" where
  "cd_shutdown_begin d = d\<lparr>cd_sender := False\<rparr>"

definition cd_shutdown_finish ::
    "('r, 'v, 'w) channel_dispatcher \<Rightarrow> (unit result \<times> ('r, 'v, 'w) channel_dispatcher) option" where
  "cd_shutdown_finish d =
     (if cd_worker d \<and> (chan_buffer (cd_queue d) \<noteq> [] \<or> cd_scheduled d \<noteq> [] \<or> cd_inflight d \<noteq> None)
      then None
      else Some (Inr (), (cd_end_worker d)\<lparr>cd_running := False\<rparr>))"

definition cd_is_running :: "('r, 'v, 'w) channel_dispatcher \<Rightarrow> bool" where
  "cd_is_running d = cd_running d"

definition cd_stats :: "('r, 'v, 'w) channel_dispatcher \<Rightarrow> dispatcher_stats" where
  "cd_stats d =
     \<lparr>ds_events_dispatched = cd_events_dispatched d,
      ds_queue_size = (if cd_sender d then chan_len (cd_queue d) else 0),
      ds_dispatch_errors = cd_dispatch_errors d,
      ds_avg_dispatch_time_us =
        (if cd_events_dispatched d = 0 then 0
         else cd_total_dispatch_time_us d div cd_events_dispatched d),
      ds_max_queue_size = unat (cd_max_queue_size d)\<rparr>"

definition channel_vtable :: "(('r, 'v, 'w) channel_dispatcher, 'v) dispatcher_vtable" where
  "channel_vtable =
     \<lparr>dv_start = (\<lambda>d. Done (cd_start d)), dv_stop_begin = cd_stop_begin, dv_stop_finish = cd_stop_finish,
      dv_shutdown_begin = cd_shutdown_begin, dv_shutdown_finish = cd_shutdown_finish, dv_dispatch = cd_dispatch, dv_try_dispatch = cd_try_dispatch,
      dv_replay_pending = provided_replay_pending, dv_replay_dlq = provided_replay_dlq,
      dv_is_running = cd_is_running, dv_stats = cd_stats\<rparr>"

lemma channel_vtable_sel [simp]:
  "dv_start channel_vtable d = Done (cd_start d)" "dv_stop_begin channel_vtable = cd_stop_begin"
  "dv_stop_finish channel_vtable = cd_stop_finish" "dv_shutdown_begin channel_vtable = cd_shutdown_begin"
  "dv_shutdown_finish channel_vtable = cd_shutdown_finish" "dv_dispatch channel_vtable = cd_dispatch"
  "dv_try_dispatch channel_vtable = cd_try_dispatch" "dv_is_running channel_vtable = cd_is_running"
  "dv_replay_pending channel_vtable = provided_replay_pending"
  "dv_replay_dlq channel_vtable = provided_replay_dlq" "dv_stats channel_vtable = cd_stats"
  by (simp_all add: channel_vtable_def)

section \<open>The interface\<close>

lemma record_queue_size_sel [simp]:
  "cd_running (record_queue_size d) = cd_running d" "cd_sender (record_queue_size d) = cd_sender d"
  "cd_queue (record_queue_size d) = cd_queue d" "cd_config (record_queue_size d) = cd_config d"
  "cd_scheduled (record_queue_size d) = cd_scheduled d" "cd_manager (record_queue_size d) = cd_manager d"
  "cd_dispatch_errors (record_queue_size d) = cd_dispatch_errors d"
  by (simp_all add: record_queue_size_def Let_def)

text \<open>What the dispatcher holds: the queue; events that wait for their time apart.\<close>

lemma cd_enqueue_cases:
  "cd_enqueue d env = (r, d') \<Longrightarrow>
     (chan_buffer (cd_queue d') = chan_buffer (cd_queue d) \<or>
      chan_buffer (cd_queue d') = chan_buffer (cd_queue d) @ [env]) \<and>
     cd_running d' = cd_running d"
  by (auto simp: cd_enqueue_def Let_def chan_send_def chan_try_send_def split: if_splits)

lemma cd_try_dispatch_cases:
  "cd_try_dispatch now d env = (r, d') \<Longrightarrow>
     (chan_buffer (cd_queue d') = chan_buffer (cd_queue d) \<or>
      chan_buffer (cd_queue d') = chan_buffer (cd_queue d) @ [env]) \<and>
     cd_running d' = cd_running d"
  by (auto simp: cd_try_dispatch_def Let_def chan_try_send_def split: if_splits)

interpretation chan_disp: event_dispatcher channel_vtable "\<lambda>d. chan_buffer (cd_queue d)"
proof (unfold_locales, simp_all add: channel_vtable_def cd_is_running_def cd_stop_begin_def cd_shutdown_begin_def)
  fix now d env
  show "\<not> cd_running d \<Longrightarrow> \<exists>e. cd_dispatch now d env = (Ready (Inl e), d)"
    by (simp add: cd_dispatch_def)
  show "\<not> cd_running d \<Longrightarrow> cd_try_dispatch now d env = (Inl NotRunning, d)"
    by (simp add: cd_try_dispatch_def)
  fix r d'
  show "cd_dispatch now d env = (r, d') \<Longrightarrow>
      chan_buffer (cd_queue d') = chan_buffer (cd_queue d) \<or>
      chan_buffer (cd_queue d') = chan_buffer (cd_queue d) @ [env]"
    by (auto simp: cd_dispatch_def dest: cd_enqueue_cases split: option.splits if_splits)
next
  fix now d env r d'
  show "cd_try_dispatch now d env = (r, d') \<Longrightarrow>
      chan_buffer (cd_queue d') = chan_buffer (cd_queue d) \<or>
      chan_buffer (cd_queue d') = chan_buffer (cd_queue d) @ [env]"
    by (auto dest: cd_try_dispatch_cases)
next
  fix now d env
  show "cd_running (snd (cd_dispatch now d env)) = cd_running d"
    using cd_enqueue_cases [OF prod.collapse [symmetric], of d env]
    by (simp add: cd_dispatch_def split: option.splits)
  show "cd_running (snd (cd_try_dispatch now d env)) = cd_running d"
    using cd_try_dispatch_cases [OF prod.collapse [symmetric], of now d env] by simp
qed

section \<open>Facts\<close>

lemma cd_try_dispatch_due:
  assumes "cd_running d" "cd_sender d" "chan_open (cd_queue d)" "deliver_at (metadata env) = None"
  shows "cd_try_dispatch now d env =
    (if length (chan_buffer (cd_queue d)) < chan_capacity (cd_queue d)
     then (Inr (), (record_queue_size d)\<lparr>cd_queue := snd (chan_try_send (cd_queue d) env)\<rparr>)
     else (Inl TryBackpressure, (record_queue_size d)\<lparr>cd_dispatch_errors := cd_dispatch_errors d + 1\<rparr>))"
  using assms by (simp add: cd_try_dispatch_def chan_try_send_def Let_def)

lemma try_all_due:
  assumes "cd_running d" "cd_sender d" "chan_open (cd_queue d)"
    and "length (chan_buffer (cd_queue d)) \<le> chan_capacity (cd_queue d)"
    and "\<forall>env\<in>set envs. deliver_at (metadata env) = None"
  shows "chan_buffer (cd_queue (chan_disp.try_all now d envs)) = chan_buffer (cd_queue d) @
      take (chan_capacity (cd_queue d) - length (chan_buffer (cd_queue d))) envs \<and>
    cd_dispatch_errors (chan_disp.try_all now d envs) = cd_dispatch_errors d +
      of_nat (length envs - (chan_capacity (cd_queue d) - length (chan_buffer (cd_queue d))))"
  using assms
proof (induction envs arbitrary: d)
  case Nil
  then show ?case by simp
next
  case (Cons env envs)
  let ?d = "snd (cd_try_dispatch now d env)"
  have step: "cd_try_dispatch now d env =
    (if length (chan_buffer (cd_queue d)) < chan_capacity (cd_queue d)
     then (Inr (), (record_queue_size d)\<lparr>cd_queue := snd (chan_try_send (cd_queue d) env)\<rparr>)
     else (Inl TryBackpressure, (record_queue_size d)\<lparr>cd_dispatch_errors := cd_dispatch_errors d + 1\<rparr>))"
    using Cons.prems by (intro cd_try_dispatch_due) simp_all
  show ?case
  proof (cases "length (chan_buffer (cd_queue d)) < chan_capacity (cd_queue d)")
    case True
    let ?n = "chan_capacity (cd_queue d) - length (chan_buffer (cd_queue d))"
    have q: "cd_queue ?d = (cd_queue d)\<lparr>chan_buffer := chan_buffer (cd_queue d) @ [env]\<rparr>"
      using True Cons.prems(3) by (simp add: step chan_try_send_def)
    have n: "?n = Suc (chan_capacity (cd_queue d) - Suc (length (chan_buffer (cd_queue d))))"
      using True by simp
    have "chan_buffer (cd_queue (chan_disp.try_all now ?d envs)) = chan_buffer (cd_queue ?d) @
        take (chan_capacity (cd_queue ?d) - length (chan_buffer (cd_queue ?d))) envs \<and>
      cd_dispatch_errors (chan_disp.try_all now ?d envs) = cd_dispatch_errors ?d +
        of_nat (length envs - (chan_capacity (cd_queue ?d) - length (chan_buffer (cd_queue ?d))))"
      using Cons.prems True by (intro Cons.IH) (simp_all add: step chan_try_send_def)
    moreover have "cd_dispatch_errors ?d = cd_dispatch_errors d"
      using True by (simp add: step)
    ultimately show ?thesis
      by (simp add: q n)
  next
    case False
    have "chan_buffer (cd_queue (chan_disp.try_all now ?d envs)) = chan_buffer (cd_queue ?d) @
        take (chan_capacity (cd_queue ?d) - length (chan_buffer (cd_queue ?d))) envs \<and>
      cd_dispatch_errors (chan_disp.try_all now ?d envs) = cd_dispatch_errors ?d +
        of_nat (length envs - (chan_capacity (cd_queue ?d) - length (chan_buffer (cd_queue ?d))))"
      using Cons.prems False by (intro Cons.IH) (simp_all add: step)
    then show ?thesis
      using False Cons.prems(4) by (simp add: step)
  qed
qed

text \<open>With room in the queue, both publications of an event due now do the same.\<close>

lemma cd_dispatch_room:
  assumes "cd_running d" "cd_sender d" "chan_open (cd_queue d)"
    and "length (chan_buffer (cd_queue d)) < chan_capacity (cd_queue d)"
    and "deliver_at (metadata env) = None"
  shows "cd_dispatch now d env = (Ready (Inr ()), (record_queue_size d)\<lparr>cd_queue :=
      (cd_queue d)\<lparr>chan_buffer := chan_buffer (cd_queue d) @ [env]\<rparr>\<rparr>)"
    "cd_try_dispatch now d env = (Inr (), (record_queue_size d)\<lparr>cd_queue :=
      (cd_queue d)\<lparr>chan_buffer := chan_buffer (cd_queue d) @ [env]\<rparr>\<rparr>)"
  using assms
  by (simp_all add: cd_dispatch_def cd_try_dispatch_def cd_enqueue_def chan_send_room chan_try_send_def Let_def)

text \<open>The worker, run until its queue is empty.\<close>

fun worker_run ::
    "('r, 'v) registry_vtable \<Rightarrow> nat \<Rightarrow> ('r, 'v, 'w) channel_dispatcher \<Rightarrow>
       ('r, 'v, 'w) channel_dispatcher option" where
  "worker_run V 0 d = Some d"
| "worker_run V (Suc n) d =
     (case worker_take V 0 d of None \<Rightarrow> None | Some d' \<Rightarrow> worker_run V n d')"

definition room_for :: "nat \<Rightarrow> ('r, 'v, 'w) manager \<Rightarrow> bool" where
  "room_for n m \<longleftrightarrow> (\<forall>i t. map_of (m_subscriptions m) i = Some t \<longrightarrow>
     chan_open (task_queue t) \<and> length (chan_buffer (task_queue t)) + n \<le> chan_capacity (task_queue t))"

lemma room_for_le:
  "room_for n m \<Longrightarrow> map_of (m_subscriptions m) i = Some t \<Longrightarrow>
     chan_open (task_queue t) \<and> length (chan_buffer (task_queue t)) + n \<le> chan_capacity (task_queue t)"
  unfolding room_for_def by blast

lemma room_forD:
  assumes "room_for (Suc n) m" "map_of (m_subscriptions m) i = Some t"
  shows "chan_open (task_queue t) \<and> length (chan_buffer (task_queue t)) < chan_capacity (task_queue t)"
proof -
  show ?thesis using room_for_le [OF assms] by simp
qed

definition delivered :: "'v envelope list \<Rightarrow> ('v, 'w) sub_task \<Rightarrow> ('v, 'w) sub_task" where
  "delivered envs t = t\<lparr>task_queue := (task_queue t)\<lparr>chan_buffer := chan_buffer (task_queue t) @ envs\<rparr>\<rparr>"

lemma delivered_nil [simp]: "delivered [] t = t"
  by (simp add: delivered_def)

lemma delivered_delivered [simp]: "delivered ys (delivered xs t) = delivered (xs @ ys) t"
  by (simp add: delivered_def)

lemma manager_dispatch_shared: "m_shared (snd (manager_dispatch V env m)) = m_shared m"
  by (simp add: manager_dispatch_def Let_def split_beta)

lemma dispatch_step:
  assumes "registry_inv (sh_registry (m_shared m))" "room_for (Suc n) m"
    and m'_def: "m' = snd (manager_dispatch dashmap_vtable env m)"
  shows "map_of (m_subscriptions m') i =
      map_option (delivered (if receives m env i then [env] else [])) (map_of (m_subscriptions m) i)"
    "room_for n m'" "receives m' e j = receives m e j" "m_shared m' = m_shared m"
proof -
  have room: "chan_open (task_queue t) \<and> length (chan_buffer (task_queue t)) < chan_capacity (task_queue t)"
    if "map_of (m_subscriptions m) i = Some t" for i t
    by (rule room_forD [OF assms(2) that])
  have map: "map_of (m_subscriptions m') i =
      map_option (delivered (if receives m env i then [env] else [])) (map_of (m_subscriptions m) i)" for i
    using dispatch_room(2) [OF assms(1), of env i] room
    by (cases "map_of (m_subscriptions m) i") (auto simp: m'_def delivered_def)
  then show "map_of (m_subscriptions m') i =
      map_option (delivered (if receives m env i then [env] else [])) (map_of (m_subscriptions m) i)" .
  show "room_for n m'"
    unfolding room_for_def map
  proof (intro allI impI)
    fix i t
    assume "map_option (delivered (if receives m env i then [env] else [])) (map_of (m_subscriptions m) i) = Some t"
    then obtain t0 where t0: "map_of (m_subscriptions m) i = Some t0"
        "t = delivered (if receives m env i then [env] else []) t0" by auto
    then show "chan_open (task_queue t) \<and>
        length (chan_buffer (task_queue t)) + n \<le> chan_capacity (task_queue t)"
      using room_for_le [OF assms(2) t0(1)] by (simp add: delivered_def)
  qed
  show shared: "m_shared m' = m_shared m"
    by (simp add: m'_def manager_dispatch_shared)
  show "receives m' e j = receives m e j"
    by (simp add: receives_def map shared)
qed

lemma worker_take_room:
  assumes "registry_inv (sh_registry (m_shared (cd_manager d)))" "room_for (Suc n) (cd_manager d)"
    and "cd_worker d" "cd_running d" "cd_inflight d = None" "chan_buffer (cd_queue d) = env # envs"
  shows "worker_take dashmap_vtable us d = Some (cd_count_success us
    (d\<lparr>cd_queue := (cd_queue d)\<lparr>chan_buffer := envs\<rparr>,
       cd_manager := snd (manager_dispatch dashmap_vtable env (cd_manager d))\<rparr>))"
proof -
  let ?ts = "dispatch_targets dashmap_vtable (cd_manager d) env"
  have "distinct ?ts" by (rule dash.targets_distinct [OF assms(1)])
  moreover have "fst (chan_send (task_queue t) e) = Ready True"
    if "map_of (m_subscriptions (cd_manager d)) i = Some t" for i t e
    using room_forD [OF assms(2) that] by (simp add: chan_send_room)
  ultimately have "fst (poll_sends env ?ts (cd_manager d)) = []"
    by (auto simp: poll_sends_waiting filter_empty_conv)
  moreover have "snd (poll_sends env ?ts (cd_manager d)) =
      snd (manager_dispatch dashmap_vtable env (cd_manager d))"
    by (simp add: manager_dispatch_def Let_def split_beta)
  ultimately show ?thesis
    using assms(3-6) by (simp add: worker_take_def chan_recv_def Let_def split_beta)
qed

lemma worker_run_room:
  assumes "registry_inv (sh_registry (m_shared (cd_manager d)))" "room_for (length envs) (cd_manager d)"
    and "cd_worker d" "cd_running d" "cd_inflight d = None" "chan_buffer (cd_queue d) = envs"
  shows "\<exists>d'. worker_run dashmap_vtable (length envs) d = Some d' \<and>
    chan_buffer (cd_queue d') = [] \<and>
    cd_events_dispatched d' = cd_events_dispatched d + of_nat (length envs) \<and>
    (\<forall>i. map_of (m_subscriptions (cd_manager d')) i =
       map_option (delivered (filter (\<lambda>env. receives (cd_manager d) env i) envs))
         (map_of (m_subscriptions (cd_manager d)) i)) \<and>
    map fst (m_subscriptions (cd_manager d')) = map fst (m_subscriptions (cd_manager d)) \<and>
    m_shared (cd_manager d') = m_shared (cd_manager d) \<and> cd_inflight d' = None \<and>
    cd_scheduled d' = cd_scheduled d"
  using assms
proof (induction envs arbitrary: d)
  case Nil
  then show ?case by (simp add: option.map_ident_strong)
next
  case (Cons env envs)
  let ?m' = "snd (manager_dispatch dashmap_vtable env (cd_manager d))"
  let ?d' = "cd_count_success 0 (d\<lparr>cd_queue := (cd_queue d)\<lparr>chan_buffer := envs\<rparr>, cd_manager := ?m'\<rparr>)"
  have "room_for (Suc (length envs)) (cd_manager d)" using Cons.prems(2) by simp
  note step = dispatch_step [OF Cons.prems(1) this refl]
    and take1 = worker_take_room [OF Cons.prems(1) this Cons.prems(3-6), of 0]
  have sel: "cd_manager ?d' = ?m'" "cd_worker ?d'" "cd_running ?d'" "cd_inflight ?d' = None"
    "chan_buffer (cd_queue ?d') = envs" "cd_events_dispatched ?d' = cd_events_dispatched d + 1"
    "cd_scheduled ?d' = cd_scheduled d"
    "map fst (m_subscriptions ?m') = map fst (m_subscriptions (cd_manager d))"
    using Cons.prems by (simp_all add: cd_count_success_def manager_dispatch_def Let_def split_beta)
  obtain d'' where d'': "worker_run dashmap_vtable (length envs) ?d' = Some d''"
      "chan_buffer (cd_queue d'') = []"
      "cd_events_dispatched d'' = cd_events_dispatched ?d' + of_nat (length envs)"
      "\<And>i. map_of (m_subscriptions (cd_manager d'')) i =
         map_option (delivered (filter (\<lambda>env. receives (cd_manager ?d') env i) envs))
           (map_of (m_subscriptions (cd_manager ?d')) i)"
      "map fst (m_subscriptions (cd_manager d'')) = map fst (m_subscriptions ?m')"
      "m_shared (cd_manager d'') = m_shared ?m'" "cd_inflight d'' = None"
      "cd_scheduled d'' = cd_scheduled ?d'"
    using Cons.IH [of ?d'] Cons.prems(1) step(2,4) sel(1-6) by auto
  show ?case
    using take1 d'' by (auto simp: sel step(1,3,4) option.map_comp comp_def)
qed

section \<open>Properties\<close>

text \<open>
  Non-blocking publication neither loses nor reorders: offered to a running dispatcher, due
  events fill the queue in order up to its capacity, and every refused one is counted as an error.
\<close>

lemma try_dispatch_conservation:
  assumes "cd_running d" "cd_sender d" "chan_open (cd_queue d)"
    and "length (chan_buffer (cd_queue d)) \<le> chan_capacity (cd_queue d)"
    and "\<forall>env\<in>set envs. deliver_at (metadata env) = None"
  shows "chan_buffer (cd_queue (fold (\<lambda>env d. snd (cd_try_dispatch now d env)) envs d)) =
      chan_buffer (cd_queue d) @ take (chan_capacity (cd_queue d) - length (chan_buffer (cd_queue d))) envs \<and>
    cd_dispatch_errors (fold (\<lambda>env d. snd (cd_try_dispatch now d env)) envs d) = cd_dispatch_errors d +
      of_nat (length envs - (chan_capacity (cd_queue d) - length (chan_buffer (cd_queue d))))"
proof -
  have "fold (\<lambda>env d. snd (cd_try_dispatch now d env)) envs d = chan_disp.try_all now d envs"
    by (induction envs arbitrary: d) simp_all
  then show ?thesis
    using try_all_due [OF assms, of now] by simp
qed

definition small_dispatcher :: "(nat dashmap_registry, nat, nat) channel_dispatcher" where
  "small_dispatcher =
     (case cd_new ((dispatcher_config_default 4)\<lparr>dc_max_queue_size := 2\<rparr>) echo_manager of
        Done d \<Rightarrow> snd (cd_start d) | Panic \<Rightarrow> undefined)"

lemma small_dispatcher_sel [simp]:
  "cd_running small_dispatcher" "cd_sender small_dispatcher" "cd_worker small_dispatcher"
  "cd_inflight small_dispatcher = None" "cd_manager small_dispatcher = echo_manager"
  "cd_queue small_dispatcher = \<lparr>chan_capacity = 2, chan_buffer = [], chan_open = True\<rparr>"
  "cd_dispatch_errors small_dispatcher = 0" "cd_events_dispatched small_dispatcher = 0"
  "cd_config small_dispatcher = (dispatcher_config_default 4)\<lparr>dc_max_queue_size := 2\<rparr>"
  by (simp_all add: small_dispatcher_def cd_new_def chan_new_def cd_start_def)

lemma echo_due: "deliver_at (metadata (echo_env v)) = None"
  by (simp add: echo_env_def envelope_new_def metadata_new_def)

lemma try_dispatch_conservation_example:
  "chan_buffer (cd_queue (fold (\<lambda>env d. snd (cd_try_dispatch 0 d env)) [echo_env 1, echo_env 2, echo_env 3]
     small_dispatcher)) = [echo_env 1, echo_env 2]"
  using try_dispatch_conservation [of small_dispatcher "[echo_env 1, echo_env 2, echo_env 3]" 0]
  by (simp add: echo_due numeral_2_eq_2)

text \<open>
  A scheduled event is always refused by the non-blocking call as backpressure, even when it is
  due and the queue is empty, while the awaiting call accepts it at once.
\<close>

lemma try_dispatch_refuses_scheduled:
  assumes "cd_running d" "cd_sender d" "chan_open (cd_queue d)"
    and "length (chan_buffer (cd_queue d)) < chan_capacity (cd_queue d)"
    and "deliver_at (metadata env) = Some at"
  shows "cd_try_dispatch now d env = (Inl TryBackpressure, d) \<and>
    fst (cd_dispatch now d env) = Ready (Inr ()) \<and>
    (if now < at then cd_scheduled (snd (cd_dispatch now d env)) = cd_scheduled d @ [(at, env)]
     else chan_buffer (cd_queue (snd (cd_dispatch now d env))) = chan_buffer (cd_queue d) @ [env])"
  using assms
  by (simp add: cd_try_dispatch_def cd_dispatch_def cd_enqueue_def chan_send_room Let_def chan_try_send_def)

lemma try_dispatch_refuses_scheduled_example:
  "cd_try_dispatch 9 small_dispatcher ((echo_env 4)\<lparr>metadata := (metadata_new 1 0)\<lparr>deliver_at := Some 5\<rparr>\<rparr>)
     = (Inl TryBackpressure, small_dispatcher)"
  using try_dispatch_refuses_scheduled [of small_dispatcher
      "(echo_env 4)\<lparr>metadata := (metadata_new 1 0)\<lparr>deliver_at := Some 5\<rparr>\<rparr>" 5 9]
  by simp

text \<open>
  End to end, the single worker preserves the publication order for every subscriber: working
  off the queue appends to each subscription's queue exactly the envelopes it is interested in, in
  the order of the dispatcher's queue, and counts every one of them.
\<close>

lemma worker_preserves_order:
  assumes "registry_inv (sh_registry (m_shared (cd_manager d)))"
    and "room_for (length (chan_buffer (cd_queue d))) (cd_manager d)"
    and "cd_worker d" "cd_running d" "cd_inflight d = None"
  shows "\<exists>d'. worker_run dashmap_vtable (length (chan_buffer (cd_queue d))) d = Some d' \<and>
    chan_buffer (cd_queue d') = [] \<and>
    cd_events_dispatched d' = cd_events_dispatched d + of_nat (length (chan_buffer (cd_queue d))) \<and>
    (\<forall>i. map_of (m_subscriptions (cd_manager d')) i =
       map_option (delivered (filter (\<lambda>env. receives (cd_manager d) env i) (chan_buffer (cd_queue d))))
         (map_of (m_subscriptions (cd_manager d)) i))"
  using worker_run_room [OF assms refl] by blast

lemma worker_preserves_order_example:
  "\<exists>d' t. worker_run dashmap_vtable (Suc (Suc 0)) (small_dispatcher\<lparr>cd_queue :=
       \<lparr>chan_capacity = 2, chan_buffer = [echo_env 1, echo_env 2], chan_open = True\<rparr>\<rparr>) = Some d' \<and>
     map_of (m_subscriptions (cd_manager d')) 1 = Some t \<and>
     chan_buffer (task_queue t) = [echo_env 1, echo_env 2]"
proof -
  have room: "room_for (Suc (Suc 0)) echo_manager"
    by (simp add: room_for_def)
  show ?thesis
    using worker_preserves_order [of "small_dispatcher\<lparr>cd_queue :=
       \<lparr>chan_capacity = 2, chan_buffer = [echo_env 1, echo_env 2], chan_open = True\<rparr>\<rparr>"] room
    by (auto simp: echo_registry delivered_def echo_receives simp del: worker_run.simps)
qed

text \<open>
  With \<open>drop_on_full\<close>, a publication into a full queue reports success although the event is
  nowhere in the dispatcher; only an error counter tells.
\<close>

lemma drop_on_full_is_silent:
  assumes "cd_running d" "cd_sender d" "chan_open (cd_queue d)" "dc_drop_on_full (cd_config d)"
    and "chan_capacity (cd_queue d) \<le> length (chan_buffer (cd_queue d))"
    and "case deliver_at (metadata env) of None \<Rightarrow> True | Some at \<Rightarrow> at \<le> now"
  shows "fst (cd_dispatch now d env) = Ready (Inr ()) \<and>
    cd_queue (snd (cd_dispatch now d env)) = cd_queue d \<and>
    cd_scheduled (snd (cd_dispatch now d env)) = cd_scheduled d \<and>
    cd_dispatch_errors (snd (cd_dispatch now d env)) = cd_dispatch_errors d + 1"
  using assms
  by (simp add: cd_dispatch_def cd_enqueue_def chan_try_send_def Let_def split: option.splits)

lemma drop_on_full_is_silent_example:
  "fst (cd_dispatch 0 (small_dispatcher\<lparr>cd_config := dispatcher_config_default 4\<lparr>dc_drop_on_full := True\<rparr>,
     cd_queue := \<lparr>chan_capacity = 1, chan_buffer = [echo_env 1], chan_open = True\<rparr>\<rparr>) (echo_env 2)) = Ready (Inr ())"
  using drop_on_full_is_silent [of "small_dispatcher\<lparr>cd_config := dispatcher_config_default 4\<lparr>dc_drop_on_full := True\<rparr>,
     cd_queue := \<lparr>chan_capacity = 1, chan_buffer = [echo_env 1], chan_open = True\<rparr>\<rparr>" 0 "echo_env 2"]
  by (simp add: echo_due)

end
