(* ===== verification/Redb_Store.thy ===== *)
theory Redb_Store
  imports DashMap_Registry
begin

text \<open>
  The durable side of the persistent dispatcher (src/src/persistence/redb.rs): its five tables as
  association lists, the effect of each transaction on them, and the registry that intercepts
  acknowledgements. The JSON coding of a stored envelope is a parameter; whether a transaction
  succeeds is an argument where the code reacts to it.
\<close>

section \<open>Stored envelopes and tables\<close>

record persisted_envelope =
  pe_type_name :: string
  pe_metadata :: event_metadata
  pe_priority :: event_priority
  pe_payload :: bytes

record pe_codec =
  pe_encode :: "persisted_envelope \<Rightarrow> bytes result"
  pe_decode :: "bytes \<Rightarrow> persisted_envelope option"

text \<open>The documented behaviour the code relies on: what was encoded is decoded to the same value.\<close>

definition pe_codec_ok :: "pe_codec \<Rightarrow> bool" where
  "pe_codec_ok C \<longleftrightarrow> (\<forall>pe bs. pe_encode C pe = Inr bs \<longrightarrow> pe_decode C bs = Some pe)"

record redb_store =
  tb_events :: "(u128 \<times> bytes) list"
  tb_refcount :: "(u128 \<times> u32) list"
  tb_scheduled :: "((u64 \<times> u128) \<times> bytes) list"
  tb_processed_keys :: "(string \<times> u8) list"
  tb_dlq :: "(u128 \<times> bytes) list"

definition store_empty :: redb_store where
  "store_empty =
     \<lparr>tb_events = [], tb_refcount = [], tb_scheduled = [], tb_processed_keys = [], tb_dlq = []\<rparr>"

section \<open>Acknowledgements\<close>

text \<open>
  The background worker's transaction for one acknowledgement. The last one removes the event, and
  keeps its payload in the dead letter table when that acknowledgement is a failure.
\<close>

definition ack_store :: "u128 \<Rightarrow> bool \<Rightarrow> redb_store \<Rightarrow> redb_store" where
  "ack_store eid success s =
     (case map_of (tb_refcount s) eid of
        None \<Rightarrow> s
      | Some n \<Rightarrow>
          if n \<le> 1 then
            (let s1 = s\<lparr>tb_refcount := mdel eid (tb_refcount s)\<rparr>;
                 s2 = (if \<not> success
                       then (case map_of (tb_events s1) eid of
                               Some bs \<Rightarrow> s1\<lparr>tb_dlq := mput eid bs (tb_dlq s1)\<rparr>
                             | None \<Rightarrow> s1)
                       else s1)
             in s2\<lparr>tb_events := mdel eid (tb_events s2)\<rparr>)
          else s\<lparr>tb_refcount := mput eid (n - 1) (tb_refcount s)\<rparr>)"

text \<open>The registry: the in-memory one, and the queue of acknowledgements for the worker.\<close>

record 'v redb_registry =
  rr_inner :: "'v dashmap_registry"
  rr_acks :: "(uuid \<times> bool) list"

definition redb_registry_new :: "'v dashmap_registry \<Rightarrow> 'v redb_registry" where
  "redb_registry_new r = \<lparr>rr_inner = r, rr_acks = []\<rparr>"

definition on_inner ::
    "('v dashmap_registry \<Rightarrow> 'b \<times> 'v dashmap_registry) \<Rightarrow> 'v redb_registry \<Rightarrow> 'b \<times> 'v redb_registry" where
  "on_inner f r = (let (x, i) = f (rr_inner r) in (x, r\<lparr>rr_inner := i\<rparr>))"

definition redb_ack_event :: "'v redb_registry \<Rightarrow> uuid \<Rightarrow> uuid \<Rightarrow> 'v redb_registry" where
  "redb_ack_event r sid eid = r\<lparr>rr_acks := rr_acks r @ [(eid, True)]\<rparr>"

definition redb_mark_failed :: "'v redb_registry \<Rightarrow> uuid \<Rightarrow> uuid \<Rightarrow> unit result \<times> 'v redb_registry" where
  "redb_mark_failed r sid eid = (Inr (), r\<lparr>rr_acks := rr_acks r @ [(eid, False)]\<rparr>)"

text \<open>Every method is forwarded, except the lookups by topic, which stay the provided ones.\<close>

definition redb_vtable :: "('v redb_registry, 'v) registry_vtable" where
  "redb_vtable =
     \<lparr>vt_register = (\<lambda>r t n e. on_inner (\<lambda>i. register i t n e) r),
      vt_unregister = (\<lambda>r sid. on_inner (\<lambda>i. unregister i sid) r),
      vt_get_subscriptions = (\<lambda>r. get_subscriptions (rr_inner r)),
      vt_get_topic_subscriptions = provided_get_topic_subscriptions,
      vt_get_subscription = (\<lambda>r. get_subscription (rr_inner r)),
      vt_increment_processed = (\<lambda>r sid. r\<lparr>rr_inner := increment_processed (rr_inner r) sid\<rparr>),
      vt_mark_failed = redb_mark_failed,
      vt_deactivate = (\<lambda>r sid. on_inner (\<lambda>i. deactivate i sid) r),
      vt_total_subscriptions = (\<lambda>r. total_subscriptions (rr_inner r)),
      vt_subscription_count = (\<lambda>r. subscription_count (rr_inner r)),
      vt_topic_subscription_count =
        provided_topic_subscription_count
          (provided_get_topic_subscriptions :: 'v redb_registry \<Rightarrow> string \<Rightarrow> 'v sub_entry list),
      vt_event_types = (\<lambda>r. event_types (rr_inner r)),
      vt_clear = (\<lambda>r. r\<lparr>rr_inner := clear (rr_inner r)\<rparr>),
      vt_get_type_id = (\<lambda>r. get_type_id (rr_inner r)),
      vt_ack_event = redb_ack_event\<rparr>"

text \<open>One round of the background worker; a failed transaction leaves the tables as they were.\<close>

definition ack_worker_step ::
    "bool \<Rightarrow> 'v redb_registry \<times> redb_store \<Rightarrow> ('v redb_registry \<times> redb_store) option" where
  "ack_worker_step txn_ok rs =
     (case rr_acks (fst rs) of
        [] \<Rightarrow> None
      | (eid, success) # rest \<Rightarrow>
          Some ((fst rs)\<lparr>rr_acks := rest\<rparr>,
                if txn_ok then ack_store eid success (snd rs) else snd rs))"

section \<open>Writing a batch\<close>

text \<open>A row prepared for insertion.\<close>

record redb_insert =
  ri_id :: u128
  ri_sub_count :: u32
  ri_scheduled :: bool
  ri_deliver_at_ms :: u64
  ri_bytes :: bytes
  ri_key :: "string option"

definition apply_insert :: "redb_insert \<Rightarrow> redb_store \<Rightarrow> redb_store" where
  "apply_insert i s =
     (let s1 = (case ri_key i of
                  Some k \<Rightarrow> s\<lparr>tb_processed_keys := mput k 1 (tb_processed_keys s)\<rparr> | None \<Rightarrow> s)
      in if ri_scheduled i
         then s1\<lparr>tb_scheduled := mput (ri_deliver_at_ms i, ri_id i) (ri_bytes i) (tb_scheduled s1)\<rparr>
         else s1\<lparr>tb_events := mput (ri_id i) (ri_bytes i) (tb_events s1),
                 tb_refcount := mput (ri_id i) (ri_sub_count i) (tb_refcount s1)\<rparr>)"

definition apply_inserts :: "redb_insert list \<Rightarrow> redb_store \<Rightarrow> redb_store" where
  "apply_inserts is s = fold apply_insert is s"

section \<open>The scheduler's transaction\<close>

text \<open>The due rows in time order (those that cannot be decoded are removed too).\<close>

definition due_rows :: "u64 \<Rightarrow> redb_store \<Rightarrow> ((u64 \<times> u128) \<times> bytes) list" where
  "due_rows now_ms s = takeWhile (\<lambda>((ts, i), bs). ts \<le> now_ms)
     (sort_key (\<lambda>((ts, i), bs). unat ts * 2 ^ 128 + unat i) (tb_scheduled s))"

definition pull_due :: "pe_codec \<Rightarrow> u64 \<Rightarrow> redb_store \<Rightarrow> persisted_envelope list \<times> redb_store" where
  "pull_due C now_ms s =
     (let rows = due_rows now_ms s
      in (List.map_filter (\<lambda>(k, bs). pe_decode C bs) rows,
          s\<lparr>tb_scheduled := fold (\<lambda>(k, bs) t. mdel k t) rows (tb_scheduled s)\<rparr>))"

section \<open>Facts\<close>

lemma redb_vtable_sel [simp]:
  "vt_get_topic_subscriptions redb_vtable = provided_get_topic_subscriptions"
  "vt_get_subscriptions redb_vtable r = get_subscriptions (rr_inner r)"
  "vt_subscription_count redb_vtable r = subscription_count (rr_inner r)"
  "vt_topic_subscription_count redb_vtable r p = 0"
  "vt_get_type_id redb_vtable r = get_type_id (rr_inner r)"
  "vt_ack_event redb_vtable = redb_ack_event" "vt_mark_failed redb_vtable = redb_mark_failed"
  by (simp_all add: redb_vtable_def provided_topic_subscription_count_def
      provided_get_topic_subscriptions_def)

lemma on_inner_sel [simp]:
  "fst (on_inner f r) = fst (f (rr_inner r))" "rr_inner (snd (on_inner f r)) = snd (f (rr_inner r))"
  "rr_acks (snd (on_inner f r)) = rr_acks r"
  by (simp_all add: on_inner_def split_beta)

text \<open>The persistent registry keeps the laws of a registry, but not those of a topic registry.\<close>

interpretation redb: event_registry redb_vtable "\<lambda>r. registry_inv (rr_inner r)" "\<lambda>r. live (rr_inner r)"
    "\<lambda>r. fresh_id (rr_inner r)" valid_topic
  by unfold_locales
    (simp_all add: redb_vtable_def registry_inv_register registry_inv_unregister fresh_not_live
      live_register unregister_result live_unregister get_subscriptions_live
      distinct_get_subscriptions subscription_count_live)

lemma ack_store_other:
  "j \<noteq> eid \<Longrightarrow> map_of (tb_events (ack_store eid b s)) j = map_of (tb_events s) j"
  "j \<noteq> eid \<Longrightarrow> map_of (tb_refcount (ack_store eid b s)) j = map_of (tb_refcount s) j"
  "j \<noteq> eid \<Longrightarrow> map_of (tb_dlq (ack_store eid b s)) j = map_of (tb_dlq s) j"
  by (auto simp: ack_store_def Let_def split: option.splits)

lemma ack_store_more:
  assumes "map_of (tb_refcount s) eid = Some n" "1 < unat n"
  shows "tb_events (ack_store eid b s) = tb_events s"
    "map_of (tb_refcount (ack_store eid b s)) eid = Some (n - 1)"
    "tb_dlq (ack_store eid b s) = tb_dlq s"
  using assms by (simp_all add: ack_store_def word_le_nat_alt)

lemma ack_store_last:
  assumes "map_of (tb_refcount s) eid = Some n" "unat n \<le> 1"
  shows "map_of (tb_events (ack_store eid b s)) eid = None"
    "map_of (tb_refcount (ack_store eid b s)) eid = None"
    "map_of (tb_dlq (ack_store eid b s)) eid =
      (if b then map_of (tb_dlq s) eid
       else case map_of (tb_events s) eid of Some bs \<Rightarrow> Some bs | None \<Rightarrow> map_of (tb_dlq s) eid)"
  using assms by (auto simp: ack_store_def word_le_nat_alt Let_def split: option.splits)

text \<open>A run of acknowledgements of one event.\<close>

definition ack_run :: "u128 \<Rightarrow> bool list \<Rightarrow> redb_store \<Rightarrow> redb_store" where
  "ack_run eid bs s = fold (ack_store eid) bs s"

lemma ack_run_short:
  assumes "map_of (tb_refcount s) eid = Some n" "length bs < unat n"
  shows "map_of (tb_refcount (ack_run eid bs s)) eid = Some (n - of_nat (length bs)) \<and>
    tb_events (ack_run eid bs s) = tb_events s \<and> tb_dlq (ack_run eid bs s) = tb_dlq s"
  using assms
proof (induction bs arbitrary: s n)
  case Nil
  then show ?case by (simp add: ack_run_def)
next
  case (Cons b bs)
  have n1: "1 < unat n" using Cons.prems(2) by simp
  note more = ack_store_more [OF Cons.prems(1) n1, of b]
  have "n \<noteq> 0" using n1 by auto
  then have "length bs < unat (n - 1)"
    using Cons.prems(2) by (simp add: unat_minus_one)
  from Cons.IH [OF more(2) this] more show ?case
    by (simp add: ack_run_def algebra_simps)
qed

lemma ack_run_full:
  assumes "map_of (tb_refcount s) eid = Some n" "length bs = unat n" "0 < unat n"
    and "map_of (tb_events s) eid = Some pl"
  shows "map_of (tb_refcount (ack_run eid bs s)) eid = None \<and>
    map_of (tb_events (ack_run eid bs s)) eid = None \<and>
    map_of (tb_dlq (ack_run eid bs s)) eid = (if last bs then map_of (tb_dlq s) eid else Some pl)"
proof -
  have ne: "bs \<noteq> []" using assms(2,3) by auto
  then have bs: "bs = butlast bs @ [last bs]" by simp
  let ?s = "ack_run eid (butlast bs) s"
  have short: "length (butlast bs) < unat n" using assms(2,3) by simp
  note run = ack_run_short [OF assms(1) short]
  have "unat (n - of_nat (length (butlast bs))) = 1"
  proof -
    have k: "unat (of_nat (length (butlast bs)) :: u32) = length (butlast bs)"
      using short unat_u32_less [of n] by (simp add: unat_of_nat)
    then have "of_nat (length (butlast bs)) \<le> n"
      using short by (simp add: word_le_nat_alt)
    then show ?thesis
      using k assms(2,3) by (simp add: unat_sub)
  qed
  then have "unat (n - of_nat (length (butlast bs))) \<le> 1" by simp
  note last = ack_store_last [OF conjunct1 [OF run] this, of "last bs"]
  have "ack_run eid bs s = ack_store eid (last bs) ?s"
    by (subst bs) (simp add: ack_run_def)
  then show ?thesis
    using last run assms(4) by simp
qed

end
