(* ===== verification/Redb_Dispatcher.thy ===== *)
theory Redb_Dispatcher
  imports Dispatcher Subscription_Manager Redb_Store
begin

text \<open>
  The persistent dispatcher (src/src/persistence/redb.rs): publishers fill a bounded queue of
  messages; the worker takes up to 1000 of them, drops duplicates by idempotency key, writes the
  rest in one transaction and dispatches them; the scheduler moves due rows back to the queue; the
  replays read the tables. The outcome of a transaction is an argument.
\<close>

section \<open>State\<close>

text \<open>A message carries whether its publisher waits for the disk write.\<close>

record 'v redb_message =
  rm_envelope :: "'v envelope"
  rm_ack :: bool

record ('v, 'w) redb_dispatcher =
  rd_store :: redb_store
  rd_config :: dispatcher_config
  rd_wait :: bool
  rd_sender :: bool
  rd_receiver :: bool
  rd_queue :: "'v redb_message chan"
  rd_manager :: "('v redb_registry, 'v, 'w) manager"
  rd_worker :: bool
  rd_scheduler :: bool
  rd_batch :: "'v redb_message list"
  rd_inflight :: "('v envelope \<times> uuid list) option"
  rd_outbox :: "'v redb_message list"
  rd_told :: "uuid list"
  rd_running :: bool
  rd_replaying :: "'v redb_message list"
  rd_dead :: "u128 list"
  rd_events_dispatched :: u64
  rd_dispatch_errors :: u64
  rd_total_dispatch_time_us :: u64
  rd_max_queue_size :: u64

text \<open>\<open>rd_replaying\<close> and \<open>rd_dead\<close> belong to a running replay. \<open>rd_batch\<close> is what the worker still
  has to dispatch of its batch, \<open>rd_outbox\<close> what the scheduler still has to send, \<open>rd_told\<close> the events whose publishers were told that they are on disk.\<close>

definition rd_new ::
    "redb_store \<Rightarrow> dispatcher_config \<Rightarrow> bool \<Rightarrow> ('v redb_registry, 'v, 'w) manager \<Rightarrow>
       ('v, 'w) redb_dispatcher outcome" where
  "rd_new st cfg wait m =
     bind_outcome (chan_new (dc_max_queue_size cfg))
       (\<lambda>q. Done \<lparr>rd_store = st, rd_config = cfg, rd_wait = wait, rd_sender = True, rd_receiver = True,
          rd_queue = q, rd_manager = m, rd_worker = False, rd_scheduler = False, rd_batch = [],
          rd_inflight = None, rd_outbox = [], rd_told = [], rd_running = False,
          rd_replaying = [], rd_dead = [], rd_events_dispatched = 0, rd_dispatch_errors = 0,
          rd_total_dispatch_time_us = 0, rd_max_queue_size = 0\<rparr>)"

section \<open>Publication\<close>

text \<open>Starting unwraps the sender, which \<open>stop\<close> has taken.\<close>

definition rd_start :: "('v, 'w) redb_dispatcher \<Rightarrow> (unit result \<times> ('v, 'w) redb_dispatcher) outcome" where
  "rd_start d =
     (if rd_running d then Done (Inr (), d)
      else let d1 = d\<lparr>rd_running := True\<rparr>
           in if rd_receiver d1
              then (if rd_sender d1
                    then Done (Inr (), d1\<lparr>rd_receiver := False, rd_worker := True, rd_scheduler := True\<rparr>)
                    else Panic)
              else Done (Inr (), d1))"

definition rd_record_queue_size :: "('v, 'w) redb_dispatcher \<Rightarrow> ('v, 'w) redb_dispatcher" where
  "rd_record_queue_size d =
     (let n = of_nat (chan_len (rd_queue d))
      in if rd_max_queue_size d < n then d\<lparr>rd_max_queue_size := n\<rparr> else d)"

text \<open>
  \<open>dispatch\<close> up to the point where the message is in the queue; a publisher that waits for the disk
  is then woken by the acknowledgement, or by the message being dropped, with the same result.
\<close>

definition rd_dispatch ::
    "('v, 'w) redb_dispatcher \<Rightarrow> 'v envelope \<Rightarrow> unit result poll \<times> ('v, 'w) redb_dispatcher" where
  "rd_dispatch d0 env =
     (if \<not> rd_running d0 then (Ready (Inl (internal ''Dispatcher is not running'')), d0)
      else if \<not> rd_sender d0 then (Ready (Inl (internal ''Dispatcher not initialized'')), d0)
      else
        let d = rd_record_queue_size d0;
            msg = \<lparr>rm_envelope = env, rm_ack = rd_wait d\<rparr>
        in if dc_drop_on_full (rd_config d) then
             (case chan_try_send (rd_queue d) msg of
                (Sent, q) \<Rightarrow> (Ready (Inr ()), d\<lparr>rd_queue := q\<rparr>)
              | (_, q) \<Rightarrow> (Ready (Inl (internal ''Channel full'')), d))
           else
             (case chan_send (rd_queue d) msg of
                (Pending, q) \<Rightarrow> (Pending, d)
              | (Ready ok, q) \<Rightarrow>
                  if ok then (Ready (Inr ()), d\<lparr>rd_queue := q\<rparr>)
                  else (Ready (Inl (internal ''Channel closed'')), d)))"

definition rd_try_dispatch ::
    "('v, 'w) redb_dispatcher \<Rightarrow> 'v envelope \<Rightarrow> (try_publish_error + unit) \<times> ('v, 'w) redb_dispatcher" where
  "rd_try_dispatch d0 env =
     (if \<not> rd_running d0 then (Inl NotRunning, d0)
      else if \<not> rd_sender d0 then (Inl NotRunning, d0)
      else
        let d = rd_record_queue_size d0
        in case chan_try_send (rd_queue d) \<lparr>rm_envelope = env, rm_ack = False\<rparr> of
             (Sent, q) \<Rightarrow> (Inr (), d\<lparr>rd_queue := q\<rparr>)
           | (Full, q) \<Rightarrow> (Inl TryBackpressure, d\<lparr>rd_dispatch_errors := rd_dispatch_errors d + 1\<rparr>)
           | (Disconnected, q) \<Rightarrow> (Inl TryShuttingDown, d))"

section \<open>The worker: one batch\<close>

text \<open>The first pass: keys already stored or already seen in the batch are duplicates. The result
  is the batch that goes on and the duplicates, which are acknowledged and dropped.\<close>

fun dedup_batch ::
    "(string \<times> u8) list \<Rightarrow> string list \<Rightarrow> 'v redb_message list \<Rightarrow>
       'v redb_message list \<times> 'v redb_message list" where
  "dedup_batch processed seen [] = ([], [])"
| "dedup_batch processed seen (msg # msgs) =
     (case idempotency_key (metadata (rm_envelope msg)) of
        None \<Rightarrow> (let (vs, ds) = dedup_batch processed seen msgs in (msg # vs, ds))
      | Some k \<Rightarrow>
          if k \<in> set seen \<or> map_of processed k \<noteq> None
          then (let (vs, ds) = dedup_batch processed seen msgs in (vs, msg # ds))
          else (let (vs, ds) = dedup_batch processed (k # seen) msgs in (msg # vs, ds)))"

definition to_persisted :: "'v envelope \<Rightarrow> persisted_envelope result" where
  "to_persisted env =
     (case into_bytes env of
        Inl e \<Rightarrow> Inl e
      | Inr bs \<Rightarrow> Inr \<lparr>pe_type_name = type_name env, pe_metadata = metadata env,
                      pe_priority = priority env, pe_payload = bs\<rparr>)"

text \<open>How many acknowledgements the event will need, as the code estimates it.\<close>

definition needed_acks :: "('v redb_registry, 'v, 'w) manager \<Rightarrow> 'v envelope \<Rightarrow> u32" where
  "needed_acks m env =
     (let r = sh_registry (m_shared m);
          n = of_nat (vt_subscription_count redb_vtable r (env_type_id env))
      in case topic (metadata env) of
           Some p \<Rightarrow> n + of_nat (vt_topic_subscription_count redb_vtable r p)
         | None \<Rightarrow> n)"

definition is_scheduled :: "datetime \<Rightarrow> 'v envelope \<Rightarrow> bool" where
  "is_scheduled now env = (case deliver_at (metadata env) of Some t \<Rightarrow> now < t | None \<Rightarrow> False)"

definition timestamp_millis :: "datetime \<Rightarrow> u64" where
  "timestamp_millis t = word_of_int (t div 1000000)"

text \<open>The rows for the transaction, and the number of events that cannot be serialised.\<close>

fun prepare_inserts ::
    "pe_codec \<Rightarrow> datetime \<Rightarrow> ('v redb_registry, 'v, 'w) manager \<Rightarrow> 'v redb_message list \<Rightarrow>
       redb_insert list \<times> nat" where
  "prepare_inserts C now m [] = ([], 0)"
| "prepare_inserts C now m (msg # msgs) =
     (let env = rm_envelope msg; (is, errs) = prepare_inserts C now m msgs
      in if needed_acks m env = 0 then (is, errs)
         else case (case to_persisted env of Inl e \<Rightarrow> Inl e | Inr pe \<Rightarrow> pe_encode C pe) of
           Inl e \<Rightarrow> (is, errs + 1)
         | Inr bs \<Rightarrow>
             (\<lparr>ri_id = env_event_id env, ri_sub_count = needed_acks m env,
               ri_scheduled = is_scheduled now env,
               ri_deliver_at_ms =
                 (case deliver_at (metadata env) of Some t \<Rightarrow> timestamp_millis t | None \<Rightarrow> 0),
               ri_bytes = bs, ri_key = idempotency_key (metadata env)\<rparr> # is, errs))"

text \<open>
  The transaction runs in a task of its own: it commits, fails inside (an error of the database),
  or the task panics. Only the last of these is looked at.
\<close>

datatype persist_outcome = Committed | DbFailed | TaskPanicked

definition tell :: "'v redb_message list \<Rightarrow> uuid list" where
  "tell msgs = map (\<lambda>msg. env_event_id (rm_envelope msg)) (filter rm_ack msgs)"

definition rd_take_batch ::
    "pe_codec \<Rightarrow> datetime \<Rightarrow> persist_outcome \<Rightarrow> ('v, 'w) redb_dispatcher \<Rightarrow> ('v, 'w) redb_dispatcher option" where
  "rd_take_batch C now res d =
     (if \<not> rd_worker d \<or> rd_batch d \<noteq> [] \<or> rd_inflight d \<noteq> None \<or> chan_buffer (rd_queue d) = [] then None
      else if \<not> rd_running d
      then Some (d\<lparr>rd_worker := False, rd_queue := (rd_queue d)\<lparr>chan_buffer := [], chan_open := False\<rparr>\<rparr>)
      else
        let msgs = take 1000 (chan_buffer (rd_queue d));
            d1 = d\<lparr>rd_queue := (rd_queue d)\<lparr>chan_buffer := drop 1000 (chan_buffer (rd_queue d))\<rparr>\<rparr>;
            (valid, dups) = dedup_batch (tb_processed_keys (rd_store d1)) [] msgs;
            d2 = d1\<lparr>rd_told := rd_told d1 @ tell dups\<rparr>;
            (is, errs) = prepare_inserts C now (rd_manager d2) valid;
            d3 = d2\<lparr>rd_dispatch_errors := rd_dispatch_errors d2 + of_nat errs\<rparr>
        in Some (if is = [] then d3\<lparr>rd_batch := valid\<rparr>
                 else case res of
                   Committed \<Rightarrow> d3\<lparr>rd_store := apply_inserts is (rd_store d3), rd_batch := valid\<rparr>
                 | DbFailed \<Rightarrow> d3\<lparr>rd_batch := valid\<rparr>
                 | TaskPanicked \<Rightarrow>
                     d3\<lparr>rd_dispatch_errors := rd_dispatch_errors d3 + of_nat (length valid)\<rparr>))"

text \<open>Then, message by message: tell the publisher, leave the scheduled ones to the scheduler, and
  dispatch the others, which may wait for room.\<close>

definition rd_count_success :: "u64 \<Rightarrow> ('v, 'w) redb_dispatcher \<Rightarrow> ('v, 'w) redb_dispatcher" where
  "rd_count_success us d =
     d\<lparr>rd_inflight := None, rd_events_dispatched := rd_events_dispatched d + 1,
       rd_total_dispatch_time_us := rd_total_dispatch_time_us d + us\<rparr>"

definition rd_dispatch_next ::
    "datetime \<Rightarrow> u64 \<Rightarrow> ('v, 'w) redb_dispatcher \<Rightarrow> ('v, 'w) redb_dispatcher option" where
  "rd_dispatch_next now us d =
     (if \<not> rd_worker d \<or> rd_inflight d \<noteq> None then None
      else case rd_batch d of
        [] \<Rightarrow> None
      | msg # msgs \<Rightarrow>
          let d1 = d\<lparr>rd_batch := msgs, rd_told := rd_told d @ tell [msg]\<rparr>;
              env = rm_envelope msg
          in if is_scheduled now env then Some d1
             else
               let (waiting, m) =
                     poll_sends env (dispatch_targets redb_vtable (rd_manager d1) env) (rd_manager d1);
                   d2 = d1\<lparr>rd_manager := m\<rparr>
               in Some (if waiting = [] then rd_count_success us d2
                        else d2\<lparr>rd_inflight := Some (env, waiting)\<rparr>))"

definition rd_worker_poll :: "u64 \<Rightarrow> ('v, 'w) redb_dispatcher \<Rightarrow> ('v, 'w) redb_dispatcher option" where
  "rd_worker_poll us d =
     (case rd_inflight d of
        None \<Rightarrow> None
      | Some (env, waiting) \<Rightarrow>
          let (waiting', m) = poll_sends env waiting (rd_manager d);
              d1 = d\<lparr>rd_manager := m\<rparr>
          in Some (if waiting' = [] then rd_count_success us d1
                   else d1\<lparr>rd_inflight := Some (env, waiting')\<rparr>))"

definition rd_worker_timeout :: "('v, 'w) redb_dispatcher \<Rightarrow> ('v, 'w) redb_dispatcher option" where
  "rd_worker_timeout d =
     (if rd_inflight d \<noteq> None \<and> 0 < dc_processing_timeout_ms (rd_config d)
      then Some (d\<lparr>rd_inflight := None, rd_dispatch_errors := rd_dispatch_errors d + 1\<rparr>)
      else None)"

section \<open>The scheduler\<close>

definition rebuild :: "type_id \<Rightarrow> persisted_envelope \<Rightarrow> 'v redb_message" where
  "rebuild t pe =
     \<lparr>rm_envelope = from_serialized t (pe_type_name pe) (pe_metadata pe) (pe_priority pe) (pe_payload pe),
      rm_ack = False\<rparr>"

definition unschedule :: "persisted_envelope \<Rightarrow> persisted_envelope" where
  "unschedule pe = pe\<lparr>pe_metadata := (pe_metadata pe)\<lparr>deliver_at := None\<rparr>\<rparr>"

text \<open>The type of a stored event, when it is known and has subscribers.\<close>

definition subscribed_type :: "'v redb_registry \<Rightarrow> persisted_envelope \<Rightarrow> type_id option" where
  "subscribed_type r pe =
     (case vt_get_type_id redb_vtable r (pe_type_name pe) of
        Some t \<Rightarrow> if 0 < vt_subscription_count redb_vtable r t then Some t else None
      | None \<Rightarrow> None)"

definition rd_scheduler_tick ::
    "pe_codec \<Rightarrow> datetime \<Rightarrow> bool \<Rightarrow> ('v, 'w) redb_dispatcher \<Rightarrow> ('v, 'w) redb_dispatcher option" where
  "rd_scheduler_tick C now txn_ok d =
     (if \<not> rd_scheduler d \<or> rd_outbox d \<noteq> [] then None
      else if \<not> rd_running d then Some (d\<lparr>rd_scheduler := False\<rparr>)
      else if \<not> txn_ok then Some d
      else
        let (pes, st) = pull_due C (timestamp_millis now) (rd_store d);
            r = sh_registry (m_shared (rd_manager d))
        in Some (d\<lparr>rd_store := st,
             rd_outbox := List.map_filter
               (\<lambda>pe. map_option (\<lambda>t. rebuild t (unschedule pe)) (subscribed_type r pe)) pes\<rparr>))"

definition rd_scheduler_send :: "('v, 'w) redb_dispatcher \<Rightarrow> ('v, 'w) redb_dispatcher option" where
  "rd_scheduler_send d =
     (case rd_outbox d of
        [] \<Rightarrow> None
      | msg # msgs \<Rightarrow>
          (case chan_send (rd_queue d) msg of
             (Pending, _) \<Rightarrow> None
           | (Ready _, q) \<Rightarrow> Some (d\<lparr>rd_queue := q, rd_outbox := msgs\<rparr>)))"

section \<open>Replays\<close>

text \<open>
  Replay of the dead letter table: the decodable rows leave the table in one committed transaction,
  then each one of a known type is offered to the queue without waiting, and counted.
\<close>

definition send_replayed :: "'v redb_message chan \<Rightarrow> 'v redb_message list \<Rightarrow> 'v redb_message chan" where
  "send_replayed q msgs = fold (\<lambda>msg q. snd (chan_try_send q msg)) msgs q"

definition dlq_rows :: "pe_codec \<Rightarrow> redb_store \<Rightarrow> (u128 \<times> persisted_envelope) list" where
  "dlq_rows C s =
     List.map_filter (\<lambda>(i, bs). map_option (Pair i) (pe_decode C bs)) (table_iter (tb_dlq s))"

definition take_dead_letters :: "pe_codec \<Rightarrow> redb_store \<Rightarrow> redb_store" where
  "take_dead_letters C s =
     s\<lparr>tb_dlq := fold (\<lambda>(i, pe) t. mdel i t) (dlq_rows C s) (tb_dlq s)\<rparr>"

definition rd_replay_dlq ::
    "pe_codec \<Rightarrow> string option \<Rightarrow> ('v, 'w) redb_dispatcher \<Rightarrow> nat result \<times> ('v, 'w) redb_dispatcher" where
  "rd_replay_dlq C txn_error d =
     (if \<not> rd_sender d then (Inl (internal ''Dispatcher not initialized''), d)
      else case txn_error of
        Some e \<Rightarrow> (Inl (internal e), d)
      | None \<Rightarrow>
          let rows = dlq_rows C (rd_store d);
              st = take_dead_letters C (rd_store d);
              r = sh_registry (m_shared (rd_manager d));
              msgs = List.map_filter
                (\<lambda>(i, pe). map_option (\<lambda>t. rebuild t pe) (vt_get_type_id redb_vtable r (pe_type_name pe))) rows
          in (Inr (length msgs), d\<lparr>rd_store := st, rd_queue := send_replayed (rd_queue d) msgs\<rparr>))"

text \<open>
  Replay of the pending events: each row with a positive count is sent again when its type has
  subscribers, waiting for room; otherwise, or when it cannot be read, it is garbage.
\<close>

datatype 'v row_fate = Resend "'v redb_message" | Dead u128 | Ignored

definition pending_row :: "pe_codec \<Rightarrow> 'v redb_registry \<Rightarrow> redb_store \<Rightarrow> u128 \<times> bytes \<Rightarrow> 'v row_fate" where
  "pending_row C r s row =
     (case map_of (tb_refcount s) (fst row) of
        None \<Rightarrow> Ignored
      | Some n \<Rightarrow>
          if 0 < n then
            (case pe_decode C (snd row) of
               None \<Rightarrow> Dead (fst row)
             | Some pe \<Rightarrow>
                 (case subscribed_type r pe of
                    None \<Rightarrow> Dead (fst row)
                  | Some t \<Rightarrow> Resend (rebuild t pe)))
          else Dead (fst row))"

definition rd_replay_begin ::
    "pe_codec \<Rightarrow> string option \<Rightarrow> ('v, 'w) redb_dispatcher \<Rightarrow> error + ('v, 'w) redb_dispatcher" where
  "rd_replay_begin C db_error d =
     (if \<not> rd_sender d then Inl (internal ''Dispatcher not initialized'')
      else case db_error of
        Some e \<Rightarrow> Inl (internal (''Failed to replay events: '' @ e))
      | None \<Rightarrow>
        let rows = map (pending_row C (sh_registry (m_shared (rd_manager d))) (rd_store d))
                     (table_iter (tb_events (rd_store d)))
        in Inr (d\<lparr>rd_replaying :=
                    List.map_filter (\<lambda>x. case x of Resend msg \<Rightarrow> Some msg | _ \<Rightarrow> None) rows,
                  rd_dead := List.map_filter (\<lambda>x. case x of Dead i \<Rightarrow> Some i | _ \<Rightarrow> None) rows\<rparr>))"

definition rd_replay_send :: "('v, 'w) redb_dispatcher \<Rightarrow> ('v, 'w) redb_dispatcher option" where
  "rd_replay_send d =
     (case rd_replaying d of
        [] \<Rightarrow> None
      | msg # msgs \<Rightarrow>
          (case chan_send (rd_queue d) msg of
             (Pending, _) \<Rightarrow> None
           | (Ready _, q) \<Rightarrow> Some (d\<lparr>rd_queue := q, rd_replaying := msgs\<rparr>)))"

definition collect_garbage :: "u128 list \<Rightarrow> redb_store \<Rightarrow> redb_store" where
  "collect_garbage dead s =
     s\<lparr>tb_events := fold mdel dead (tb_events s), tb_refcount := fold mdel dead (tb_refcount s)\<rparr>"

definition rd_replay_finish :: "bool \<Rightarrow> ('v, 'w) redb_dispatcher \<Rightarrow> ('v, 'w) redb_dispatcher option" where
  "rd_replay_finish txn_ok d =
     (if rd_replaying d \<noteq> [] then None
      else
        let st = rd_store d
        in Some (d\<lparr>rd_dead := [], rd_store := (if txn_ok then collect_garbage (rd_dead d) st else st)\<rparr>))"

section \<open>Stopping\<close>

definition rd_stop_begin :: "('v, 'w) redb_dispatcher \<Rightarrow> ('v, 'w) redb_dispatcher" where
  "rd_stop_begin d = d\<lparr>rd_running := False, rd_sender := False\<rparr>"

definition rd_stop_finish ::
    "bool \<Rightarrow> ('v, 'w) redb_dispatcher \<Rightarrow> (unit result \<times> ('v, 'w) redb_dispatcher) option" where
  "rd_stop_finish in_time d = (if in_time \<and> (rd_worker d \<or> rd_scheduler d) then None else Some (Inr (), d))"

text \<open>
  The worker ends when every sender is gone and the queue is empty. The graceful shutdown aborts
  the scheduler first, with what it has taken from the table and not yet sent, then waits for the
  worker.
\<close>

definition rd_worker_end :: "('v, 'w) redb_dispatcher \<Rightarrow> ('v, 'w) redb_dispatcher option" where
  "rd_worker_end d =
     (if rd_worker d \<and> rd_batch d = [] \<and> rd_inflight d = None \<and> chan_buffer (rd_queue d) = [] \<and>
         \<not> rd_sender d \<and> \<not> rd_scheduler d \<and> rd_replaying d = []
      then Some (d\<lparr>rd_worker := False, rd_queue := (rd_queue d)\<lparr>chan_open := False\<rparr>\<rparr>) else None)"

definition rd_shutdown_begin :: "('v, 'w) redb_dispatcher \<Rightarrow> ('v, 'w) redb_dispatcher" where
  "rd_shutdown_begin d = d\<lparr>rd_scheduler := False, rd_outbox := [], rd_sender := False\<rparr>"

definition rd_shutdown_finish ::
    "('v, 'w) redb_dispatcher \<Rightarrow> (unit result \<times> ('v, 'w) redb_dispatcher) option" where
  "rd_shutdown_finish d =
     (if rd_worker d then None else Some (Inr (), d\<lparr>rd_running := False\<rparr>))"

definition rd_stats :: "('v, 'w) redb_dispatcher \<Rightarrow> dispatcher_stats" where
  "rd_stats d =
     \<lparr>ds_events_dispatched = rd_events_dispatched d,
      ds_queue_size = (if rd_sender d then chan_len (rd_queue d) else 0),
      ds_dispatch_errors = rd_dispatch_errors d,
      ds_avg_dispatch_time_us =
        (if rd_events_dispatched d = 0 then 0
         else rd_total_dispatch_time_us d div rd_events_dispatched d),
      ds_max_queue_size = unat (rd_max_queue_size d)\<rparr>"

text \<open>The methods as the bus calls them, for a given coding; a replay is what it starts.\<close>

definition redb_dispatcher_vtable ::
    "pe_codec \<Rightarrow> (('v, 'w) redb_dispatcher, 'v) dispatcher_vtable" where
  "redb_dispatcher_vtable C =
     \<lparr>dv_start = rd_start, dv_stop_begin = rd_stop_begin, dv_stop_finish = rd_stop_finish,
      dv_shutdown_begin = rd_shutdown_begin, dv_shutdown_finish = rd_shutdown_finish, dv_dispatch = (\<lambda>now. rd_dispatch), dv_try_dispatch = (\<lambda>now. rd_try_dispatch),
      dv_replay_pending = (\<lambda>d. case rd_replay_begin C None d of Inl e \<Rightarrow> (Inl e, d) | Inr d' \<Rightarrow> (Inr (), d')),
      dv_replay_dlq = rd_replay_dlq C None, dv_is_running = rd_running, dv_stats = rd_stats\<rparr>"

section \<open>Facts\<close>

lemma rd_record_queue_size_sel [simp]:
  "rd_running (rd_record_queue_size d) = rd_running d" "rd_queue (rd_record_queue_size d) = rd_queue d"
  "rd_config (rd_record_queue_size d) = rd_config d" "rd_sender (rd_record_queue_size d) = rd_sender d"
  "rd_store (rd_record_queue_size d) = rd_store d" "rd_wait (rd_record_queue_size d) = rd_wait d"
  by (simp_all add: rd_record_queue_size_def Let_def)

interpretation redb_disp: event_dispatcher "redb_dispatcher_vtable C"
    "\<lambda>d. map rm_envelope (chan_buffer (rd_queue d))"
  by unfold_locales
    (auto simp: redb_dispatcher_vtable_def rd_stop_begin_def rd_shutdown_begin_def rd_dispatch_def rd_try_dispatch_def Let_def
      chan_send_def chan_try_send_def split: if_splits)

lemma dedup_batch_valid:
  "fst (dedup_batch processed seen msgs) = (let (vs, ds) = dedup_batch processed seen msgs in vs)"
  by (simp add: split_beta)

text \<open>No key goes through twice, and none that is stored already.\<close>

lemma dedup_batch_keys:
  "map_of processed k \<noteq> None \<or> k \<in> set seen \<Longrightarrow>
     msg \<in> set (fst (dedup_batch processed seen msgs)) \<Longrightarrow>
     idempotency_key (metadata (rm_envelope msg)) \<noteq> Some k"
  by (induction processed seen msgs rule: dedup_batch.induct)
    (auto simp: split_beta split: option.splits if_splits)

lemma dedup_batch_unkeyed:
  "filter (\<lambda>msg. idempotency_key (metadata (rm_envelope msg)) = None) (fst (dedup_batch processed seen msgs)) =
     filter (\<lambda>msg. idempotency_key (metadata (rm_envelope msg)) = None) msgs"
  by (induction processed seen msgs rule: dedup_batch.induct)
    (auto simp: split_beta split: option.splits)

lemma dedup_batch_distinct:
  "distinct (List.map_filter (\<lambda>msg. idempotency_key (metadata (rm_envelope msg)))
     (fst (dedup_batch processed seen msgs)))"
proof (induction processed seen msgs rule: dedup_batch.induct)
  case (1 processed seen)
  then show ?case by (simp add: List.map_filter_def)
next
  case (2 processed seen msg msgs)
  have "k \<notin> set (List.map_filter (\<lambda>msg. idempotency_key (metadata (rm_envelope msg)))
      (fst (dedup_batch processed (k # seen) msgs)))" for k
    using dedup_batch_keys [of processed k "k # seen" _ msgs]
    by (auto simp: List.map_filter_def comp_def)
  then show ?case
    using 2 by (auto simp: split_beta List.map_filter_def split: option.splits if_splits)
qed

section \<open>Properties\<close>

text \<open>One message taken from the queue and written.\<close>

definition ready_for :: "'v redb_message \<Rightarrow> ('v, 'w) redb_dispatcher \<Rightarrow> bool" where
  "ready_for msg d \<longleftrightarrow> rd_worker d \<and> rd_running d \<and> rd_batch d = [] \<and> rd_inflight d = None \<and>
     chan_buffer (rd_queue d) = [msg] \<and>
     (case idempotency_key (metadata (rm_envelope msg)) of
        None \<Rightarrow> True | Some k \<Rightarrow> map_of (tb_processed_keys (rd_store d)) k = None)"

definition row_for ::
    "datetime \<Rightarrow> ('v redb_registry, 'v, 'w) manager \<Rightarrow> 'v envelope \<Rightarrow> bytes \<Rightarrow> redb_insert" where
  "row_for now m env bs =
     \<lparr>ri_id = env_event_id env, ri_sub_count = needed_acks m env, ri_scheduled = is_scheduled now env,
      ri_deliver_at_ms = (case deliver_at (metadata env) of Some t \<Rightarrow> timestamp_millis t | None \<Rightarrow> 0),
      ri_bytes = bs, ri_key = idempotency_key (metadata env)\<rparr>"

lemma take_batch_one:
  assumes "ready_for msg d" "needed_acks (rd_manager d) (rm_envelope msg) \<noteq> 0"
    and "to_persisted (rm_envelope msg) = Inr pe" "pe_encode C pe = Inr bs"
  shows "\<exists>d1. rd_take_batch C now res d = Some d1 \<and>
    (res \<noteq> TaskPanicked \<longrightarrow> rd_batch d1 = [msg]) \<and> rd_manager d1 = rd_manager d \<and>
    rd_worker d1 \<and> rd_inflight d1 = None \<and> rd_running d1 \<and> rd_told d1 = rd_told d \<and>
    rd_queue d1 = (rd_queue d)\<lparr>chan_buffer := []\<rparr> \<and> rd_scheduler d1 = rd_scheduler d \<and>
    rd_outbox d1 = rd_outbox d \<and>
    (res \<noteq> TaskPanicked \<longrightarrow> rd_dispatch_errors d1 = rd_dispatch_errors d) \<and>
    rd_events_dispatched d1 = rd_events_dispatched d \<and>
    rd_store d1 = (if res = Committed
      then apply_insert (row_for now (rd_manager d) (rm_envelope msg) bs) (rd_store d) else rd_store d)"
proof -
  have dedup: "dedup_batch (tb_processed_keys (rd_store d)) [] [msg] = ([msg], [])"
    using assms(1)
    by (cases "idempotency_key (metadata (rm_envelope msg))") (simp_all add: ready_for_def)
  show ?thesis
    using assms dedup
    by (cases res) (auto simp: rd_take_batch_def ready_for_def row_for_def apply_inserts_def Let_def tell_def)
qed

lemma take_batch_duplicate:
  assumes "rd_worker d" "rd_running d" "rd_batch d = []" "rd_inflight d = None"
    and "chan_buffer (rd_queue d) = [msg]" "idempotency_key (metadata (rm_envelope msg)) = Some k"
    and "map_of (tb_processed_keys (rd_store d)) k \<noteq> None"
  shows "rd_take_batch C now res d =
    Some (d\<lparr>rd_queue := (rd_queue d)\<lparr>chan_buffer := []\<rparr>, rd_told := rd_told d @ tell [msg]\<rparr>)"
proof -
  have "dedup_batch (tb_processed_keys (rd_store d)) [] [msg] = ([], [msg])"
    using assms(6,7) by auto
  then show ?thesis
    using assms(1-5) by (simp add: rd_take_batch_def Let_def)
qed

lemma persisted_fields:
  assumes "to_persisted env = Inr pe"
  shows "pe_type_name pe = type_name env" "pe_metadata pe = metadata env" "pe_priority pe = priority env"
    "into_bytes env = Inr (pe_payload pe)"
  using assms by (auto simp: to_persisted_def split: sum.splits)


text \<open>Concrete values for the witnesses: a coding that knows one envelope, one subscriber.\<close>

definition sample_codec :: "persisted_envelope \<Rightarrow> pe_codec" where
  "sample_codec pe0 =
     \<lparr>pe_encode = (\<lambda>pe. if pe = pe0 then Inr [1] else Inl (SerializationError ''other'')),
      pe_decode = (\<lambda>bs. if bs = [1] then Some pe0 else None)\<rparr>"

lemma sample_codec_ok: "pe_codec_ok (sample_codec pe0)"
  by (simp add: pe_codec_ok_def sample_codec_def)

definition redb_manager :: "(nat redb_registry, nat, nat) manager" where
  "redb_manager =
     manager_with_channel_size (redb_registry_new (reg_run [OpRegister 5 ''Echo'' (entry_new 1)])) 0 3 100 2"

definition redb_sample :: "nat redb_message list \<Rightarrow> (nat, nat) redb_dispatcher" where
  "redb_sample msgs =
     \<lparr>rd_store = store_empty, rd_config = dispatcher_config_default 4, rd_wait = True, rd_sender = True,
      rd_receiver = False, rd_queue = \<lparr>chan_capacity = 1, chan_buffer = msgs, chan_open = True\<rparr>,
      rd_manager = redb_manager, rd_worker = True, rd_scheduler = True, rd_batch = [], rd_inflight = None,
      rd_outbox = [], rd_told = [], rd_running = True, rd_replaying = [], rd_dead = [],
      rd_events_dispatched = 0, rd_dispatch_errors = 0, rd_total_dispatch_time_us = 0,
      rd_max_queue_size = 0\<rparr>"

definition keyed_env :: "string option \<Rightarrow> datetime option \<Rightarrow> nat envelope" where
  "keyed_env k at =
     with_metadata echo_ty 4 ((metadata_new 77 0)\<lparr>idempotency_key := k, deliver_at := at\<rparr>)"

definition keyed_pe :: "string option \<Rightarrow> datetime option \<Rightarrow> persisted_envelope" where
  "keyed_pe k at =
     \<lparr>pe_type_name = ''Echo'', pe_metadata = (metadata_new 77 0)\<lparr>idempotency_key := k, deliver_at := at\<rparr>,
      pe_priority = Normal, pe_payload = [4]\<rparr>"

lemma keyed_persisted [simp]:
  "to_persisted (keyed_env k at) = Inr (keyed_pe k at)"
  "pe_encode (sample_codec (keyed_pe k at)) (keyed_pe k at) = Inr [1]"
  "idempotency_key (metadata (keyed_env k at)) = k" "deliver_at (metadata (keyed_env k at)) = at"
  "env_event_id (keyed_env k at) = 77"
  by (simp_all add: to_persisted_def keyed_env_def keyed_pe_def sample_codec_def echo_ty_def
      default_priority_def metadata_new_def)

lemma redb_sample_ready [simp]: "ready_for \<lparr>rm_envelope = keyed_env k at, rm_ack = b\<rparr>
    (redb_sample [\<lparr>rm_envelope = keyed_env k at, rm_ack = b\<rparr>])"
  by (simp add: ready_for_def redb_sample_def store_empty_def split: option.split)

lemma redb_sample_registry:
  "subscription_count (reg_run [OpRegister 5 ''Echo'' (entry_new 1 :: nat sub_entry)]) 5 = 1"
  "get_type_id (reg_run [OpRegister 5 ''Echo'' (entry_new 1 :: nat sub_entry)]) ''Echo'' = Some 5"
  by (simp_all add: subscription_count_entries reg_run_def entries_def dashmap_new_def get_type_id_def)

lemma redb_sample_manager [simp]:
  "needed_acks (rd_manager (redb_sample msgs)) (keyed_env k at) = 1"
  "subscribed_type (sh_registry (m_shared (rd_manager (redb_sample msgs)))) (keyed_pe k at) = Some 5"
  by (simp_all add: needed_acks_def subscribed_type_def redb_sample_def redb_manager_def keyed_env_def
      keyed_pe_def manager_with_channel_size_def redb_registry_new_def redb_sample_registry echo_ty_def
      metadata_new_def)

lemma redb_sample_sel [simp]:
  "rd_sender (redb_sample msgs)" "rd_worker (redb_sample msgs)" "rd_running (redb_sample msgs)"
  "rd_batch (redb_sample msgs) = []" "rd_inflight (redb_sample msgs) = None"
  "chan_buffer (rd_queue (redb_sample msgs)) = msgs" "rd_store (redb_sample msgs) = store_empty"
  by (simp_all add: redb_sample_def)

text \<open>The sample dispatcher writes its one message.\<close>

definition sample_written :: "string option \<Rightarrow> datetime option \<Rightarrow> redb_store" where
  "sample_written k at =
     (case rd_take_batch (sample_codec (keyed_pe k at)) 9 Committed
        (redb_sample [\<lparr>rm_envelope = keyed_env k at, rm_ack = True\<rparr>]) of
        Some d1 \<Rightarrow> rd_store d1 | None \<Rightarrow> store_empty)"


text \<open>
  A stored event with an idempotency key is lost by its own replay: its key is recorded with it,
  so the replayed message is taken for a duplicate, is not dispatched, and its row stays in the
  table for the next replay.
\<close>

lemma replayed_keyed_event_is_dropped:
  fixes d' :: "('v, 'w) redb_dispatcher"
  assumes "ready_for msg d" "needed_acks (rd_manager d) (rm_envelope msg) \<noteq> 0"
    and "to_persisted (rm_envelope msg) = Inr pe" "pe_encode C pe = Inr bs"
    and "idempotency_key (metadata (rm_envelope msg)) = Some k"
    and "rd_worker d'" "rd_running d'" "rd_batch d' = []" "rd_inflight d' = None"
    and "chan_buffer (rd_queue d') = [rebuild t pe]"
  shows "\<exists>d1. rd_take_batch C now Committed d = Some d1 \<and>
    (rd_store d' = rd_store d1 \<longrightarrow>
      (\<exists>d2. rd_take_batch C now' res d' = Some d2 \<and> rd_batch d2 = [] \<and>
        chan_buffer (rd_queue d2) = [] \<and> rd_store d2 = rd_store d' \<and>
        rd_manager d2 = rd_manager d'))"
proof -
  obtain d1 where d1: "rd_take_batch C now Committed d = Some d1"
      "rd_store d1 = apply_insert (row_for now (rd_manager d) (rm_envelope msg) bs) (rd_store d)"
    using take_batch_one [OF assms(1-4), of now Committed] by auto
  have "map_of (tb_processed_keys (rd_store d1)) k \<noteq> None"
    using assms(5) by (simp add: d1(2) apply_insert_def row_for_def Let_def)
  moreover have "idempotency_key (metadata (rm_envelope (rebuild t pe :: 'v redb_message))) = Some k"
    using persisted_fields [OF assms(3)] assms(5) by (simp add: rebuild_def)
  ultimately show ?thesis
    using d1(1) take_batch_duplicate [OF assms(6-10), of k C now' res] assms(8) by auto
qed

lemma replayed_keyed_event_is_dropped_example:
  "\<exists>d2. rd_take_batch (sample_codec (keyed_pe (Some ''k'') None)) 10 Committed
       ((redb_sample [rebuild 5 (keyed_pe (Some ''k'') None)])\<lparr>rd_store := sample_written (Some ''k'') None\<rparr>)
     = Some d2 \<and> rd_batch d2 = [] \<and> rd_store d2 = sample_written (Some ''k'') None"
  using replayed_keyed_event_is_dropped [where C = "sample_codec (keyed_pe (Some ''k'') None)" and
      msg = "\<lparr>rm_envelope = keyed_env (Some ''k'') None, rm_ack = True\<rparr>" and
      d = "redb_sample [\<lparr>rm_envelope = keyed_env (Some ''k'') None, rm_ack = True\<rparr>]" and
      pe = "keyed_pe (Some ''k'') None" and bs = "[1]" and k = "''k''" and now = 9 and now' = 10 and t = 5 and
      res = Committed and d' = "(redb_sample [rebuild 5 (keyed_pe (Some ''k'') None)])
        \<lparr>rd_store := sample_written (Some ''k'') None\<rparr>"]
  by (fastforce simp: sample_written_def)

section \<open>Deduplication and routing\<close>

definition message_keys :: "'v redb_message list \<Rightarrow> string list" where
  "message_keys msgs = List.map_filter (\<lambda>msg. idempotency_key (metadata (rm_envelope msg))) msgs"

lemma dedup_batch_key_set:
  "set (message_keys (fst (dedup_batch processed seen msgs))) =
     set (message_keys msgs) - dom (map_of processed) - set seen"
proof (induction processed seen msgs rule: dedup_batch.induct)
  case (1 processed seen)
  then show ?case by (simp add: message_keys_def List.map_filter_def)
next
  case (2 processed seen msg msgs)
  then show ?case
    by (auto simp: message_keys_def split_beta map_filter_simps split: option.splits if_splits)
qed

lemma dedup_batch_mset:
  "mset (fst (dedup_batch processed seen msgs)) + mset (snd (dedup_batch processed seen msgs)) = mset msgs"
  by (induction processed seen msgs rule: dedup_batch.induct)
    (auto simp: split_beta split: option.splits if_splits)

text \<open>Keyed topic subscriptions are invisible to the persistent registry.\<close>

lemma redb_targets:
  assumes "registry_inv (rr_inner (sh_registry (m_shared m)))"
  shows "i \<in> set (dispatch_targets redb_vtable m env) \<longleftrightarrow>
    map_of (m_subscriptions m) i \<noteq> None \<and>
    (\<exists>e. live (rr_inner (sh_registry (m_shared m))) i = Some (env_type_id env, e) \<and>
       active e \<and> sub_topic e = None \<and> passes_filter env e)"
proof -
  let ?r = "rr_inner (sh_registry (m_shared m))"
  have "matching_subscriptions redb_vtable (sh_registry (m_shared m)) env =
      filter (\<lambda>s. sub_topic s = None) (get_subscriptions ?r (env_type_id env))"
    by (simp add: matching_subscriptions_def provided_get_topic_subscriptions_def)
  then show ?thesis
    using get_subscriptions_live [OF assms] live_sub_id [OF assms]
    by (auto simp: dispatch_targets_def image_iff) metis
qed

text \<open>
  C27: deduplication of a batch. What goes on to the disk and the subscribers carries every
  idempotency key of the batch that is not stored already, each exactly once; unkeyed messages all
  go on, in their order; no message is made up or lost between the two lists.
\<close>

theorem batch_deduplication:
  "case dedup_batch processed [] msgs of (valid, dups) \<Rightarrow>
     distinct (message_keys valid) \<and>
     set (message_keys valid) = set (message_keys msgs) - dom (map_of processed) \<and>
     filter (\<lambda>msg. idempotency_key (metadata (rm_envelope msg)) = None) valid =
       filter (\<lambda>msg. idempotency_key (metadata (rm_envelope msg)) = None) msgs \<and>
     mset valid + mset dups = mset msgs"
  using dedup_batch_distinct [of processed "[]" msgs] dedup_batch_key_set [of processed "[]" msgs]
    dedup_batch_unkeyed [of processed "[]" msgs] dedup_batch_mset [of processed "[]" msgs]
  by (simp add: message_keys_def split_beta)

text \<open>
  C32: routing under persistence. The persistent registry does not forward the lookup of topic
  subscriptions, so an event reaches the plain subscriptions of its type only: whatever its topic,
  a topic subscription (a responder's inbox included) is never a target.
\<close>

theorem persistence_disables_topics:
  assumes "registry_inv (rr_inner (sh_registry (m_shared m)))"
  shows "set (dispatch_targets redb_vtable m env) =
      {i. map_of (m_subscriptions m) i \<noteq> None \<and>
        (\<exists>e. live (rr_inner (sh_registry (m_shared m))) i = Some (env_type_id env, e) \<and>
           active e \<and> sub_topic e = None \<and> passes_filter env e)} \<and>
    vt_topic_subscription_count redb_vtable (sh_registry (m_shared m)) p = 0"
  using redb_targets [OF assms] by auto

definition topic_ops :: "nat reg_op list" where
  "topic_ops = [OpRegister 5 ''Echo'' (with_topic (entry_new 1) ''Echo'')]"

definition redb_topic_manager :: "(nat redb_registry, nat, nat) manager" where
  "redb_topic_manager =
     (manager_with_channel_size (redb_registry_new (reg_run topic_ops)) 0 3 100 2)
       \<lparr>m_subscriptions := m_subscriptions echo_manager\<rparr>"

theorem persistence_disables_topics_witness:
  "live (reg_run topic_ops) 1 = Some (5, with_topic (entry_new 1) ''Echo'') \<and>
   1 \<notin> set (dispatch_targets redb_vtable redb_topic_manager (keyed_env None None))"
proof -
  have r: "rr_inner (sh_registry (m_shared redb_topic_manager)) = reg_run topic_ops"
    by (simp add: redb_topic_manager_def manager_with_channel_size_def redb_registry_new_def)
  have "ops_ok topic_ops"
    by code_simp
  then have ok: "registry_inv (reg_run topic_ops)" "live (reg_run topic_ops) = map_run topic_ops"
    using reg_run_refines by auto
  have "live (reg_run topic_ops) 1 = Some (5, with_topic (entry_new 1) ''Echo'')"
    unfolding ok(2) by (simp add: topic_ops_def map_run_def with_topic_def entry_new_def)
  then show ?thesis
    using persistence_disables_topics [of redb_topic_manager "keyed_env None None" "''Echo''"] ok(1)
    by (simp add: r with_topic_def)
qed

text \<open>
  C28: a failed write is confirmed. When the transaction of a batch fails with a database error (and
  not a panic), nothing is stored, no error is counted, the event goes on to the subscribers, and
  its publisher, who waits for the disk, is told that the write is complete.
\<close>

theorem failed_write_is_confirmed:
  assumes "ready_for msg d" "needed_acks (rd_manager d) (rm_envelope msg) \<noteq> 0"
    and "to_persisted (rm_envelope msg) = Inr pe" "pe_encode C pe = Inr bs" "rm_ack msg"
  shows "\<exists>d1 d2. rd_take_batch C now DbFailed d = Some d1 \<and> rd_dispatch_next now' us d1 = Some d2 \<and>
    env_event_id (rm_envelope msg) \<in> set (rd_told d2) \<and> rd_store d2 = rd_store d \<and>
    rd_dispatch_errors d2 = rd_dispatch_errors d \<and>
    (is_scheduled now' (rm_envelope msg) \<longrightarrow> rd_manager d2 = rd_manager d) \<and>
    (\<not> is_scheduled now' (rm_envelope msg) \<longrightarrow>
       rd_manager d2 = snd (manager_dispatch redb_vtable (rm_envelope msg) (rd_manager d)))"
proof -
  obtain d1 where d1: "rd_take_batch C now DbFailed d = Some d1" "rd_batch d1 = [msg]"
      "rd_manager d1 = rd_manager d" "rd_worker d1" "rd_inflight d1 = None"
      "rd_dispatch_errors d1 = rd_dispatch_errors d" "rd_store d1 = rd_store d"
    using take_batch_one [OF assms(1-4), of now DbFailed] by auto
  then show ?thesis
    using assms(5)
    by (auto simp: rd_dispatch_next_def tell_def rd_count_success_def manager_dispatch_def Let_def
        split_beta)
qed

theorem failed_write_is_confirmed_witness:
  "\<exists>d1 d2. rd_take_batch (sample_codec (keyed_pe None None)) 9 DbFailed
       (redb_sample [\<lparr>rm_envelope = keyed_env None None, rm_ack = True\<rparr>]) = Some d1 \<and>
     rd_dispatch_next 9 0 d1 = Some d2 \<and> 77 \<in> set (rd_told d2) \<and> rd_store d2 = store_empty"
  using failed_write_is_confirmed [where C = "sample_codec (keyed_pe None None)" and
      msg = "\<lparr>rm_envelope = keyed_env None None, rm_ack = True\<rparr>" and
      d = "redb_sample [\<lparr>rm_envelope = keyed_env None None, rm_ack = True\<rparr>]" and
      pe = "keyed_pe None None" and bs = "[1]" and now = 9 and now' = 9 and us = 0]
  by fastforce

section \<open>Scheduled events and dead letters\<close>

lemma pull_due_single:
  assumes "tb_scheduled s = [((ms, i), bs)]" "ms \<le> now_ms" "pe_decode C bs = Some pe"
  shows "pull_due C now_ms s = ([pe], s\<lparr>tb_scheduled := []\<rparr>)"
  using assms by (simp add: pull_due_def due_rows_def map_filter_simps)

lemma scheduled_row:
  assumes "deliver_at (metadata env) = Some at" "now < at" "idempotency_key (metadata env) = Some k"
    and "tb_scheduled s = []"
  shows "tb_scheduled (apply_insert (row_for now m env bs) s) =
      [((timestamp_millis at, env_event_id env), bs)] \<and>
    tb_processed_keys (apply_insert (row_for now m env bs) s) = mput k 1 (tb_processed_keys s) \<and>
    tb_events (apply_insert (row_for now m env bs) s) = tb_events s \<and>
    tb_dlq (apply_insert (row_for now m env bs) s) = tb_dlq s"
  using assms by (simp add: apply_insert_def row_for_def is_scheduled_def Let_def)

text \<open>The scheduler takes the one due row and puts its message in the queue.\<close>

lemma scheduler_delivers:
  assumes "rd_scheduler d" "rd_running d" "rd_outbox d = []"
    and "tb_scheduled (rd_store d) = [((ms, i), bs)]" "ms \<le> timestamp_millis later"
    and "pe_decode C bs = Some pe"
    and "subscribed_type (sh_registry (m_shared (rd_manager d))) (unschedule pe) = Some t"
    and "chan_open (rd_queue d)" "length (chan_buffer (rd_queue d)) < chan_capacity (rd_queue d)"
  shows "\<exists>d'. rd_scheduler_tick C later True d = Some d' \<and>
    rd_scheduler_send d' = Some (d\<lparr>rd_store := (rd_store d)\<lparr>tb_scheduled := []\<rparr>,
      rd_queue := (rd_queue d)\<lparr>chan_buffer := chan_buffer (rd_queue d) @ [rebuild t (unschedule pe)]\<rparr>,
      rd_outbox := []\<rparr>)"
proof -
  have st: "subscribed_type (sh_registry (m_shared (rd_manager d))) pe = Some t"
    using assms(7) by (simp add: subscribed_type_def unschedule_def)
  show ?thesis
    using assms(1-3,8,9) st
    by (simp add: rd_scheduler_tick_def pull_due_single [OF assms(4,5,6)] map_filter_simps
        rd_scheduler_send_def chan_send_room)
qed

text \<open>
  C29: a scheduled event with an idempotency key is lost. Its key is recorded when it is written; when
  it is due the scheduler removes its row and sends it, and the worker takes it for a duplicate:
  after these five steps it is in no table, in no queue and no subscriber has seen it.
\<close>

theorem scheduled_keyed_event_is_lost:
  fixes d :: "('v, 'w) redb_dispatcher"
  assumes "ready_for msg d" "needed_acks (rd_manager d) (rm_envelope msg) \<noteq> 0"
    and "to_persisted (rm_envelope msg) = Inr pe" "pe_encode C pe = Inr bs" "pe_codec_ok C"
    and "idempotency_key (metadata (rm_envelope msg)) = Some k"
    and "deliver_at (metadata (rm_envelope msg)) = Some at" "now < at" "tb_scheduled (rd_store d) = []"
    and "rd_scheduler d" "rd_outbox d = []" "timestamp_millis at \<le> timestamp_millis later"
    and "subscribed_type (sh_registry (m_shared (rd_manager d))) (unschedule pe) = Some t"
    and "chan_open (rd_queue d)" "0 < chan_capacity (rd_queue d)"
  shows "\<exists>d1 d2 d3 d4 d5.
    rd_take_batch C now Committed d = Some d1 \<and> rd_dispatch_next now us d1 = Some d2 \<and>
    rd_scheduler_tick C later True d2 = Some d3 \<and> rd_scheduler_send d3 = Some d4 \<and>
    rd_take_batch C later' res d4 = Some d5 \<and>
    tb_scheduled (rd_store d5) = [] \<and> tb_events (rd_store d5) = tb_events (rd_store d) \<and>
    tb_dlq (rd_store d5) = tb_dlq (rd_store d) \<and> rd_outbox d5 = [] \<and> rd_batch d5 = [] \<and>
    chan_buffer (rd_queue d5) = [] \<and> rd_manager d5 = rd_manager d"
proof -
  let ?row = "row_for now (rd_manager d) (rm_envelope msg) bs"
  obtain d1 where d1: "rd_take_batch C now Committed d = Some d1" "rd_batch d1 = [msg]"
      "rd_manager d1 = rd_manager d" "rd_worker d1" "rd_inflight d1 = None" "rd_running d1"
      "rd_queue d1 = (rd_queue d)\<lparr>chan_buffer := []\<rparr>" "rd_scheduler d1" "rd_outbox d1 = []"
      "rd_store d1 = apply_insert ?row (rd_store d)"
    using take_batch_one [OF assms(1-4), of now Committed] assms(10,11) by auto
  note row = scheduled_row [OF assms(7,8,6,9), of "rd_manager d" bs]
  let ?d2 = "d1\<lparr>rd_batch := [], rd_told := rd_told d1 @ tell [msg]\<rparr>"
  have d2: "rd_dispatch_next now us d1 = Some ?d2"
    using d1(2,4,5) assms(7,8) by (simp add: rd_dispatch_next_def is_scheduled_def Let_def)
  have dec: "pe_decode C bs = Some pe"
    using assms(4,5) by (simp add: pe_codec_ok_def)
  let ?d4 = "?d2\<lparr>rd_store := (rd_store d1)\<lparr>tb_scheduled := []\<rparr>,
        rd_queue := (rd_queue d)\<lparr>chan_buffer := [rebuild t (unschedule pe)]\<rparr>, rd_outbox := []\<rparr>"
  obtain d3 where d3: "rd_scheduler_tick C later True ?d2 = Some d3" "rd_scheduler_send d3 = Some ?d4"
    using scheduler_delivers [of ?d2 "timestamp_millis at" "env_event_id (rm_envelope msg)" bs later C pe t]
      d1 row assms(12-15) dec by auto
  have key: "idempotency_key (metadata (rm_envelope (rebuild t (unschedule pe) :: 'v redb_message))) = Some k"
    using persisted_fields [OF assms(3)] assms(6) by (simp add: rebuild_def unschedule_def)
  show ?thesis
    using d1 d2 d3 row take_batch_duplicate [of ?d4, OF _ _ _ _ _ key, of C later' res] by simp
qed

definition sched_sample :: "(nat, nat) redb_dispatcher" where
  "sched_sample = redb_sample [\<lparr>rm_envelope = keyed_env (Some ''k'') (Some 50), rm_ack = True\<rparr>]"

lemma sched_sample_sel:
  "rd_scheduler sched_sample" "rd_outbox sched_sample = []" "chan_open (rd_queue sched_sample)"
  "chan_capacity (rd_queue sched_sample) = 1"
  "needed_acks (rd_manager sched_sample) (keyed_env k at) = 1"
  "subscribed_type (sh_registry (m_shared (rd_manager sched_sample))) (unschedule (keyed_pe k at)) = Some 5"
  by (simp add: sched_sample_def redb_sample_def, simp add: sched_sample_def redb_sample_def,
      simp add: sched_sample_def redb_sample_def, simp add: sched_sample_def redb_sample_def,
      simp add: sched_sample_def)
    (simp_all add: sched_sample_def redb_sample_def redb_manager_def manager_with_channel_size_def
      redb_registry_new_def redb_sample_registry keyed_pe_def subscribed_type_def unschedule_def)

theorem scheduled_keyed_event_is_lost_witness:
  "\<exists>d1 d2 d3 d4 d5.
    rd_take_batch (sample_codec (keyed_pe (Some ''k'') (Some 50))) 9 Committed sched_sample = Some d1 \<and>
    rd_dispatch_next 9 0 d1 = Some d2 \<and>
    rd_scheduler_tick (sample_codec (keyed_pe (Some ''k'') (Some 50))) 60 True d2 = Some d3 \<and>
    rd_scheduler_send d3 = Some d4 \<and>
    rd_take_batch (sample_codec (keyed_pe (Some ''k'') (Some 50))) 61 Committed d4 = Some d5 \<and>
    tb_scheduled (rd_store d5) = [] \<and> tb_events (rd_store d5) = [] \<and> chan_buffer (rd_queue d5) = []"
proof -
  have ready: "ready_for \<lparr>rm_envelope = keyed_env (Some ''k'') (Some 50), rm_ack = True\<rparr> sched_sample"
    by (simp add: sched_sample_def)
  have st: "rd_store sched_sample = store_empty" "tb_scheduled store_empty = []" "tb_events store_empty = []"
    by (simp_all add: sched_sample_def store_empty_def)
  have due: "timestamp_millis 50 \<le> timestamp_millis 60"
    by (simp add: timestamp_millis_def)
  obtain d1 d2 d3 d4 d5 where run:
      "rd_take_batch (sample_codec (keyed_pe (Some ''k'') (Some 50))) 9 Committed sched_sample = Some d1"
      "rd_dispatch_next 9 0 d1 = Some d2"
      "rd_scheduler_tick (sample_codec (keyed_pe (Some ''k'') (Some 50))) 60 True d2 = Some d3"
      "rd_scheduler_send d3 = Some d4"
      "rd_take_batch (sample_codec (keyed_pe (Some ''k'') (Some 50))) 61 Committed d4 = Some d5"
      "tb_scheduled (rd_store d5) = []" "tb_events (rd_store d5) = tb_events (rd_store sched_sample)"
      "chan_buffer (rd_queue d5) = []"
    using scheduled_keyed_event_is_lost [where d = sched_sample and
        msg = "\<lparr>rm_envelope = keyed_env (Some ''k'') (Some 50), rm_ack = True\<rparr>" and
        C = "sample_codec (keyed_pe (Some ''k'') (Some 50))" and pe = "keyed_pe (Some ''k'') (Some 50)" and
        bs = "[1]" and k = "''k''" and at = 50 and now = 9 and later = 60 and t = 5 and us = 0 and
        later' = 61 and res = Committed] ready due
    by (auto simp: st sched_sample_sel sample_codec_ok)
  then show ?thesis
    by (metis st(1,3))
qed

lemma send_replayed_full:
  assumes "chan_open q" "chan_capacity q \<le> length (chan_buffer q)"
  shows "send_replayed q msgs = q"
  unfolding send_replayed_def using assms by (induction msgs) (simp_all add: chan_try_send_def)

lemma removed_rows:
  "map_of (fold (\<lambda>(i, pe) t. mdel i t) rows t) i = (if i \<in> fst ` set rows then None else map_of t i)"
  by (induction rows arbitrary: t) (auto simp: image_iff)

lemma removed_row: "(i, pe) \<in> set rows \<Longrightarrow> map_of (fold (\<lambda>(i, pe) t. mdel i t) rows t) i = None"
  by (force simp: removed_rows)

definition dead_letter_sample :: "(nat, nat) redb_dispatcher" where
  "dead_letter_sample =
     (redb_sample [\<lparr>rm_envelope = keyed_env None None, rm_ack = True\<rparr>])
       \<lparr>rd_store := store_empty\<lparr>tb_dlq := [(77, [1])]\<rparr>\<rparr>"

lemma dead_letter_sample_sel:
  "rd_sender dead_letter_sample" "chan_open (rd_queue dead_letter_sample)"
  "chan_capacity (rd_queue dead_letter_sample) \<le> length (chan_buffer (rd_queue dead_letter_sample))"
  "get_type_id (rr_inner (sh_registry (m_shared (rd_manager dead_letter_sample)))) (pe_type_name (keyed_pe k at)) = Some 5"
  by (simp_all add: dead_letter_sample_def redb_sample_def redb_manager_def manager_with_channel_size_def
      redb_registry_new_def redb_sample_registry keyed_pe_def)

text \<open>
  C33: replaying dead letters into a full queue. Every readable dead letter leaves the table, those of
  known types are counted as replayed, and none of them is in the queue afterwards.
\<close>

theorem dlq_replay_into_full_queue:
  fixes d :: "('v, 'w) redb_dispatcher"
  assumes "rd_sender d" "chan_open (rd_queue d)"
    and "chan_capacity (rd_queue d) \<le> length (chan_buffer (rd_queue d))"
  shows "\<exists>d'. rd_replay_dlq C None d =
      (Inr (length (filter (\<lambda>(i, pe).
         vt_get_type_id redb_vtable (sh_registry (m_shared (rd_manager d))) (pe_type_name pe) \<noteq> None)
         (dlq_rows C (rd_store d)))), d') \<and>
    rd_queue d' = rd_queue d \<and>
    (\<forall>i pe. (i, pe) \<in> set (dlq_rows C (rd_store d)) \<longrightarrow> map_of (tb_dlq (rd_store d')) i = None)"
proof -
  let ?r = "sh_registry (m_shared (rd_manager d))"
  let ?known = "\<lambda>(i, pe). vt_get_type_id redb_vtable ?r (pe_type_name pe) \<noteq> None"
  let ?rows = "dlq_rows C (rd_store d)"
  have "length (List.map_filter (\<lambda>(i, pe). map_option (\<lambda>t. rebuild t pe :: 'v redb_message)
      (vt_get_type_id redb_vtable ?r (pe_type_name pe))) rows) = length (filter ?known rows)" for rows
    by (induction rows) (auto simp: map_filter_simps split: option.splits)
  then show ?thesis
    using assms(1) send_replayed_full [OF assms(2,3)]
    by (auto simp: rd_replay_dlq_def take_dead_letters_def Let_def intro: removed_row)
qed

theorem dlq_replay_into_full_queue_witness:
  "\<exists>d'. rd_replay_dlq (sample_codec (keyed_pe None None)) None dead_letter_sample = (Inr 1, d') \<and>
     map_of (tb_dlq (rd_store d')) 77 = None \<and> rd_queue d' = rd_queue dead_letter_sample"
proof -
  have "dlq_rows (sample_codec (keyed_pe None None)) (rd_store dead_letter_sample) = [(77, keyed_pe None None)]"
    by (simp add: dlq_rows_def dead_letter_sample_def redb_sample_def store_empty_def map_filter_simps
        sample_codec_def table_iter_def)
  then show ?thesis
    using dlq_replay_into_full_queue [of dead_letter_sample "sample_codec (keyed_pe None None)"]
    by (auto simp: dead_letter_sample_sel)
qed

end
