(* ===== verification/Event_Bus.thy ===== *)
theory Event_Bus
  imports Channel_Dispatcher Redb_Dispatcher
begin

text \<open>
  The bus (src/src/bus/mod.rs) and its global instance (src/src/global.rs): publication through the
  dispatcher under a read lock, subscriptions through the manager, requests and responses, remote
  publication, and the two shutdowns. The bus is generic over its dispatcher and registry; the
  manager they share lives inside the dispatcher's state, and stays there when the bus has given
  the dispatcher away.
\<close>

section \<open>State\<close>

datatype shutdown_state = Running | Draining | Stopped

definition shutdown_state_from_u8 :: "u8 \<Rightarrow> shutdown_state" where
  "shutdown_state_from_u8 v =
     (if v = 0 then Running else if v = 1 then Draining else if v = 2 then Stopped else Stopped)"

fun shutdown_state_u8 :: "shutdown_state \<Rightarrow> u8" where
  "shutdown_state_u8 Running = 0"
| "shutdown_state_u8 Draining = 1"
| "shutdown_state_u8 Stopped = 2"

text \<open>What the bus is built from: the methods of its dispatcher and registry, and the manager.\<close>

record ('d, 'r, 'v, 'w) bus_parts =
  bp_dispatcher :: "('d, 'v) dispatcher_vtable"
  bp_registry :: "('r, 'v) registry_vtable"
  bp_manager :: "'d \<Rightarrow> ('r, 'v, 'w) manager"
  bp_set_manager :: "('r, 'v, 'w) manager \<Rightarrow> 'd \<Rightarrow> 'd"

definition channel_parts ::
    "(('v dashmap_registry, 'v, 'w) channel_dispatcher, 'v dashmap_registry, 'v, 'w) bus_parts" where
  "channel_parts =
     \<lparr>bp_dispatcher = channel_vtable, bp_registry = dashmap_vtable, bp_manager = cd_manager,
      bp_set_manager = (\<lambda>m d. d\<lparr>cd_manager := m\<rparr>)\<rparr>"

definition redb_parts :: "pe_codec \<Rightarrow> (('v, 'w) redb_dispatcher, 'v redb_registry, 'v, 'w) bus_parts" where
  "redb_parts C =
     \<lparr>bp_dispatcher = redb_dispatcher_vtable C, bp_registry = redb_vtable, bp_manager = rd_manager,
      bp_set_manager = (\<lambda>m d. d\<lparr>rd_manager := m\<rparr>)\<rparr>"

lemma channel_parts_sel [simp]:
  "bp_dispatcher channel_parts = channel_vtable" "bp_registry channel_parts = dashmap_vtable"
  "bp_manager channel_parts = cd_manager" "bp_set_manager channel_parts = (\<lambda>m d. d\<lparr>cd_manager := m\<rparr>)"
  by (simp_all add: channel_parts_def)

lemma redb_parts_sel [simp]:
  "bp_dispatcher (redb_parts C) = redb_dispatcher_vtable C" "bp_registry (redb_parts C) = redb_vtable"
  "bp_manager (redb_parts C) = rd_manager" "bp_set_manager (redb_parts C) = (\<lambda>m d. d\<lparr>rd_manager := m\<rparr>)"
  by (simp_all add: redb_parts_def)

text \<open>
  A hook is a program of the user's that acts on the world \<open>'x\<close>; so is the remote transport, which
  publishes a payload under a topic with a message id for deduplication, and subscribes to a topic
  as a member of a group.
\<close>

type_synonym 'x hook = "'x \<Rightarrow> unit result \<times> 'x"

record 'x remote_transport =
  rt_publish :: "string \<Rightarrow> bytes \<Rightarrow> string option \<Rightarrow> 'x \<Rightarrow> unit result \<times> 'x"
  rt_subscribe :: "string \<Rightarrow> string \<Rightarrow> 'x \<Rightarrow> unit result \<times> 'x"

text \<open>
  \<open>bus_remote_pending\<close> are the tasks that sleep before they publish to the network, each with its
  time.
\<close>

record ('d, 'x) event_bus =
  bus_dispatcher :: bool
  bus_core :: 'd
  bus_shutdown_hooks :: "'x hook list"
  bus_shutdown_state :: u8
  bus_dlq_rx :: bool
  bus_remote_transport :: "'x remote_transport option"
  bus_remote_pending :: "(datetime \<times> string \<times> bytes \<times> string) list"
  bus_world :: 'x

definition bus_state :: "('d, 'x) event_bus \<Rightarrow> shutdown_state" where
  "bus_state b = shutdown_state_from_u8 (bus_shutdown_state b)"

definition is_shutting_down :: "('d, 'x) event_bus \<Rightarrow> bool" where
  "is_shutting_down b \<longleftrightarrow> bus_state b \<noteq> Running"

definition bus_is_running :: "('d, 'x) event_bus \<Rightarrow> bool" where
  "bus_is_running b \<longleftrightarrow> bus_state b = Running"

definition take_dlq_receiver :: "('d, 'x) event_bus \<Rightarrow> bool \<times> ('d, 'x) event_bus" where
  "take_dlq_receiver b = (bus_dlq_rx b, b\<lparr>bus_dlq_rx := False\<rparr>)"

section \<open>Publication\<close>

text \<open>
  A publication checks the state, then takes the read lock, finds the dispatcher, checks the state
  again and dispatches; it waits (holding the lock) as long as the dispatcher makes it wait.
\<close>

definition publish_under_lock ::
    "('d, 'r, 'v, 'w) bus_parts \<Rightarrow> datetime \<Rightarrow> 'v envelope \<Rightarrow> ('d, 'x) event_bus \<Rightarrow>
       unit result poll \<times> ('d, 'x) event_bus" where
  "publish_under_lock P now env b =
     (if \<not> bus_dispatcher b then (Ready (Inl ShuttingDown), b)
      else if bus_state b \<noteq> Running then (Ready (Inl ShuttingDown), b)
      else let (r, d) = dv_dispatch (bp_dispatcher P) now (bus_core b) env
           in (r, b\<lparr>bus_core := d\<rparr>))"

definition publish_with_metadata ::
    "('d, 'r, 'v, 'w) bus_parts \<Rightarrow> 'v event_ty \<Rightarrow> 'v \<Rightarrow> event_metadata \<Rightarrow> datetime \<Rightarrow>
       ('d, 'x) event_bus \<Rightarrow> uuid result poll \<times> ('d, 'x) event_bus" where
  "publish_with_metadata P T v md now b =
     (if bus_state b \<noteq> Running then (Ready (Inl ShuttingDown), b)
      else case publish_under_lock P now (with_metadata T v md) b of
        (Pending, b') \<Rightarrow> (Pending, b')
      | (Ready (Inl e), b') \<Rightarrow> (Ready (Inl e), b')
      | (Ready (Inr _), b') \<Rightarrow> (Ready (Inr (event_id md)), b'))"

definition publish ::
    "('d, 'r, 'v, 'w) bus_parts \<Rightarrow> 'v event_ty \<Rightarrow> 'v \<Rightarrow> uuid \<Rightarrow> datetime \<Rightarrow>
       ('d, 'x) event_bus \<Rightarrow> uuid result poll \<times> ('d, 'x) event_bus" where
  "publish P T v fresh now b = publish_with_metadata P T v (metadata_new fresh now) now b"

definition publish_delayed ::
    "('d, 'r, 'v, 'w) bus_parts \<Rightarrow> (datetime \<Rightarrow> duration \<Rightarrow> datetime option) \<Rightarrow> 'v event_ty \<Rightarrow> 'v \<Rightarrow>
       duration \<Rightarrow> uuid \<Rightarrow> datetime \<Rightarrow> ('d, 'x) event_bus \<Rightarrow>
       (uuid result poll \<times> ('d, 'x) event_bus) outcome" where
  "publish_delayed P dt_add T v dur fresh now b =
     bind_outcome (delay dt_add now (metadata_new fresh now) dur)
       (\<lambda>md. Done (publish_with_metadata P T v md now b))"

definition publish_to ::
    "('d, 'r, 'v, 'w) bus_parts \<Rightarrow> string \<Rightarrow> 'v event_ty \<Rightarrow> 'v \<Rightarrow> uuid \<Rightarrow> datetime \<Rightarrow>
       ('d, 'x) event_bus \<Rightarrow> uuid result poll \<times> ('d, 'x) event_bus" where
  "publish_to P p T v fresh now b =
     publish_with_metadata P T v (metadata_with_topic (metadata_new fresh now) p) now b"

definition publish_scheduled ::
    "('d, 'r, 'v, 'w) bus_parts \<Rightarrow> 'v event_ty \<Rightarrow> 'v \<Rightarrow> datetime \<Rightarrow> uuid \<Rightarrow> datetime \<Rightarrow>
       ('d, 'x) event_bus \<Rightarrow> uuid result poll \<times> ('d, 'x) event_bus" where
  "publish_scheduled P T v at fresh now b =
     publish_with_metadata P T v (schedule_at (metadata_new fresh now) at) now b"

definition try_publish_with_metadata ::
    "('d, 'r, 'v, 'w) bus_parts \<Rightarrow> 'v event_ty \<Rightarrow> 'v \<Rightarrow> event_metadata \<Rightarrow> datetime \<Rightarrow>
       ('d, 'x) event_bus \<Rightarrow> (try_publish_error + uuid) \<times> ('d, 'x) event_bus" where
  "try_publish_with_metadata P T v md now b =
     (if bus_state b \<noteq> Running then (Inl TryShuttingDown, b)
      else if \<not> bus_dispatcher b then (Inl TryShuttingDown, b)
      else if bus_state b \<noteq> Running then (Inl TryShuttingDown, b)
      else case dv_try_dispatch (bp_dispatcher P) now (bus_core b) (with_metadata T v md) of
        (Inl e, d) \<Rightarrow> (Inl e, b\<lparr>bus_core := d\<rparr>)
      | (Inr _, d) \<Rightarrow> (Inr (event_id md), b\<lparr>bus_core := d\<rparr>))"

definition try_publish ::
    "('d, 'r, 'v, 'w) bus_parts \<Rightarrow> 'v event_ty \<Rightarrow> 'v \<Rightarrow> uuid \<Rightarrow> datetime \<Rightarrow>
       ('d, 'x) event_bus \<Rightarrow> (try_publish_error + uuid) \<times> ('d, 'x) event_bus" where
  "try_publish P T v fresh now b = try_publish_with_metadata P T v (metadata_new fresh now) now b"

definition bus_replay_dlq ::
    "('d, 'r, 'v, 'w) bus_parts \<Rightarrow> ('d, 'x) event_bus \<Rightarrow> nat result \<times> ('d, 'x) event_bus" where
  "bus_replay_dlq P b =
     (if \<not> bus_dispatcher b then (Inl ShuttingDown, b)
      else let (r, d) = dv_replay_dlq (bp_dispatcher P) (bus_core b) in (r, b\<lparr>bus_core := d\<rparr>))"

definition bus_replay_pending ::
    "('d, 'r, 'v, 'w) bus_parts \<Rightarrow> ('d, 'x) event_bus \<Rightarrow> unit result \<times> ('d, 'x) event_bus" where
  "bus_replay_pending P b =
     (if bus_dispatcher b
      then (let (r, d) = dv_replay_pending (bp_dispatcher P) (bus_core b) in (r, b\<lparr>bus_core := d\<rparr>))
      else (Inl (internal ''Dispatcher has been shut down''), b))"

section \<open>Subscriptions\<close>

definition on_manager ::
    "('d, 'r, 'v, 'w) bus_parts \<Rightarrow>
       (('r, 'v, 'w) manager \<Rightarrow> (subscription_handle result \<times> ('r, 'v, 'w) manager) outcome) \<Rightarrow>
       ('d, 'x) event_bus \<Rightarrow> (subscription_handle result \<times> ('d, 'x) event_bus) outcome" where
  "on_manager P f b =
     bind_outcome (f (bp_manager P (bus_core b)))
       (\<lambda>(res, m). Done (res, b\<lparr>bus_core := bp_set_manager P m (bus_core b)\<rparr>))"

definition bus_subscribe ::
    "('d, 'r, 'v, 'w) bus_parts \<Rightarrow> 'v event_ty \<Rightarrow> ('v \<Rightarrow> 'w \<Rightarrow> 'w) \<Rightarrow> uuid \<Rightarrow> ('d, 'x) event_bus \<Rightarrow>
       (subscription_handle result \<times> ('d, 'x) event_bus) outcome" where
  "bus_subscribe P T f fresh b =
     (if is_shutting_down b then Done (Inl ShuttingDown, b)
      else on_manager P (subscribe_fn (bp_registry P) T f fresh) b)"

definition bus_subscribe_topic ::
    "('d, 'r, 'v, 'w) bus_parts \<Rightarrow> 'v event_ty \<Rightarrow> string \<Rightarrow> ('v \<Rightarrow> 'w \<Rightarrow> 'w) \<Rightarrow> uuid \<Rightarrow>
       ('d, 'x) event_bus \<Rightarrow> (subscription_handle result \<times> ('d, 'x) event_bus) outcome" where
  "bus_subscribe_topic P T p f fresh b =
     (if is_shutting_down b then Done (Inl ShuttingDown, b)
      else on_manager P (subscribe_topic_fn (bp_registry P) T p f fresh) b)"

definition bus_subscribe_handler ::
    "('d, 'r, 'v, 'w) bus_parts \<Rightarrow> 'v event_ty \<Rightarrow> ('v, 'w) handler \<Rightarrow> uuid \<Rightarrow>
       ('d, 'x) event_bus \<Rightarrow> (subscription_handle result \<times> ('d, 'x) event_bus) outcome" where
  "bus_subscribe_handler P T h fresh b =
     (if is_shutting_down b then Done (Inl ShuttingDown, b)
      else on_manager P (subscribe (bp_registry P) T h fresh) b)"

text \<open>The name of a fallible handler is the compiler's name of the closure.\<close>

definition bus_subscribe_fallible ::
    "('d, 'r, 'v, 'w) bus_parts \<Rightarrow> 'v event_ty \<Rightarrow> string \<Rightarrow> ('v \<Rightarrow> 'w \<Rightarrow> unit result \<times> 'w) \<Rightarrow> uuid \<Rightarrow>
       ('d, 'x) event_bus \<Rightarrow> (subscription_handle result \<times> ('d, 'x) event_bus) outcome" where
  "bus_subscribe_fallible P T closure f fresh b =
     (if is_shutting_down b then Done (Inl ShuttingDown, b)
      else on_manager P (subscribe (bp_registry P) T (fallible_function_handler T f closure) fresh) b)"

definition bus_unsubscribe ::
    "('d, 'r, 'v, 'w) bus_parts \<Rightarrow> subscription_handle \<Rightarrow> ('d, 'x) event_bus \<Rightarrow>
       unit result \<times> ('d, 'x) event_bus" where
  "bus_unsubscribe P sh b =
     (let (res, m) = manager_unsubscribe (bp_registry P) (h_id sh) (bp_manager P (bus_core b))
      in (res, b\<lparr>bus_core := bp_set_manager P m (bus_core b)\<rparr>))"

section \<open>Requests and responses\<close>

text \<open>
  The responder publishes through its clone of the bus; \<open>send\<close> is that publication, as an action on
  the world of the handlers.
\<close>

definition reply_metadata :: "uuid \<Rightarrow> datetime \<Rightarrow> 'v envelope \<Rightarrow> string \<Rightarrow> event_metadata" where
  "reply_metadata fresh now env inbox =
     (metadata_with_topic (metadata_new fresh now) inbox)
       \<lparr>correlation_id := or_else (correlation_id (metadata env)) (Some (env_event_id env)),
        causation_id := Some (env_event_id env)\<rparr>"

definition responder_handler ::
    "('v \<Rightarrow> event_metadata \<Rightarrow> 'w \<Rightarrow> uuid result \<times> 'w) \<Rightarrow> uuid \<Rightarrow> datetime \<Rightarrow> 'v event_ty \<Rightarrow>
       ('v \<Rightarrow> 'w \<Rightarrow> 'v \<times> 'w) \<Rightarrow> ('v, 'w) handler" where
  "responder_handler send fresh now Req f =
     \<lparr>handle = (\<lambda>env w.
        (case get_event Req env of
           Inl e \<Rightarrow> (Inl e, w)
         | Inr req \<Rightarrow>
             (let (response, w1) = f req w
              in case reply_to (metadata env) of
                   Some inbox \<Rightarrow>
                     (case send response (reply_metadata fresh now env inbox) w1 of
                        (Inl e, w2) \<Rightarrow> (Inl e, w2)
                      | (Inr _, w2) \<Rightarrow> (Inr (), w2))
                 | None \<Rightarrow> (Inr (), w1)))),
      handler_name = provided_name, on_shutdown = provided_on_shutdown, handler_filter = provided_filter\<rparr>"

definition bus_respond ::
    "('d, 'r, 'v, 'w) bus_parts \<Rightarrow> ('v \<Rightarrow> event_metadata \<Rightarrow> 'w \<Rightarrow> uuid result \<times> 'w) \<Rightarrow> datetime \<Rightarrow>
       'v event_ty \<Rightarrow> ('v \<Rightarrow> 'w \<Rightarrow> 'v \<times> 'w) \<Rightarrow> uuid \<Rightarrow> uuid \<Rightarrow>
       ('d, 'x) event_bus \<Rightarrow> (subscription_handle result \<times> ('d, 'x) event_bus) outcome" where
  "bus_respond P send now Req f fresh_event fresh b =
     (if is_shutting_down b then Done (Inl ShuttingDown, b)
      else on_manager P (subscribe_typed (bp_registry P) Req (responder_handler send fresh_event now Req f)
             (''RPCResponder<'' @ ty_name Req @ ''>'') None fresh) b)"

text \<open>
  A request: an inbox of its own, whose subscription fills the one-shot slot with the first response,
  then the publication with the inbox as the reply address. When the publication fails the handle
  of the inbox is dropped on the way out.
\<close>

definition inbox_topic :: "(uuid \<Rightarrow> string) \<Rightarrow> uuid \<Rightarrow> string" where
  "inbox_topic show_uuid u = ''_INBOX.'' @ show_uuid u"

definition inbox_function :: "('w \<Rightarrow> bool) \<Rightarrow> ('v \<Rightarrow> 'w \<Rightarrow> 'w) \<Rightarrow> 'v \<Rightarrow> 'w \<Rightarrow> 'w" where
  "inbox_function replied put v w = (if replied w then w else put v w)"

definition request_begin ::
    "('d, 'r, 'v, 'w) bus_parts \<Rightarrow> 'v event_ty \<Rightarrow> 'v event_ty \<Rightarrow> 'v \<Rightarrow> string \<Rightarrow> ('w \<Rightarrow> bool) \<Rightarrow>
       ('v \<Rightarrow> 'w \<Rightarrow> 'w) \<Rightarrow> uuid \<Rightarrow> uuid \<Rightarrow> datetime \<Rightarrow> ('d, 'x) event_bus \<Rightarrow>
       (subscription_handle result poll \<times> ('d, 'x) event_bus) outcome" where
  "request_begin P Req Res v inbox replied put fresh_sub fresh now b =
     (if is_shutting_down b then Done (Ready (Inl ShuttingDown), b)
      else bind_outcome (bus_subscribe_topic P Res inbox (inbox_function replied put) fresh_sub b)
        (\<lambda>(res, b1). case res of
           Inl e \<Rightarrow> Done (Ready (Inl e), b1)
         | Inr sh \<Rightarrow>
             Done (case publish_with_metadata P Req v (with_reply_to (metadata_new fresh now) inbox) now b1 of
                (Pending, b2) \<Rightarrow> (Pending, b2)
              | (Ready (Inl e), b2) \<Rightarrow>
                  (Ready (Inl e), b2\<lparr>bus_core := bp_set_manager P
                     (update_cell (h_id sh) handle_drop (bp_manager P (bus_core b2))) (bus_core b2)\<rparr>)
              | (Ready (Inr _), b2) \<Rightarrow> (Ready (Inr sh), b2))))"

datatype 'v reply = Replied 'v | ReplyDropped | ReplyTimeout

definition request_finish ::
    "('d, 'r, 'v, 'w) bus_parts \<Rightarrow> subscription_handle \<Rightarrow> 'v reply \<Rightarrow> ('d, 'x) event_bus \<Rightarrow>
       'v result \<times> ('d, 'x) event_bus" where
  "request_finish P sh answer b =
     (case answer of
        Replied v \<Rightarrow> Inr v
      | ReplyDropped \<Rightarrow> Inl (internal ''Responder dropped the channel without replying'')
      | ReplyTimeout \<Rightarrow> Inl (internal ''Request timed out after 30 seconds''),
      snd (bus_unsubscribe P sh b))"

section \<open>Remote events\<close>

text \<open>
  A type that travels: its event methods and its topic. \<open>publish_remote\<close> hands the payload to the
  transport; the delayed and the scheduled one publish locally first and leave a sleeping task. The
  scheduled one reads the clock again (\<open>later\<close>) once the local publication is through.
\<close>

definition publish_remote ::
    "'v event_ty \<Rightarrow> string \<Rightarrow> (uuid \<Rightarrow> string) \<Rightarrow> 'v \<Rightarrow> uuid \<Rightarrow> ('d, 'x) event_bus \<Rightarrow>
       uuid result \<times> ('d, 'x) event_bus" where
  "publish_remote T remote_topic show_uuid v fresh b =
     (case serialize_event T v of
        Inl e \<Rightarrow> (Inl e, b)
      | Inr bs \<Rightarrow>
          (case bus_remote_transport b of
             Some rt \<Rightarrow>
               (case rt_publish rt remote_topic bs (Some (show_uuid fresh)) (bus_world b) of
                  (Inl e, w) \<Rightarrow> (Inl e, b\<lparr>bus_world := w\<rparr>)
                | (Inr _, w) \<Rightarrow> (Inr fresh, b\<lparr>bus_world := w\<rparr>))
           | None \<Rightarrow> (Inr fresh, b)))"

definition remember_remote ::
    "datetime \<Rightarrow> string \<Rightarrow> bytes \<Rightarrow> string \<Rightarrow> ('d, 'x) event_bus \<Rightarrow> ('d, 'x) event_bus" where
  "remember_remote t remote_topic bs msg_id b =
     (if bus_remote_transport b = None then b
      else b\<lparr>bus_remote_pending := bus_remote_pending b @ [(t, remote_topic, bs, msg_id)]\<rparr>)"

definition publish_remote_delayed ::
    "('d, 'r, 'v, 'w) bus_parts \<Rightarrow> (datetime \<Rightarrow> duration \<Rightarrow> datetime option) \<Rightarrow> 'v event_ty \<Rightarrow> string \<Rightarrow>
       (uuid \<Rightarrow> string) \<Rightarrow> 'v \<Rightarrow> duration \<Rightarrow> uuid \<Rightarrow> datetime \<Rightarrow> ('d, 'x) event_bus \<Rightarrow>
       (uuid result poll \<times> ('d, 'x) event_bus) outcome" where
  "publish_remote_delayed P dt_add T remote_topic show_uuid v dur fresh now b =
     (case serialize_event T v of
        Inl e \<Rightarrow> Done (Ready (Inl e), b)
      | Inr bs \<Rightarrow>
          bind_outcome (publish_delayed P dt_add T v dur fresh now b)
            (\<lambda>(r, b1). Done (case r of
               Ready (Inr i) \<Rightarrow>
                 (r, remember_remote (now + int dur) remote_topic bs (show_uuid i) b1)
             | _ \<Rightarrow> (r, b1))))"

definition publish_remote_scheduled ::
    "('d, 'r, 'v, 'w) bus_parts \<Rightarrow> 'v event_ty \<Rightarrow> string \<Rightarrow> (uuid \<Rightarrow> string) \<Rightarrow> 'v \<Rightarrow> datetime \<Rightarrow>
       uuid \<Rightarrow> datetime \<Rightarrow> datetime \<Rightarrow> ('d, 'x) event_bus \<Rightarrow>
       uuid result poll \<times> ('d, 'x) event_bus" where
  "publish_remote_scheduled P T remote_topic show_uuid v at fresh now later b =
     (case serialize_event T v of
        Inl e \<Rightarrow> (Ready (Inl e), b)
      | Inr bs \<Rightarrow>
          (case publish_scheduled P T v at fresh now b of
             (Ready (Inr i), b1) \<Rightarrow>
               (case bus_remote_transport b1 of
                  None \<Rightarrow> (Ready (Inr i), b1)
                | Some rt \<Rightarrow>
                    if later < at then
                      (Ready (Inr i), remember_remote at remote_topic bs (show_uuid i) b1)
                    else (case rt_publish rt remote_topic bs (Some (show_uuid i)) (bus_world b1) of
                            (Inl e, w) \<Rightarrow> (Ready (Inl e), b1\<lparr>bus_world := w\<rparr>)
                          | (Inr _, w) \<Rightarrow> (Ready (Inr i), b1\<lparr>bus_world := w\<rparr>)))
           | (r, b1) \<Rightarrow> (r, b1)))"

text \<open>A sleeping task wakes up and publishes; an error is logged and the event is gone.\<close>

definition fire_remote :: "datetime \<Rightarrow> nat \<Rightarrow> ('d, 'x) event_bus \<Rightarrow> ('d, 'x) event_bus option" where
  "fire_remote now i b =
     (if i < length (bus_remote_pending b) \<and> fst (bus_remote_pending b ! i) \<le> now
      then let (t, remote_topic, bs, msg_id) = bus_remote_pending b ! i;
               b1 = b\<lparr>bus_remote_pending := take i (bus_remote_pending b) @ drop (Suc i) (bus_remote_pending b)\<rparr>
           in (case bus_remote_transport b1 of
                 None \<Rightarrow> None
               | Some rt \<Rightarrow>
                   Some (b1\<lparr>bus_world := snd (rt_publish rt remote_topic bs (Some msg_id) (bus_world b1))\<rparr>))
      else None)"

text \<open>Subscribing to remote events: the local subscription first, dropped when the transport refuses.\<close>

definition subscribe_remote ::
    "('d, 'r, 'v, 'w) bus_parts \<Rightarrow> 'v event_ty \<Rightarrow> string \<Rightarrow> string \<Rightarrow> ('v \<Rightarrow> 'w \<Rightarrow> 'w) \<Rightarrow> uuid \<Rightarrow>
       ('d, 'x) event_bus \<Rightarrow> (subscription_handle result \<times> ('d, 'x) event_bus) outcome" where
  "subscribe_remote P T remote_topic queue_group f fresh b =
     bind_outcome (bus_subscribe P T f fresh b)
       (\<lambda>(res, b1). Done (case res of
          Inl e \<Rightarrow> (Inl e, b1)
        | Inr sh \<Rightarrow>
            (case bus_remote_transport b1 of
               None \<Rightarrow> (Inr sh, b1)
             | Some rt \<Rightarrow>
                 (case rt_subscribe rt remote_topic queue_group (bus_world b1) of
                    (Inr _, w) \<Rightarrow> (Inr sh, b1\<lparr>bus_world := w\<rparr>)
                  | (Inl e, w) \<Rightarrow>
                      (Inl e, b1\<lparr>bus_world := w,
                         bus_core := bp_set_manager P
                           (update_cell (h_id sh) handle_drop (bp_manager P (bus_core b1))) (bus_core b1)\<rparr>)))))"

text \<open>
  One message of the inbound stream, and whether it is acknowledged to the broker. One that cannot
  be read becomes a dead letter of the broadcast type \<open>B\<close>, whose value \<open>pill\<close> says so.
\<close>

definition remote_inbound ::
    "('d, 'r, 'v, 'w) bus_parts \<Rightarrow> 'v event_ty \<Rightarrow> 'v event_ty \<Rightarrow> 'v \<Rightarrow> uuid \<Rightarrow> datetime \<Rightarrow> bytes \<Rightarrow>
       ('d, 'x) event_bus \<Rightarrow> bool poll \<times> ('d, 'x) event_bus" where
  "remote_inbound P T B pill fresh now bs b =
     (case deserialize_event T bs of
        Inr v \<Rightarrow>
          (case publish P T v fresh now b of
             (Pending, b') \<Rightarrow> (Pending, b')
           | (Ready _, b') \<Rightarrow> (Ready True, b'))
      | Inl _ \<Rightarrow>
          (let m = bp_manager P (bus_core b)
           in case sh_dlq (m_shared m) of
                None \<Rightarrow> (Ready True, b)
              | Some c \<Rightarrow>
                  (case chan_send c ((envelope_new B pill fresh now)\<lparr>payload_bytes := Some bs\<rparr>) of
                     (Pending, _) \<Rightarrow> (Pending, b)
                   | (Ready _, c') \<Rightarrow>
                       (Ready True, b\<lparr>bus_core := bp_set_manager P
                          (m\<lparr>m_shared := (m_shared m)\<lparr>sh_dlq := Some c'\<rparr>\<rparr>) (bus_core b)\<rparr>))))"

section \<open>Statistics\<close>

record event_bus_stats =
  bs_total_subscriptions :: nat
  bs_event_types :: nat
  bs_dispatcher_stats :: dispatcher_stats
  bs_subscription_stats :: subscription_stats

text \<open>The dispatcher's numbers are zeros when its lock is taken or it is gone.\<close>

definition bus_stats :: "('d, 'r, 'v, 'w) bus_parts \<Rightarrow> bool \<Rightarrow> ('d, 'x) event_bus \<Rightarrow> event_bus_stats" where
  "bus_stats P lock_free b =
     (let m = bp_manager P (bus_core b); r = sh_registry (m_shared m)
      in \<lparr>bs_total_subscriptions = vt_total_subscriptions (bp_registry P) r,
          bs_event_types = length (vt_event_types (bp_registry P) r),
          bs_dispatcher_stats =
            (if lock_free \<and> bus_dispatcher b then dv_stats (bp_dispatcher P) (bus_core b)
             else dispatcher_stats_new),
          bs_subscription_stats = manager_stats (bp_registry P) m\<rparr>)"

definition event_bus_stats_display :: "(nat \<Rightarrow> string) \<Rightarrow> event_bus_stats \<Rightarrow> string" where
  "event_bus_stats_display show_nat s =
     ''EventBus Stats: '' @ show_nat (bs_total_subscriptions s) @ '' subscriptions, '' @
     show_nat (bs_event_types s) @ '' event types, '' @
     show_nat (unat (ds_events_dispatched (bs_dispatcher_stats s))) @ '' events dispatched''"

section \<open>Shutting down\<close>

definition register_shutdown_hook :: "'x hook \<Rightarrow> ('d, 'x) event_bus \<Rightarrow> unit result \<times> ('d, 'x) event_bus" where
  "register_shutdown_hook h b = (Inr (), b\<lparr>bus_shutdown_hooks := bus_shutdown_hooks b @ [h]\<rparr>)"

definition set_bus_state :: "shutdown_state \<Rightarrow> ('d, 'x) event_bus \<Rightarrow> ('d, 'x) event_bus" where
  "set_bus_state st b = b\<lparr>bus_shutdown_state := shutdown_state_u8 st\<rparr>"

text \<open>The hooks run one after the other, in the order of registration; their errors are logged.\<close>

definition run_shutdown_hooks :: "('d, 'x) event_bus \<Rightarrow> ('d, 'x) event_bus" where
  "run_shutdown_hooks b = b\<lparr>bus_world := fold (\<lambda>h w. snd (h w)) (bus_shutdown_hooks b) (bus_world b)\<rparr>"

text \<open>
  \<open>shutdown\<close>: the hooks, then the dispatcher, for whose lock and whose own stop there is a common
  time limit, then the manager. Only the limit is looked at, and only to log it.
\<close>

datatype stop_wait = NoLock | LimitReached | Stops bool

definition shutdown_dispatcher ::
    "('d, 'r, 'v, 'w) bus_parts \<Rightarrow> stop_wait \<Rightarrow> ('d, 'x) event_bus \<Rightarrow> ('d, 'x) event_bus option" where
  "shutdown_dispatcher P wait b =
     (if wait = NoLock \<or> \<not> bus_dispatcher b then Some b
      else
        let b1 = b\<lparr>bus_dispatcher := False, bus_core := dv_stop_begin (bp_dispatcher P) (bus_core b)\<rparr>
        in case wait of
             Stops in_time \<Rightarrow>
               map_option (\<lambda>(_, d). b1\<lparr>bus_core := d\<rparr>)
                 (dv_stop_finish (bp_dispatcher P) in_time (bus_core b1))
           | _ \<Rightarrow> Some b1)"

definition bus_shutdown ::
    "('d, 'r, 'v, 'w) bus_parts \<Rightarrow> stop_wait \<Rightarrow> ('d, 'x) event_bus \<Rightarrow>
       (unit result \<times> ('d, 'x) event_bus) option" where
  "bus_shutdown P wait b =
     map_option
       (\<lambda>b1. let (res, m) = manager_shutdown (bp_registry P) (bp_manager P (bus_core b1));
                 b2 = b1\<lparr>bus_core := bp_set_manager P m (bus_core b1)\<rparr>
             in case res of Inl e \<Rightarrow> (Inl e, b2) | Inr _ \<Rightarrow> (Inr (), set_bus_state Stopped b2))
       (shutdown_dispatcher P wait (run_shutdown_hooks (set_bus_state Draining b)))"

text \<open>
  \<open>shutdown_gracefully\<close> waits without limit: for the dispatcher to drain (what happens in between is
  the dispatcher's own steps), then for the handlers.
\<close>

definition graceful_begin ::
    "('d, 'r, 'v, 'w) bus_parts \<Rightarrow> ('d, 'x) event_bus \<Rightarrow> bool \<times> ('d, 'x) event_bus" where
  "graceful_begin P b =
     (let b1 = run_shutdown_hooks (set_bus_state Draining b)
      in if bus_dispatcher b1
         then (True, b1\<lparr>bus_dispatcher := False,
                       bus_core := dv_shutdown_begin (bp_dispatcher P) (bus_core b1)\<rparr>)
         else (False, b1))"

definition graceful_finish ::
    "('d, 'r, 'v, 'w) bus_parts \<Rightarrow> bool \<Rightarrow> (uuid \<Rightarrow> nat) \<Rightarrow> bool \<Rightarrow> ('d, 'x) event_bus \<Rightarrow>
       (unit result \<times> ('d, 'x) event_bus) option" where
  "graceful_finish P oc picks taken b =
     (case (if taken then map_option snd (dv_shutdown_finish (bp_dispatcher P) (bus_core b))
            else Some (bus_core b)) of
        None \<Rightarrow> None
      | Some d \<Rightarrow>
          (case manager_shutdown_gracefully (bp_registry P) oc picks (bp_manager P d) of
             None \<Rightarrow> None
           | Some m \<Rightarrow> Some (Inr (), set_bus_state Stopped (b\<lparr>bus_core := bp_set_manager P m d\<rparr>))))"

section \<open>The global bus\<close>

text \<open>A cell that is written once.\<close>

definition set_global_bus :: "'b \<Rightarrow> 'b option \<Rightarrow> ('b + unit) \<times> 'b option" where
  "set_global_bus b g = (case g of None \<Rightarrow> (Inr (), Some b) | Some _ \<Rightarrow> (Inl b, g))"

definition get_bus :: "'b option \<Rightarrow> 'b option" where
  "get_bus g = g"

definition global_publish ::
    "('d, 'r, 'v, 'w) bus_parts \<Rightarrow> 'v event_ty \<Rightarrow> 'v \<Rightarrow> uuid \<Rightarrow> datetime \<Rightarrow>
       ('d, 'x) event_bus option \<Rightarrow> uuid result poll \<times> ('d, 'x) event_bus option" where
  "global_publish P T v fresh now g =
     (case g of
        Some b \<Rightarrow> (let (r, b') = publish P T v fresh now b in (r, Some b'))
      | None \<Rightarrow> (Ready (Inl (internal
          ''Global event bus not initialized. Call tokio_events::global::set_global_bus() first.'')), None))"

definition global_shutdown ::
    "('d, 'r, 'v, 'w) bus_parts \<Rightarrow> stop_wait \<Rightarrow> ('d, 'x) event_bus option \<Rightarrow>
       (unit result \<times> ('d, 'x) event_bus option) option" where
  "global_shutdown P wait g =
     (case g of
        Some b \<Rightarrow> map_option (\<lambda>(r, b'). (r, Some b')) (bus_shutdown P wait b)
      | None \<Rightarrow> Some (Inl (internal ''Global event bus not initialized.''), None))"

definition global_shutdown_gracefully ::
    "('d, 'r, 'v, 'w) bus_parts \<Rightarrow> ('d, 'x) event_bus option \<Rightarrow>
       (unit result + bool) \<times> ('d, 'x) event_bus option" where
  "global_shutdown_gracefully P g =
     (case g of
        Some b \<Rightarrow> (let (taken, b') = graceful_begin P b in (Inr taken, Some b'))
      | None \<Rightarrow> (Inl (Inl (internal ''Global event bus not initialized.'')), None))"

end
