(* ===== verification/Remote.thy ===== *)
theory Remote
  imports Event_Bus
begin

text \<open>
  The NATS transport (src/src/remote/nats.rs). The NATS client is a parameter: a record of the calls the
  code makes, each of which fails with a message or succeeds.
\<close>

section \<open>The client\<close>

record consumer_config =
  cc_durable_name :: "string option"
  cc_deliver_group :: "string option"
  cc_deliver_subject :: string
  cc_filter_subject :: string
  cc_ack_wait :: duration
  cc_max_ack_pending :: nat

type_synonym 'x call = "'x \<Rightarrow> (string + unit) \<times> 'x"

record 'x nats_client =
  nc_connect :: "string \<Rightarrow> 'x call"
  nc_get_or_create_stream :: "string \<Rightarrow> string list \<Rightarrow> 'x call"
  nc_parse_header :: "string \<Rightarrow> string option"
  nc_publish :: "string \<Rightarrow> (string \<times> string) list \<Rightarrow> bytes \<Rightarrow> 'x call"
  nc_js_publish :: "string \<Rightarrow> (string \<times> string) list \<Rightarrow> bytes \<Rightarrow> 'x call"
  nc_get_stream :: "string \<Rightarrow> 'x call"
  nc_get_or_create_consumer :: "string \<Rightarrow> string \<Rightarrow> consumer_config \<Rightarrow> 'x call"
  nc_messages :: "string \<Rightarrow> string \<Rightarrow> 'x call"
  nc_queue_subscribe :: "string \<Rightarrow> string \<Rightarrow> 'x call"

text \<open>\<open>map_err\<close> with a prefix, then \<open>?\<close>.\<close>

definition and_then :: "string \<Rightarrow> 'x call \<Rightarrow> ('x \<Rightarrow> 'b result \<times> 'x) \<Rightarrow> 'x \<Rightarrow> 'b result \<times> 'x" where
  "and_then prefix c k w =
     (case c w of (Inl e, w') \<Rightarrow> (Inl (internal (prefix @ e)), w') | (Inr _, w') \<Rightarrow> k w')"

section \<open>The transport\<close>

record nats_transport =
  nt_jetstream :: bool
  nt_stream_name :: "string option"

definition nats_connect :: "'x nats_client \<Rightarrow> string \<Rightarrow> 'x \<Rightarrow> nats_transport result \<times> 'x" where
  "nats_connect C url =
     and_then ''Failed to connect to NATS: '' (nc_connect C url)
       (\<lambda>w. (Inr \<lparr>nt_jetstream = False, nt_stream_name = None\<rparr>, w))"

definition nats_connect_jetstream ::
    "'x nats_client \<Rightarrow> string \<Rightarrow> string \<Rightarrow> string list \<Rightarrow> 'x \<Rightarrow> nats_transport result \<times> 'x" where
  "nats_connect_jetstream C url stream_name subjects =
     and_then ''Failed to connect to NATS: '' (nc_connect C url)
       (and_then ''Failed to configure JetStream: '' (nc_get_or_create_stream C stream_name subjects)
         (\<lambda>w. (Inr \<lparr>nt_jetstream = True, nt_stream_name = Some stream_name\<rparr>, w)))"

definition max_payload_size :: nat where
  "max_payload_size = 1024 * 1024"

definition nats_headers :: "'x nats_client \<Rightarrow> string option \<Rightarrow> (string \<times> string) list" where
  "nats_headers C msg_id =
     (case msg_id of
        None \<Rightarrow> []
      | Some i \<Rightarrow> (case nc_parse_header C i of Some v \<Rightarrow> [(''Nats-Msg-Id'', v)] | None \<Rightarrow> []))"

definition nats_publish ::
    "'x nats_client \<Rightarrow> nats_transport \<Rightarrow> string \<Rightarrow> bytes \<Rightarrow> string option \<Rightarrow> 'x \<Rightarrow> unit result \<times> 'x" where
  "nats_publish C t subject bs msg_id w =
     (if max_payload_size < length bs
      then (Inl (PayloadTooLarge (of_nat (length bs)) (of_nat max_payload_size)), w)
      else if nt_jetstream t
      then and_then ''JetStream publish failed: ''
             (nc_js_publish C subject (nats_headers C msg_id) bs) (\<lambda>w. (Inr (), w)) w
      else and_then ''NATS publish failed: ''
             (nc_publish C subject (nats_headers C msg_id) bs) (\<lambda>w. (Inr (), w)) w)"

text \<open>The name of the durable consumer: the characters of the topic that NATS forbids in a name are
  replaced.\<close>

definition sanitise :: "char \<Rightarrow> char" where
  "sanitise c = (if c \<in> {CHR ''.'', CHR ''*'', CHR ''>''} then CHR ''_'' else c)"

definition consumer_name :: "string \<Rightarrow> string \<Rightarrow> string" where
  "consumer_name queue_group subject = queue_group @ ''_'' @ map sanitise subject"

definition consumer_settings :: "string \<Rightarrow> string \<Rightarrow> consumer_config" where
  "consumer_settings queue_group subject =
     \<lparr>cc_durable_name = Some (consumer_name queue_group subject), cc_deliver_group = Some queue_group,
      cc_deliver_subject = consumer_name queue_group subject, cc_filter_subject = subject,
      cc_ack_wait = 60 * 1000000000, cc_max_ack_pending = 1000\<rparr>"

definition nats_subscribe ::
    "'x nats_client \<Rightarrow> nats_transport \<Rightarrow> string \<Rightarrow> string \<Rightarrow> 'x \<Rightarrow> unit result \<times> 'x" where
  "nats_subscribe C t subject queue_group =
     (case (nt_jetstream t, nt_stream_name t) of
        (True, Some stream_name) \<Rightarrow>
          and_then ''Failed to get stream: '' (nc_get_stream C stream_name)
            (and_then ''Failed to create JetStream consumer: ''
              (nc_get_or_create_consumer C stream_name (consumer_name queue_group subject)
                (consumer_settings queue_group subject))
              (and_then ''Failed to get JetStream messages: ''
                (nc_messages C stream_name (consumer_name queue_group subject)) (\<lambda>w. (Inr (), w))))
      | _ \<Rightarrow>
          and_then ''NATS subscribe failed: '' (nc_queue_subscribe C subject queue_group) (\<lambda>w. (Inr (), w)))"

definition nats_remote_transport :: "'x nats_client \<Rightarrow> nats_transport \<Rightarrow> 'x remote_transport" where
  "nats_remote_transport C t = \<lparr>rt_publish = nats_publish C t, rt_subscribe = nats_subscribe C t\<rparr>"

section \<open>Facts\<close>

text \<open>Two topics of a group share their durable consumer exactly when they differ in nothing but the
  replaced characters, for instance \<open>order.created\<close> and \<open>order_created\<close>.\<close>

lemma consumer_name_eq_iff: "consumer_name g s = consumer_name g s' \<longleftrightarrow> map sanitise s = map sanitise s'"
  by (simp add: consumer_name_def)

lemma consumers_collide:
  "consumer_name ''g'' ''order.created'' = consumer_name ''g'' ''order_created''"
  "consumer_name ''g'' ''a_b'' = consumer_name ''g_a'' ''b''"
  by (simp_all add: consumer_name_def sanitise_def)

text \<open>A payload over the limit never reaches the network.\<close>

lemma nats_publish_too_large:
  "max_payload_size < length bs \<Longrightarrow>
     nats_publish C t subject bs i w = (Inl (PayloadTooLarge (of_nat (length bs)) (of_nat max_payload_size)), w)"
  by (simp add: nats_publish_def)

end
