(* ===== verification/Builder.thy ===== *)
theory Builder
  imports Config Remote
begin

text \<open>
  Building a bus (src/src/bus/builder.rs), with both features (\<open>persistence\<close> and \<open>remote\<close>) compiled in:
  the builder, its setters and \<open>build\<close>, which picks the registry, the dispatcher and the transport,
  and the task that hands dead letters to the user's hook. A database is its tables; opening one by
  its path is a parameter.
\<close>

section \<open>The builder\<close>

record ('d, 'r, 'v, 'x) event_bus_builder =
  eb_config :: event_bus_config
  eb_registry :: "'r option"
  eb_custom_dispatcher :: "'d option"
  eb_redb :: "redb_store option"
  eb_redb_path :: "string option"
  eb_dlq_handler :: "('v envelope \<Rightarrow> 'x \<Rightarrow> 'x) option"
  eb_nats_url :: "string option"
  eb_nats_jetstream_name :: "string option"
  eb_nats_jetstream_subjects :: "string list option"
  eb_custom_transport :: "'x remote_transport option"

definition bus_builder_new :: "nat \<Rightarrow> ('d, 'r, 'v, 'x) event_bus_builder" where
  "bus_builder_new cpus =
     \<lparr>eb_config = config_default cpus, eb_registry = None, eb_custom_dispatcher = None, eb_redb = None,
      eb_redb_path = None, eb_dlq_handler = None, eb_nats_url = None, eb_nats_jetstream_name = None,
      eb_nats_jetstream_subjects = None, eb_custom_transport = None\<rparr>"

definition with_config ::
    "event_bus_config \<Rightarrow> ('d, 'r, 'v, 'x) event_bus_builder \<Rightarrow> ('d, 'r, 'v, 'x) event_bus_builder" where
  "with_config c b = b\<lparr>eb_config := c\<rparr>"

definition with_scheduler_tick_rate ::
    "duration \<Rightarrow> ('d, 'r, 'v, 'x) event_bus_builder \<Rightarrow> ('d, 'r, 'v, 'x) event_bus_builder" where
  "with_scheduler_tick_rate d b = b\<lparr>eb_config := (eb_config b)\<lparr>ec_scheduler_tick_rate := d\<rparr>\<rparr>"

definition configure ::
    "(event_bus_config \<Rightarrow> event_bus_config) \<Rightarrow> ('d, 'r, 'v, 'x) event_bus_builder \<Rightarrow>
       ('d, 'r, 'v, 'x) event_bus_builder" where
  "configure f b = b\<lparr>eb_config := f (eb_config b)\<rparr>"

definition builder_registry ::
    "'r \<Rightarrow> ('d, 'r, 'v, 'x) event_bus_builder \<Rightarrow> ('d, 'r, 'v, 'x) event_bus_builder" where
  "builder_registry r b = b\<lparr>eb_registry := Some r\<rparr>"

definition custom_dispatcher ::
    "'d \<Rightarrow> ('d, 'r, 'v, 'x) event_bus_builder \<Rightarrow> ('d, 'r, 'v, 'x) event_bus_builder" where
  "custom_dispatcher d b = b\<lparr>eb_custom_dispatcher := Some d\<rparr>"

definition with_redb ::
    "redb_store \<Rightarrow> ('d, 'r, 'v, 'x) event_bus_builder \<Rightarrow> ('d, 'r, 'v, 'x) event_bus_builder" where
  "with_redb db b = b\<lparr>eb_redb := Some db\<rparr>"

definition with_redb_path ::
    "string \<Rightarrow> ('d, 'r, 'v, 'x) event_bus_builder \<Rightarrow> ('d, 'r, 'v, 'x) event_bus_builder" where
  "with_redb_path p b = b\<lparr>eb_redb_path := Some p\<rparr>"

definition builder_high_throughput ::
    "nat \<Rightarrow> ('d, 'r, 'v, 'x) event_bus_builder \<Rightarrow> ('d, 'r, 'v, 'x) event_bus_builder" where
  "builder_high_throughput cpus b = with_config (config_high_throughput cpus) b"

definition builder_reliable ::
    "nat \<Rightarrow> ('d, 'r, 'v, 'x) event_bus_builder \<Rightarrow> ('d, 'r, 'v, 'x) event_bus_builder" where
  "builder_reliable cpus b = with_config (config_reliable cpus) b"

definition builder_ordered ::
    "nat \<Rightarrow> ('d, 'r, 'v, 'x) event_bus_builder \<Rightarrow> ('d, 'r, 'v, 'x) event_bus_builder" where
  "builder_ordered cpus b = with_config (config_ordered cpus) b"

definition builder_wait_for_persistence ::
    "bool \<Rightarrow> ('d, 'r, 'v, 'x) event_bus_builder \<Rightarrow> ('d, 'r, 'v, 'x) event_bus_builder" where
  "builder_wait_for_persistence w b = b\<lparr>eb_config := (eb_config b)\<lparr>ec_wait_for_persistence := w\<rparr>\<rparr>"

definition with_dlq_handler ::
    "('v envelope \<Rightarrow> 'x \<Rightarrow> 'x) \<Rightarrow> ('d, 'r, 'v, 'x) event_bus_builder \<Rightarrow> ('d, 'r, 'v, 'x) event_bus_builder" where
  "with_dlq_handler h b = b\<lparr>eb_dlq_handler := Some h\<rparr>"

definition with_nats_transport ::
    "string \<Rightarrow> ('d, 'r, 'v, 'x) event_bus_builder \<Rightarrow> ('d, 'r, 'v, 'x) event_bus_builder" where
  "with_nats_transport url b =
     b\<lparr>eb_nats_url := Some url, eb_nats_jetstream_name := None, eb_nats_jetstream_subjects := None\<rparr>"

definition with_nats_jetstream ::
    "string \<Rightarrow> string \<Rightarrow> string list \<Rightarrow> ('d, 'r, 'v, 'x) event_bus_builder \<Rightarrow>
       ('d, 'r, 'v, 'x) event_bus_builder" where
  "with_nats_jetstream url stream_name subjects b =
     b\<lparr>eb_nats_url := Some url, eb_nats_jetstream_name := Some stream_name,
       eb_nats_jetstream_subjects := Some subjects\<rparr>"

definition with_custom_transport ::
    "'x remote_transport \<Rightarrow> ('d, 'r, 'v, 'x) event_bus_builder \<Rightarrow> ('d, 'r, 'v, 'x) event_bus_builder" where
  "with_custom_transport t b = b\<lparr>eb_custom_transport := Some t\<rparr>"

section \<open>The parts of a bus with a registry or a dispatcher of the user's\<close>

definition registry_parts ::
    "('r, 'v) registry_vtable \<Rightarrow> (('r, 'v, 'w) channel_dispatcher, 'r, 'v, 'w) bus_parts" where
  "registry_parts V =
     \<lparr>bp_dispatcher = channel_vtable, bp_registry = V, bp_manager = cd_manager,
      bp_set_manager = (\<lambda>m d. d\<lparr>cd_manager := m\<rparr>)\<rparr>"

text \<open>The user's dispatcher does not hold the manager; the bus keeps it beside.\<close>

definition beside :: "('d, 'v) dispatcher_vtable \<Rightarrow> ('d \<times> 'm, 'v) dispatcher_vtable" where
  "beside D =
     \<lparr>dv_start = (\<lambda>(d, m). bind_outcome (dv_start D d) (\<lambda>(r, d'). Done (r, (d', m)))),
      dv_stop_begin = (\<lambda>(d, m). (dv_stop_begin D d, m)),
      dv_stop_finish = (\<lambda>t (d, m). map_option (\<lambda>(r, d'). (r, (d', m))) (dv_stop_finish D t d)),
      dv_shutdown_begin = (\<lambda>(d, m). (dv_shutdown_begin D d, m)),
      dv_shutdown_finish = (\<lambda>(d, m). map_option (\<lambda>(r, d'). (r, (d', m))) (dv_shutdown_finish D d)),
      dv_dispatch = (\<lambda>now (d, m) env. let (r, d') = dv_dispatch D now d env in (r, (d', m))),
      dv_try_dispatch = (\<lambda>now (d, m) env. let (r, d') = dv_try_dispatch D now d env in (r, (d', m))),
      dv_replay_pending = (\<lambda>(d, m). let (r, d') = dv_replay_pending D d in (r, (d', m))),
      dv_replay_dlq = (\<lambda>(d, m). let (r, d') = dv_replay_dlq D d in (r, (d', m))),
      dv_is_running = (\<lambda>(d, m). dv_is_running D d), dv_stats = (\<lambda>(d, m). dv_stats D d)\<rparr>"

definition dispatcher_parts ::
    "('d, 'v) dispatcher_vtable \<Rightarrow> ('r, 'v) registry_vtable \<Rightarrow>
       ('d \<times> ('r, 'v, 'w) manager, 'r, 'v, 'w) bus_parts" where
  "dispatcher_parts D V =
     \<lparr>bp_dispatcher = beside D, bp_registry = V, bp_manager = snd,
      bp_set_manager = (\<lambda>m (d, _). (d, m))\<rparr>"

section \<open>Building\<close>

definition connect_transport ::
    "'x nats_client \<Rightarrow> ('d, 'r, 'v, 'x) event_bus_builder \<Rightarrow> 'x \<Rightarrow>
       'x remote_transport option result \<times> 'x" where
  "connect_transport C b x =
     (case eb_custom_transport b of
        Some t \<Rightarrow> (Inr (Some t), x)
      | None \<Rightarrow>
          (case eb_nats_url b of
             None \<Rightarrow> (Inr None, x)
           | Some url \<Rightarrow>
               (case (case (eb_nats_jetstream_name b, eb_nats_jetstream_subjects b) of
                        (Some stream_name, Some subjects) \<Rightarrow>
                          nats_connect_jetstream C url stream_name subjects x
                      | _ \<Rightarrow> nats_connect C url x) of
                  (Inl e, x') \<Rightarrow> (Inl e, x')
                | (Inr t, x') \<Rightarrow> (Inr (Some (nats_remote_transport C t)), x'))))"

text \<open>
  What is common to all choices: the manager with its dead letter channel, whose receiver goes to the
  hook's task when there is one and stays in the bus otherwise, the dispatcher, its start, and the
  transport. A channel of capacity zero panics.
\<close>

definition build_manager :: "event_bus_config \<Rightarrow> 'r \<Rightarrow> 'w \<Rightarrow> ('r, 'v, 'w) manager outcome" where
  "build_manager cfg r w =
     bind_outcome (chan_new (ec_dlq_channel_size cfg))
       (\<lambda>c. Done (set_dlq (manager_with_channel_size r w (ec_max_retries cfg) (ec_retry_backoff cfg)
               (ec_handler_channel_size cfg)) c))"

definition start_bus ::
    "('a, 'q, 'v, 'w) bus_parts \<Rightarrow> 'x nats_client \<Rightarrow> ('d, 'r, 'v, 'x) event_bus_builder \<Rightarrow> 'x \<Rightarrow> 'a \<Rightarrow>
       (('a, 'x) event_bus result \<times> 'x) outcome" where
  "start_bus P C b x d0 =
     bind_outcome (dv_start (bp_dispatcher P) d0)
       (\<lambda>(res, d). Done (case res of
          Inl e \<Rightarrow> (Inl e, x)
        | Inr _ \<Rightarrow>
            (case connect_transport C b x of
               (Inl e, x') \<Rightarrow> (Inl e, x')
             | (Inr rt, x') \<Rightarrow>
                 (Inr \<lparr>bus_dispatcher = True, bus_core = d, bus_shutdown_hooks = [], bus_shutdown_state = 0,
                       bus_dlq_rx = (eb_dlq_handler b = None), bus_remote_transport = rt,
                       bus_remote_pending = [], bus_world = x'\<rparr>, x'))))"

text \<open>The six buses that can come out, by the dispatcher and the registry.\<close>

datatype ('d, 'r, 'v, 'w, 'x) built_bus =
    ChannelBus "(('v dashmap_registry, 'v, 'w) channel_dispatcher, 'x) event_bus"
  | RegistryBus "(('r, 'v, 'w) channel_dispatcher, 'x) event_bus"
  | PersistentBus "(('v, 'w) redb_dispatcher, 'x) event_bus"
  | DispatcherBus "('d \<times> ('v dashmap_registry, 'v, 'w) manager, 'x) event_bus"
  | DispatcherRegistryBus "('d \<times> ('r, 'v, 'w) manager, 'x) event_bus"
  | DispatcherPersistentBus "('d \<times> ('v redb_registry, 'v, 'w) manager, 'x) event_bus"

definition finish_build ::
    "('b \<Rightarrow> 'c) \<Rightarrow> ('b result \<times> 'x) outcome \<Rightarrow> ('c result \<times> 'x) outcome" where
  "finish_build K r =
     bind_outcome r (\<lambda>(res, x). Done (case res of Inl e \<Rightarrow> Inl e | Inr b \<Rightarrow> Inr (K b), x))"

definition build_on_registry ::
    "('d, 'v) dispatcher_vtable \<Rightarrow> ('q, 'v) registry_vtable \<Rightarrow> 'x nats_client \<Rightarrow>
       ('d, 'r, 'v, 'x) event_bus_builder \<Rightarrow> 'q \<Rightarrow> 'w \<Rightarrow> 'x \<Rightarrow>
       ((('q, 'v, 'w) channel_dispatcher, 'x) event_bus \<Rightarrow> 'c) \<Rightarrow>
       (('d \<times> ('q, 'v, 'w) manager, 'x) event_bus \<Rightarrow> 'c) \<Rightarrow> ('c result \<times> 'x) outcome" where
  "build_on_registry D V C b r w x on_channel on_custom =
     bind_outcome (build_manager (eb_config b) r w)
       (\<lambda>m. case eb_custom_dispatcher b of
          Some d \<Rightarrow> finish_build on_custom (start_bus (dispatcher_parts D V) C b x (d, m))
        | None \<Rightarrow>
            bind_outcome (cd_new (ec_dispatcher (eb_config b)) m)
              (\<lambda>d. finish_build on_channel (start_bus (registry_parts V) C b x d)))"

definition build_on_database ::
    "('d, 'v) dispatcher_vtable \<Rightarrow> pe_codec \<Rightarrow> 'x nats_client \<Rightarrow> ('d, 'r, 'v, 'x) event_bus_builder \<Rightarrow>
       redb_store \<Rightarrow> 'w \<Rightarrow> 'x \<Rightarrow> (('d, 'r, 'v, 'w, 'x) built_bus result \<times> 'x) outcome" where
  "build_on_database D J C b db w x =
     bind_outcome (build_manager (eb_config b) (redb_registry_new dashmap_new) w)
       (\<lambda>m. case eb_custom_dispatcher b of
          Some d \<Rightarrow> finish_build DispatcherPersistentBus (start_bus (dispatcher_parts D redb_vtable) C b x (d, m))
        | None \<Rightarrow>
            bind_outcome (rd_new db (ec_dispatcher (eb_config b)) (ec_wait_for_persistence (eb_config b)) m)
              (\<lambda>d. finish_build PersistentBus (start_bus (redb_parts J) C b x d)))"

text \<open>\<open>build\<close>: with a database the user's registry is not looked at.\<close>

definition build ::
    "('d, 'v) dispatcher_vtable \<Rightarrow> ('r, 'v) registry_vtable \<Rightarrow> pe_codec \<Rightarrow> 'x nats_client \<Rightarrow>
       (string \<Rightarrow> string + redb_store) \<Rightarrow> ('d, 'r, 'v, 'x) event_bus_builder \<Rightarrow> 'w \<Rightarrow> 'x \<Rightarrow>
       (('d, 'r, 'v, 'w, 'x) built_bus result \<times> 'x) outcome" where
  "build D V J C create_db b w x =
     (case (case eb_redb b of
              Some db \<Rightarrow> Inr (Some db)
            | None \<Rightarrow>
                (case eb_redb_path b of
                   None \<Rightarrow> Inr None
                 | Some p \<Rightarrow>
                     (case create_db p of
                        Inl e \<Rightarrow> Inl (internal (''Failed to create redb database: '' @ e))
                      | Inr db \<Rightarrow> Inr (Some db)))) of
        Inl e \<Rightarrow> Done (Inl e, x)
      | Inr (Some db) \<Rightarrow> build_on_database D J C b db w x
      | Inr None \<Rightarrow>
          (case eb_registry b of
             Some r \<Rightarrow> build_on_registry D V C b r w x RegistryBus DispatcherRegistryBus
           | None \<Rightarrow> build_on_registry D dashmap_vtable C b dashmap_new w x ChannelBus DispatcherBus))"

section \<open>The task of the dead letter hook\<close>

definition dlq_hook_step ::
    "('a, 'q, 'v, 'w) bus_parts \<Rightarrow> ('v envelope \<Rightarrow> 'x \<Rightarrow> 'x) \<Rightarrow> ('a, 'x) event_bus \<Rightarrow>
       ('a, 'x) event_bus option" where
  "dlq_hook_step P hook b =
     (let m = bp_manager P (bus_core b)
      in case sh_dlq (m_shared m) of
           None \<Rightarrow> None
         | Some c \<Rightarrow>
             (case chan_recv c of
                (None, _) \<Rightarrow> None
              | (Some env, c') \<Rightarrow>
                  Some (b\<lparr>bus_world := hook env (bus_world b),
                    bus_core := bp_set_manager P
                      (m\<lparr>m_shared := (m_shared m)\<lparr>sh_dlq := Some c'\<rparr>\<rparr>) (bus_core b)\<rparr>)))"

end
