(* ===== verification/Bus_Protocol.thy ===== *)
theory Bus_Protocol
  imports Event_Bus
begin

text \<open>
  Publications against a graceful shutdown (src/src/bus/mod.rs, \<open>publish_with_metadata\<close> and
  \<open>shutdown_gracefully\<close>), in every interleaving: the two checks of the state, the read lock around
  the second one and the dispatch, the write lock that the shutdown holds while it drains the
  dispatcher. The dispatcher's own tasks are any relation on its state.
\<close>

section \<open>The steps\<close>

text \<open>
  Where a publisher is: before its first check, past it, holding the read lock, past the second
  check (and possibly waiting in the dispatch), done. Where the shutdown is: not called, state set,
  hooks run, holding the write lock, lock released, done.
\<close>

datatype publisher = Entering | Passed | Locked | Rechecked | Finished "unit result"

datatype shutdown_phase = Idle | Marked | HooksRun | Holding | Released | Ended

record ('d, 'v, 'x) bus_system =
  sys_bus :: "('d, 'x) event_bus"
  sys_pubs :: "('v envelope \<times> publisher) list"
  sys_phase :: shutdown_phase
  sys_accepted :: "'v envelope list"

definition set_pub :: "nat \<Rightarrow> publisher \<Rightarrow> ('d, 'v, 'x) bus_system \<Rightarrow> ('d, 'v, 'x) bus_system" where
  "set_pub i pc s = s\<lparr>sys_pubs := (sys_pubs s)[i := (fst (sys_pubs s ! i), pc)]\<rparr>"

definition pub_at :: "('d, 'v, 'x) bus_system \<Rightarrow> nat \<Rightarrow> publisher \<Rightarrow> bool" where
  "pub_at s i pc \<longleftrightarrow> i < length (sys_pubs s) \<and> snd (sys_pubs s ! i) = pc"

definition readers :: "('d, 'v, 'x) bus_system \<Rightarrow> nat set" where
  "readers s = {i. pub_at s i Locked \<or> pub_at s i Rechecked}"

definition set_core :: "'d \<Rightarrow> ('d, 'v, 'x) bus_system \<Rightarrow> ('d, 'v, 'x) bus_system" where
  "set_core d s = s\<lparr>sys_bus := (sys_bus s)\<lparr>bus_core := d\<rparr>\<rparr>"

inductive bus_step ::
    "('d, 'r, 'v, 'w) bus_parts \<Rightarrow> ('d \<Rightarrow> 'd \<Rightarrow> bool) \<Rightarrow>
       ('d, 'v, 'x) bus_system \<Rightarrow> ('d, 'v, 'x) bus_system \<Rightarrow> bool"
  for P work where
  first_check: "pub_at s i Entering \<Longrightarrow> bus_state (sys_bus s) = Running \<Longrightarrow>
     bus_step P work s (set_pub i Passed s)"
| first_refuse: "pub_at s i Entering \<Longrightarrow> bus_state (sys_bus s) \<noteq> Running \<Longrightarrow>
     bus_step P work s (set_pub i (Finished (Inl ShuttingDown)) s)"
| read_lock: "pub_at s i Passed \<Longrightarrow> sys_phase s \<noteq> Holding \<Longrightarrow>
     bus_step P work s (set_pub i Locked s)"
| second_refuse: "pub_at s i Locked \<Longrightarrow>
     \<not> bus_dispatcher (sys_bus s) \<or> bus_state (sys_bus s) \<noteq> Running \<Longrightarrow>
     bus_step P work s (set_pub i (Finished (Inl ShuttingDown)) s)"
| second_check: "pub_at s i Locked \<Longrightarrow> bus_dispatcher (sys_bus s) \<Longrightarrow>
     bus_state (sys_bus s) = Running \<Longrightarrow> bus_step P work s (set_pub i Rechecked s)"
| dispatch_waits: "pub_at s i Rechecked \<Longrightarrow>
     dv_dispatch (bp_dispatcher P) now (bus_core (sys_bus s)) (fst (sys_pubs s ! i)) = (Pending, d) \<Longrightarrow>
     bus_step P work s (set_core d s)"
| dispatch_accepts: "pub_at s i Rechecked \<Longrightarrow>
     dv_dispatch (bp_dispatcher P) now (bus_core (sys_bus s)) (fst (sys_pubs s ! i)) = (Ready (Inr ()), d) \<Longrightarrow>
     bus_step P work s
       ((set_pub i (Finished (Inr ())) (set_core d s))\<lparr>sys_accepted := sys_accepted s @ [fst (sys_pubs s ! i)]\<rparr>)"
| dispatch_refuses: "pub_at s i Rechecked \<Longrightarrow>
     dv_dispatch (bp_dispatcher P) now (bus_core (sys_bus s)) (fst (sys_pubs s ! i)) = (Ready (Inl e), d) \<Longrightarrow>
     bus_step P work s (set_pub i (Finished (Inl e)) (set_core d s))"
| task: "work (bus_core (sys_bus s)) d \<Longrightarrow> bus_step P work s (set_core d s)"
| mark: "sys_phase s = Idle \<Longrightarrow>
     bus_step P work s (s\<lparr>sys_phase := Marked, sys_bus := set_bus_state Draining (sys_bus s)\<rparr>)"
| hooks: "sys_phase s = Marked \<Longrightarrow>
     bus_step P work s (s\<lparr>sys_phase := HooksRun, sys_bus := run_shutdown_hooks (sys_bus s)\<rparr>)"
| write_lock: "sys_phase s = HooksRun \<Longrightarrow> readers s = {} \<Longrightarrow> bus_dispatcher (sys_bus s) \<Longrightarrow>
     bus_step P work s (s\<lparr>sys_phase := Holding, sys_bus := (sys_bus s)\<lparr>bus_dispatcher := False,
       bus_core := dv_shutdown_begin (bp_dispatcher P) (bus_core (sys_bus s))\<rparr>\<rparr>)"
| unlock: "sys_phase s = Holding \<Longrightarrow>
     dv_shutdown_finish (bp_dispatcher P) (bus_core (sys_bus s)) = Some (r, d) \<Longrightarrow>
     bus_step P work s ((set_core d s)\<lparr>sys_phase := Released\<rparr>)"
| finish: "sys_phase s = Released \<Longrightarrow>
     manager_shutdown_gracefully (bp_registry P) oc picks (bp_manager P (bus_core (sys_bus s))) = Some m \<Longrightarrow>
     bus_step P work s (s\<lparr>sys_phase := Ended, sys_bus := set_bus_state Stopped
       ((sys_bus s)\<lparr>bus_core := bp_set_manager P m (bus_core (sys_bus s))\<rparr>)\<rparr>)"

inductive bus_reach ::
    "('d, 'r, 'v, 'w) bus_parts \<Rightarrow> ('d \<Rightarrow> 'd \<Rightarrow> bool) \<Rightarrow>
       ('d, 'v, 'x) bus_system \<Rightarrow> ('d, 'v, 'x) bus_system \<Rightarrow> bool"
  for P work s0 where
  start: "bus_reach P work s0 s0"
| step: "bus_reach P work s0 s \<Longrightarrow> bus_step P work s s' \<Longrightarrow> bus_reach P work s0 s'"

text \<open>A running bus before any call.\<close>

definition fresh_system :: "('d, 'v, 'x) bus_system \<Rightarrow> bool" where
  "fresh_system s \<longleftrightarrow> sys_phase s = Idle \<and> bus_dispatcher (sys_bus s) \<and>
     bus_state (sys_bus s) = Running \<and> sys_accepted s = [] \<and>
     list_all (\<lambda>p. snd p = Entering) (sys_pubs s)"

section \<open>The invariant\<close>

lemma pub_at_set_pub [simp]:
  "pub_at (set_pub i pc s) j pc' \<longleftrightarrow> j < length (sys_pubs s) \<and> (if i = j then pc' = pc else pub_at s j pc')"
  by (auto simp: pub_at_def set_pub_def nth_list_update)

lemma system_sel [simp]:
  "sys_phase (set_pub i pc s) = sys_phase s" "sys_bus (set_pub i pc s) = sys_bus s"
  "sys_accepted (set_pub i pc s) = sys_accepted s" "length (sys_pubs (set_pub i pc s)) = length (sys_pubs s)"
  "sys_phase (set_core d s) = sys_phase s" "sys_pubs (set_core d s) = sys_pubs s"
  "sys_accepted (set_core d s) = sys_accepted s" "bus_dispatcher (sys_bus (set_core d s)) = bus_dispatcher (sys_bus s)"
  "bus_state (sys_bus (set_core d s)) = bus_state (sys_bus s)"
  by (simp_all add: set_pub_def set_core_def bus_state_def)

lemma pub_at_same [simp]:
  "pub_at (set_core d s) i pc \<longleftrightarrow> pub_at s i pc"
  "pub_at (s\<lparr>sys_phase := p, sys_bus := b\<rparr>) i pc \<longleftrightarrow> pub_at s i pc"
  "pub_at (s\<lparr>sys_phase := p\<rparr>) i pc \<longleftrightarrow> pub_at s i pc"
  "pub_at (s\<lparr>sys_accepted := xs\<rparr>) i pc \<longleftrightarrow> pub_at s i pc"
  by (simp_all add: pub_at_def)

lemma set_bus_state_sel [simp]:
  "bus_state (set_bus_state st b) = st" "bus_dispatcher (set_bus_state st b) = bus_dispatcher b"
  by (cases st; simp add: set_bus_state_def bus_state_def shutdown_state_from_u8_def)+

lemma bus_state_update [simp]:
  "bus_state (b\<lparr>bus_core := d\<rparr>) = bus_state b" "bus_state (b\<lparr>bus_dispatcher := x\<rparr>) = bus_state b"
  "bus_state (b\<lparr>bus_dispatcher := x, bus_core := d\<rparr>) = bus_state b"
  "bus_state (run_shutdown_hooks b) = bus_state b"
  "bus_dispatcher (run_shutdown_hooks b) = bus_dispatcher b"
  by (simp_all add: bus_state_def run_shutdown_hooks_def)

text \<open>
  Once the shutdown has begun the state is never \<open>Running\<close> again; before it gets the write lock the
  dispatcher is there; afterwards nobody is inside a dispatch, and the dispatcher is gone.
\<close>

definition protocol_inv :: "('d, 'v, 'x) bus_system \<Rightarrow> bool" where
  "protocol_inv s \<longleftrightarrow>
     (sys_phase s \<noteq> Idle \<longrightarrow> bus_state (sys_bus s) \<noteq> Running) \<and>
     (bus_dispatcher (sys_bus s) \<longleftrightarrow> sys_phase s \<in> {Idle, Marked, HooksRun}) \<and>
     (sys_phase s \<in> {Holding, Released, Ended} \<longrightarrow> (\<forall>i. \<not> pub_at s i Rechecked)) \<and>
     (sys_phase s = Holding \<longrightarrow> (\<forall>i. \<not> pub_at s i Locked))"

lemma protocol_inv_start: "fresh_system s \<Longrightarrow> protocol_inv s"
  by (auto simp: fresh_system_def protocol_inv_def)

lemma protocol_inv_step: "bus_step P work s s' \<Longrightarrow> protocol_inv s \<Longrightarrow> protocol_inv s'"
  by (induction rule: bus_step.induct) (auto simp: protocol_inv_def readers_def)

lemma protocol_inv_reach: "bus_reach P work s0 s \<Longrightarrow> fresh_system s0 \<Longrightarrow> protocol_inv s"
  by (induction rule: bus_reach.induct) (auto intro: protocol_inv_start protocol_inv_step)

text \<open>The accepted events are those of the publishers that were told so.\<close>

definition told_ok :: "('d, 'v, 'x) bus_system \<Rightarrow> 'v envelope multiset" where
  "told_ok s = image_mset fst (filter_mset (\<lambda>p. snd p = Finished (Inr ())) (mset (sys_pubs s)))"

lemma told_ok_set_pub:
  assumes "pub_at s i old" "\<And>r. old \<noteq> Finished r"
  shows "told_ok (set_pub i pc s) =
    (if pc = Finished (Inr ()) then add_mset (fst (sys_pubs s ! i)) (told_ok s) else told_ok s)"
proof -
  have i: "i < length (sys_pubs s)" "snd (sys_pubs s ! i) \<noteq> Finished (Inr ())"
    using assms by (auto simp: pub_at_def)
  then have "filter_mset (\<lambda>p. snd p = Finished (Inr ())) (mset (sys_pubs s) - {#sys_pubs s ! i#}) =
      filter_mset (\<lambda>p. snd p = Finished (Inr ())) (mset (sys_pubs s))"
    by simp
  then show ?thesis
    using i by (simp add: told_ok_def set_pub_def mset_update)
qed

lemma told_ok_same [simp]:
  "told_ok (set_core d s) = told_ok s" "told_ok (s\<lparr>sys_accepted := xs\<rparr>) = told_ok s"
  "told_ok (s\<lparr>sys_phase := p\<rparr>) = told_ok s" "told_ok (s\<lparr>sys_phase := p, sys_bus := b\<rparr>) = told_ok s"
  by (simp_all add: told_ok_def)

lemma told_ok_step:
  "bus_step P work s s' \<Longrightarrow> mset (sys_accepted s) = told_ok s \<Longrightarrow> mset (sys_accepted s') = told_ok s'"
  by (induction rule: bus_step.induct) (auto simp: told_ok_set_pub)

lemma told_ok_reach:
  "bus_reach P work s0 s \<Longrightarrow> fresh_system s0 \<Longrightarrow> mset (sys_accepted s) = told_ok s"
proof (induction rule: bus_reach.induct)
  case start
  then show ?case by (auto simp: fresh_system_def told_ok_def list_all_iff filter_mset_eq_conv)
next
  case (step s s')
  then show ?case using told_ok_step by blast
qed

section \<open>Properties\<close>

text \<open>
  C10: publications and a graceful shutdown, in every interleaving: the events accepted are exactly
  those whose publishers were told so; and once the shutdown holds the lock the dispatcher is out of
  reach: no step accepts an event any more, and every publisher that finishes is told that the bus is
  shutting down. So nothing that was accepted can miss the drain.
\<close>

theorem shutdown_linearizes:
  assumes "bus_reach P work s0 s" "fresh_system s0"
    and "sys_phase s \<in> {Holding, Released, Ended}" "bus_step P work s s'"
  shows "mset (sys_accepted s) = told_ok s \<and> sys_accepted s' = sys_accepted s \<and>
    \<not> bus_dispatcher (sys_bus s) \<and> (\<forall>i. \<not> pub_at s i Rechecked) \<and>
    (\<forall>i r. pub_at s' i (Finished r) \<longrightarrow> pub_at s i (Finished r) \<or> r = Inl ShuttingDown)"
proof -
  have inv: "protocol_inv s" by (rule protocol_inv_reach [OF assms(1,2)])
  then have none: "\<not> bus_dispatcher (sys_bus s)" "\<And>i. \<not> pub_at s i Rechecked"
    using assms(3) by (auto simp: protocol_inv_def)
  have "sys_accepted s' = sys_accepted s \<and>
      (\<forall>i r. pub_at s' i (Finished r) \<longrightarrow> pub_at s i (Finished r) \<or> r = Inl ShuttingDown)"
    using assms(4) none assms(3)
    by (cases rule: bus_step.cases) auto
  then show ?thesis
    using told_ok_reach [OF assms(1,2)] none by blast
qed

definition sample_bus :: "'d \<Rightarrow> ('d, unit) event_bus" where
  "sample_bus d =
     \<lparr>bus_dispatcher = True, bus_core = d, bus_shutdown_hooks = [], bus_shutdown_state = 0,
      bus_dlq_rx = True, bus_remote_transport = None, bus_remote_pending = [], bus_world = ()\<rparr>"

lemma sample_bus_sel [simp]:
  "bus_dispatcher (sample_bus d)" "bus_core (sample_bus d) = d" "bus_state (sample_bus d) = Running"
  "bus_shutdown_hooks (sample_bus d) = []" "bus_remote_transport (sample_bus d) = None"
  by (simp_all add: sample_bus_def bus_state_def shutdown_state_from_u8_def)

definition sample_system ::
    "((nat dashmap_registry, nat, nat) channel_dispatcher, nat, unit) bus_system" where
  "sample_system =
     \<lparr>sys_bus = sample_bus small_dispatcher, sys_pubs = [(echo_env 1, Entering), (echo_env 2, Entering)],
      sys_phase = Idle, sys_accepted = []\<rparr>"

text \<open>The first publisher is through before the shutdown takes the lock, the second comes too late.\<close>

definition sample_held ::
    "((nat dashmap_registry, nat, nat) channel_dispatcher, nat, unit) bus_system" where
  "sample_held =
     (let d = snd (cd_dispatch 0 small_dispatcher (echo_env 1));
          b = run_shutdown_hooks (set_bus_state Draining (sample_bus d))
      in \<lparr>sys_bus = b\<lparr>bus_dispatcher := False, bus_core := cd_shutdown_begin d\<rparr>,
          sys_pubs = [(echo_env 1, Finished (Inr ())), (echo_env 2, Entering)],
          sys_phase = Holding, sys_accepted = [echo_env 1]\<rparr>)"

lemma echo_dispatched: "fst (cd_dispatch 0 small_dispatcher (echo_env 1)) = Ready (Inr ())"
  by (subst cd_dispatch_room) (simp_all add: echo_due)

lemma sample_held_reached: "bus_reach channel_parts (\<lambda>d d'. False) sample_system sample_held"
proof -
  let ?step = "bus_step channel_parts (\<lambda>d d'. False)"
  let ?reach = "bus_reach channel_parts (\<lambda>d d'. False) sample_system"
  let ?d = "snd (cd_dispatch 0 small_dispatcher (echo_env 1))"
  let ?s1 = "set_pub 0 Passed sample_system"
  let ?s2 = "set_pub 0 Locked ?s1"
  let ?s3 = "set_pub 0 Rechecked ?s2"
  let ?s4 = "(set_pub 0 (Finished (Inr ())) (set_core ?d ?s3))\<lparr>sys_accepted := [echo_env 1]\<rparr>"
  let ?s5 = "?s4\<lparr>sys_phase := Marked, sys_bus := set_bus_state Draining (sys_bus ?s4)\<rparr>"
  let ?s6 = "?s5\<lparr>sys_phase := HooksRun, sys_bus := run_shutdown_hooks (sys_bus ?s5)\<rparr>"
  have "?reach ?s1"
    by (rule bus_reach.step [OF bus_reach.start first_check]) (simp_all add: sample_system_def pub_at_def)
  then have "?reach ?s2"
    by (rule bus_reach.step [OF _ read_lock]) (simp_all add: sample_system_def pub_at_def set_pub_def)
  then have "?reach ?s3"
    by (rule bus_reach.step [OF _ second_check]) (simp_all add: sample_system_def pub_at_def set_pub_def)
  moreover have "?step ?s3 ?s4"
    using dispatch_accepts [where s = ?s3 and i = 0 and now = 0 and d = ?d and P = channel_parts]
      echo_dispatched
    by (simp add: sample_system_def pub_at_def set_pub_def prod_eq_iff)
  ultimately have "?reach ?s4" by (rule bus_reach.step)
  then have "?reach ?s5"
    by (rule bus_reach.step [OF _ mark]) (simp add: sample_system_def set_pub_def set_core_def)
  then have "?reach ?s6"
    by (rule bus_reach.step [OF _ hooks]) simp
  then have "?reach (?s6\<lparr>sys_phase := Holding, sys_bus := (sys_bus ?s6)\<lparr>bus_dispatcher := False,
       bus_core := dv_shutdown_begin (bp_dispatcher channel_parts) (bus_core (sys_bus ?s6))\<rparr>\<rparr>)"
    by (rule bus_reach.step [OF _ write_lock])
      (auto simp: sample_system_def readers_def pub_at_def set_pub_def set_core_def less_Suc_eq
        nth_Cons split: nat.splits)
  also have "?s6\<lparr>sys_phase := Holding, sys_bus := (sys_bus ?s6)\<lparr>bus_dispatcher := False,
       bus_core := dv_shutdown_begin (bp_dispatcher channel_parts) (bus_core (sys_bus ?s6))\<rparr>\<rparr> = sample_held"
    by (simp add: sample_held_def sample_system_def set_pub_def set_core_def Let_def
        sample_bus_def set_bus_state_def run_shutdown_hooks_def)
  finally show ?thesis .
qed

theorem shutdown_linearizes_witness:
  "mset (sys_accepted sample_held) = told_ok sample_held \<and>
   sys_accepted (set_pub 1 (Finished (Inl ShuttingDown)) sample_held) = [echo_env 1]"
proof -
  have "fresh_system sample_system"
    by (simp add: fresh_system_def sample_system_def)
  moreover have "sys_phase sample_held = Holding" "sys_accepted sample_held = [echo_env 1]"
    "bus_state (sys_bus sample_held) = Draining" "pub_at sample_held 1 Entering"
    by (simp_all add: sample_held_def Let_def pub_at_def)
  moreover from calculation have "bus_step channel_parts (\<lambda>d d'. False) sample_held
      (set_pub 1 (Finished (Inl ShuttingDown)) sample_held)"
    by (intro first_refuse) simp_all
  ultimately show ?thesis
    using shutdown_linearizes [OF sample_held_reached] by simp
qed

end
