(* ===== verification/Bus_Properties.thy ===== *)
theory Bus_Properties
  imports Bus_Protocol
begin

text \<open>
  Properties of the whole bus (src/src/bus/mod.rs) over its channel dispatcher: what the graceful
  shutdown delivers, how the two publications relate, requests and replies, remote messages.
\<close>

section \<open>Association lists\<close>

lemma alist_ext:
  assumes "map fst xs = map fst ys" "distinct (map fst xs)" "map_of xs = map_of ys"
  shows "xs = ys"
  using assms
proof (induction xs arbitrary: ys)
  case Nil
  then show ?case by simp
next
  case (Cons x xs)
  then obtain y ys' where ys: "ys = y # ys'" "fst y = fst x" "map fst ys' = map fst xs"
    by (cases ys) auto
  have k: "fst x \<notin> mkeys xs" "fst x \<notin> mkeys ys'"
    using Cons.prems(2) ys(3) by (auto simp flip: set_map)
  have at: "map_of (x # xs) k = map_of (y # ys') k" for k
    by (simp only: Cons.prems(3) ys(1))
  have "x = y" using at [of "fst x"] ys(2) by (simp add: prod_eq_iff split: if_splits)
  moreover have "map_of xs k = map_of ys' k" for k
    using at [of k] k ys(2) by (cases "k = fst x") (auto simp: map_of_eq_None_iff [THEN iffD2] split: if_splits)
  then have "xs = ys'" using Cons.IH [of ys'] Cons.prems(2) ys(3) by auto
  ultimately show ?case using ys(1) by simp
qed

lemma map_of_map_values:
  "map_of (map (\<lambda>(k, v). (k, f k v)) xs) k = map_option (f k) (map_of xs k)"
  by (induction xs) auto

section \<open>The graceful shutdown\<close>

definition interested :: "('v dashmap_registry, 'v, 'w) manager \<Rightarrow> uuid \<Rightarrow> 'v envelope list \<Rightarrow> 'v envelope list" where
  "interested m i envs = filter (\<lambda>env. receives m env i) envs"

text \<open>
  A task that runs, whose handle was not signalled and whose handler accepts what its queue holds and
  what is coming for it.
\<close>

definition accepting ::
    "('v dashmap_registry, 'v, 'w) manager \<Rightarrow> 'v envelope list \<Rightarrow> uuid \<times> ('v, 'w) sub_task \<Rightarrow> bool" where
  "accepting m q p \<longleftrightarrow> task_running (snd p) \<and> \<not> cell_signalled (task_cell (snd p)) \<and>
     (\<forall>env\<in>set (chan_buffer (task_queue (snd p)) @ interested m (fst p) q).
        \<forall>w. fst (handle (task_handler (snd p)) env w) = Inr ())"

lemma accepting_delivered: "accepting m q (i, t) \<Longrightarrow> drainable (delivered (interested m i q) t)"
  by (auto simp: accepting_def drainable_def delivered_def)

text \<open>What the worker leaves behind when it has emptied the queue.\<close>

lemma worker_run_subscriptions:
  assumes "registry_inv (sh_registry (m_shared (cd_manager d)))"
    and "room_for (length (chan_buffer (cd_queue d))) (cd_manager d)"
    and "cd_worker d" "cd_running d" "cd_inflight d = None"
    and "distinct (map fst (m_subscriptions (cd_manager d)))"
  shows "\<exists>d'. worker_run dashmap_vtable (length (chan_buffer (cd_queue d))) d = Some d' \<and>
    chan_buffer (cd_queue d') = [] \<and> cd_inflight d' = None \<and> cd_scheduled d' = cd_scheduled d \<and>
    m_shared (cd_manager d') = m_shared (cd_manager d) \<and>
    m_subscriptions (cd_manager d') =
      map (\<lambda>(i, t). (i, delivered (interested (cd_manager d) i (chan_buffer (cd_queue d))) t))
        (m_subscriptions (cd_manager d))"
proof -
  let ?q = "chan_buffer (cd_queue d)" and ?m = "cd_manager d"
  let ?ts = "map (\<lambda>(i, t). (i, delivered (interested ?m i ?q) t)) (m_subscriptions ?m)"
  obtain d' where d': "worker_run dashmap_vtable (length ?q) d = Some d'" "chan_buffer (cd_queue d') = []"
      "cd_inflight d' = None" "cd_scheduled d' = cd_scheduled d" "m_shared (cd_manager d') = m_shared ?m"
      "\<And>i. map_of (m_subscriptions (cd_manager d')) i =
         map_option (delivered (filter (\<lambda>env. receives ?m env i) ?q)) (map_of (m_subscriptions ?m) i)"
      "map fst (m_subscriptions (cd_manager d')) = map fst (m_subscriptions ?m)"
    using worker_run_room [OF assms(1-5) refl] by blast
  have "m_subscriptions (cd_manager d') = ?ts"
  proof (rule alist_ext)
    show "map fst (m_subscriptions (cd_manager d')) = map fst ?ts"
      using d'(7) by (simp add: comp_def split_beta)
    show "distinct (map fst (m_subscriptions (cd_manager d')))"
      using d'(7) assms(6) by simp
    show "map_of (m_subscriptions (cd_manager d')) = map_of ?ts"
      by (rule ext) (simp add: d'(6) map_of_map_values interested_def)
  qed
  with d' show ?thesis by blast
qed

text \<open>The log of what a list of subscriptions executes and acknowledges.\<close>

definition executions :: "(uuid \<times> ('v, 'w) sub_task) list \<Rightarrow> loop_event list" where
  "executions ts = concat (map (\<lambda>(i, t). concat (map (\<lambda>env. [Execute, Increment i, AckEvent i (env_event_id env)])
     (chan_buffer (task_queue t)))) ts)"

lemma executions_delivered:
  "executions (map (\<lambda>(i, t). (i, delivered (f i) t)) ts) =
     concat (map (\<lambda>(i, t). concat (map (\<lambda>env. [Execute, Increment i, AckEvent i (env_event_id env)])
       (chan_buffer (task_queue t) @ f i))) ts)"
  by (simp add: executions_def comp_def case_prod_unfold delivered_def)

text \<open>The second half, once the worker is through.\<close>

lemma graceful_finish_drained:
  assumes "d2 = bus_core b" "chan_buffer (cd_queue d2) = []" "cd_inflight d2 = None" "cd_scheduled d2 = []"
    and "\<forall>p\<in>set (m_subscriptions (cd_manager d2)). drainable (snd p)"
  shows "\<exists>b2. graceful_finish channel_parts oc picks True b = Some (Inr (), b2) \<and>
    bus_state b2 = Stopped \<and> m_subscriptions (cd_manager (bus_core b2)) = [] \<and>
    sh_log (m_shared (cd_manager (bus_core b2))) =
      sh_log (m_shared (cd_manager d2)) @ executions (m_subscriptions (cd_manager d2))"
proof -
  have fin: "cd_shutdown_finish d2 = Some (Inr (), (cd_end_worker d2)\<lparr>cd_running := False\<rparr>)"
    using assms(2-4) by (simp add: cd_shutdown_finish_def)
  have man: "cd_manager (cd_end_worker d2) = cd_manager d2"
    by (simp add: cd_end_worker_def)
  obtain m' where m':
      "manager_shutdown_gracefully dashmap_vtable oc picks (cd_manager d2) = Some m'" "m_subscriptions m' = []"
      "sh_log (m_shared m') = sh_log (m_shared (cd_manager d2)) @ executions (m_subscriptions (cd_manager d2))"
    using manager_graceful_success [OF assms(5), of dashmap_vtable oc picks] by (auto simp: executions_def)
  let ?b2 = "set_bus_state Stopped (b\<lparr>bus_core := ((cd_end_worker d2)\<lparr>cd_running := False\<rparr>)\<lparr>cd_manager := m'\<rparr>\<rparr>)"
  have "graceful_finish channel_parts oc picks True b = Some (Inr (), ?b2)"
    by (simp add: graceful_finish_def assms(1) [symmetric] fin man m'(1))
  moreover have "bus_state ?b2 = Stopped" "cd_manager (bus_core ?b2) = m'"
    by simp (simp add: set_bus_state_def)
  ultimately show ?thesis
    using m'(2,3) by (intro exI [of _ ?b2]) simp
qed

text \<open>
  C4: graceful shutdown, end to end: with room for them in the subscriptions and handlers that accept,
  everything that is in the dispatcher's queue when the shutdown takes the lock is delivered: the
  worker empties the queue, the shutdown returns, the bus is stopped, and every subscription has
  executed and acknowledged what its own queue held and then what it was interested in of the
  dispatcher's queue, each once, in order.
\<close>

theorem graceful_shutdown_delivers:
  fixes b :: "(('v dashmap_registry, 'v, 'w) channel_dispatcher, 'x) event_bus"
  assumes "bus_dispatcher b" "d = bus_core b" "m = cd_manager d" "q = chan_buffer (cd_queue d)"
    and "registry_inv (sh_registry (m_shared m))" "distinct (map fst (m_subscriptions m))"
    and "room_for (length q) m" "\<forall>p\<in>set (m_subscriptions m). accepting m q p"
    and "cd_worker d" "cd_running d" "cd_inflight d = None" "cd_scheduled d = []"
  shows "\<exists>b1 d2 b2. graceful_begin channel_parts b = (True, b1) \<and>
    worker_run dashmap_vtable (length q) (bus_core b1) = Some d2 \<and>
    graceful_finish channel_parts oc picks True (b1\<lparr>bus_core := d2\<rparr>) = Some (Inr (), b2) \<and>
    bus_state b2 = Stopped \<and> m_subscriptions (cd_manager (bus_core b2)) = [] \<and>
    sh_log (m_shared (cd_manager (bus_core b2))) = sh_log (m_shared m) @
      concat (map (\<lambda>(i, t). concat (map (\<lambda>env. [Execute, Increment i, AckEvent i (env_event_id env)])
        (chan_buffer (task_queue t) @ interested m i q))) (m_subscriptions m))"
proof -
  define b1 where "b1 = (run_shutdown_hooks (set_bus_state Draining b))
    \<lparr>bus_dispatcher := False, bus_core := cd_shutdown_begin d\<rparr>"
  have "bus_core (run_shutdown_hooks (set_bus_state Draining b)) = d"
    by (simp add: run_shutdown_hooks_def set_bus_state_def assms(2))
  then have begin_eq: "graceful_begin channel_parts b = (True, b1)" and b1: "bus_core b1 = cd_shutdown_begin d"
    using assms(1) by (simp_all add: graceful_begin_def b1_def Let_def)
  let ?d1 = "cd_shutdown_begin d"
  have d1: "cd_manager ?d1 = m" "cd_queue ?d1 = cd_queue d" "cd_worker ?d1" "cd_running ?d1"
      "cd_inflight ?d1 = None" "cd_scheduled ?d1 = []"
    using assms by (simp_all add: cd_shutdown_begin_def)
  obtain d2 where d2: "worker_run dashmap_vtable (length q) ?d1 = Some d2" "chan_buffer (cd_queue d2) = []"
      "cd_inflight d2 = None" "cd_scheduled d2 = []" "m_shared (cd_manager d2) = m_shared m"
      "m_subscriptions (cd_manager d2) = map (\<lambda>(i, t). (i, delivered (interested m i q) t)) (m_subscriptions m)"
    using worker_run_subscriptions [of ?d1] assms(4-7) d1 by auto
  have "\<forall>p\<in>set (m_subscriptions (cd_manager d2)). drainable (snd p)"
    using assms(8) by (auto simp: d2(6) accepting_delivered)
  from graceful_finish_drained [of d2 "b1\<lparr>bus_core := d2\<rparr>", OF _ d2(2-4) this, of oc picks]
  show ?thesis
    using begin_eq d2(1,5) by (auto simp: b1 d2(6) executions_delivered)
qed

theorem graceful_shutdown_delivers_witness:
  "\<exists>b1 d2 b2. graceful_begin channel_parts (sample_bus (small_dispatcher\<lparr>cd_queue :=
       \<lparr>chan_capacity = 2, chan_buffer = [echo_env 1, echo_env 2], chan_open = True\<rparr>\<rparr>)) = (True, b1) \<and>
     worker_run dashmap_vtable (Suc (Suc 0)) (bus_core b1) = Some d2 \<and>
     graceful_finish channel_parts True (\<lambda>_. 0) True (b1\<lparr>bus_core := d2\<rparr>) = Some (Inr (), b2) \<and>
     sh_log (m_shared (cd_manager (bus_core b2))) =
       [Execute, Increment 1, AckEvent 1 77, Execute, Increment 1, AckEvent 1 77]"
proof -
  let ?q = "[echo_env 1, echo_env 2]"
  let ?d = "small_dispatcher\<lparr>cd_queue := \<lparr>chan_capacity = 2, chan_buffer = ?q, chan_open = True\<rparr>\<rparr>"
  have room: "room_for (length ?q) echo_manager" by (simp add: room_for_def)
  have int: "interested echo_manager 1 ?q = ?q" by (simp add: interested_def echo_receives)
  have "\<forall>p\<in>set (m_subscriptions echo_manager). accepting echo_manager ?q p"
    by (simp add: accepting_def echo_manager_def interested_def handle_new_def)
  moreover have "cd_scheduled ?d = []"
    by (simp add: small_dispatcher_def cd_new_def chan_new_def cd_start_def)
  ultimately show ?thesis
    using graceful_shutdown_delivers [where b = "sample_bus ?d" and d = ?d and m = echo_manager and q = ?q
        and oc = True and picks = "\<lambda>_. 0"] room int
    by (simp add: echo_registry echo_shared_def del: worker_run.simps) blast
qed

section \<open>The two publications\<close>

text \<open>
  C23: the two publications agree: on the channel dispatcher, for an event without a delivery time and
  with no shedding, the non-blocking one succeeds exactly when the other one succeeds without waiting,
  and then both return the same id and leave the same bus.
\<close>

theorem try_publish_agrees:
  assumes "deliver_at md = None" "\<not> dc_drop_on_full (cd_config (bus_core b))"
  shows "try_publish_with_metadata channel_parts T v md now b = (Inr i, b') \<longleftrightarrow>
    publish_with_metadata channel_parts T v md now b = (Ready (Inr i), b')"
proof -
  have at: "deliver_at (metadata (with_metadata T v md)) = None"
    using assms(1) by (simp add: with_metadata_def)
  show ?thesis
    using assms(2) at
    by (auto simp: try_publish_with_metadata_def publish_with_metadata_def publish_under_lock_def
        cd_try_dispatch_def cd_dispatch_def cd_enqueue_def chan_send_def Let_def
        split: prod.splits send_result.splits sum.splits poll.splits if_splits)
qed

theorem try_publish_agrees_witness:
  "\<exists>b'. try_publish_with_metadata channel_parts echo_ty 4 (metadata_new 77 0) 0 (sample_bus small_dispatcher) =
       (Inr 77, b') \<and>
     publish_with_metadata channel_parts echo_ty 4 (metadata_new 77 0) 0 (sample_bus small_dispatcher) =
       (Ready (Inr 77), b')"
proof -
  have "echo_env 4 = with_metadata echo_ty 4 (metadata_new 77 0)"
    by (simp add: echo_env_def envelope_new_def)
  then have "\<exists>b'. try_publish_with_metadata channel_parts echo_ty 4 (metadata_new 77 0) 0
      (sample_bus small_dispatcher) = (Inr 77, b')"
    using cd_dispatch_room(2) [of small_dispatcher "echo_env 4" 0]
    by (simp add: try_publish_with_metadata_def echo_due metadata_new_def)
  then show ?thesis
    using try_publish_agrees [of "metadata_new 77 0" "sample_bus small_dispatcher" echo_ty 4 0 77]
    by (auto simp: metadata_new_def dispatcher_config_default_def)
qed

section \<open>Requests while the bus drains\<close>

lemma world_after_funpow:
  "(\<And>w. snd (handle h env w) = g w) \<Longrightarrow> world_after h env k w = (g ^^ k) w"
  by (induction k arbitrary: w) (simp_all add: funpow_Suc_right del: funpow.simps)

lemma publish_not_running:
  "bus_state b \<noteq> Running \<Longrightarrow> publish_with_metadata P T v md now b = (Ready (Inl ShuttingDown), b)"
  by (simp add: publish_with_metadata_def)

text \<open>A responder that publishes on a bus which is not running, seen from the responder's task.\<close>

lemma responder_refused:
  assumes "bus_state b \<noteq> Running"
    and "\<And>v md w. Ready (fst (send v md w)) = fst (publish_with_metadata P Res v md now b)"
    and "\<And>v md w. snd (send v md w) = w"
    and "get_event Req env = Inr req" "reply_to (metadata env) = Some inbox"
  shows "handle (responder_handler send fresh now Req f) env w = (Inl ShuttingDown, snd (f req w))"
proof -
  have "send v md w = (Inl ShuttingDown, w)" for v md w
    using assms(2) [of v md w] assms(3) [of v md w] assms(1) by (simp add: publish_not_running prod_eq_iff)
  then show ?thesis
    using assms(4,5) by (simp add: responder_handler_def split_beta)
qed



section \<open>Shutting down twice\<close>

lemma shutdown_dispatcher_world:
  "shutdown_dispatcher P wait b = Some b' \<Longrightarrow> bus_world b' = bus_world b \<and>
     bus_shutdown_hooks b' = bus_shutdown_hooks b"
  by (auto simp: shutdown_dispatcher_def Let_def split: if_splits stop_wait.splits)

lemma bus_shutdown_world:
  "bus_shutdown P wait b = Some (res, b') \<Longrightarrow>
     bus_world b' = fold (\<lambda>h w. snd (h w)) (bus_shutdown_hooks b) (bus_world b) \<and>
     bus_shutdown_hooks b' = bus_shutdown_hooks b \<and> res = Inr () \<and> bus_state b' = Stopped"
  by (auto simp: bus_shutdown_def manager_shutdown_def run_shutdown_hooks_def set_bus_state_def
      bus_state_def shutdown_state_from_u8_def dest!: shutdown_dispatcher_world)

text \<open>
  Nothing remembers that the shutdown hooks have run: every further shutdown of a stopped bus
  succeeds and runs all of them again on top of what they did before, and a graceful one puts the
  stopped bus back into the draining state meanwhile.
\<close>

lemma shutdown_hooks_run_again:
  assumes "bus_shutdown P w1 b = Some (r1, b1)" "bus_shutdown P w2 b1 = Some (r2, b2)"
  shows "r2 = Inr () \<and>
    bus_world b2 = fold (\<lambda>h w. snd (h w)) (bus_shutdown_hooks b @ bus_shutdown_hooks b) (bus_world b) \<and>
    bus_state b1 = Stopped \<and> bus_state (snd (graceful_begin P b1)) = Draining \<and>
    bus_world (snd (graceful_begin P b1)) = bus_world b2"
  using bus_shutdown_world [OF assms(1)] bus_shutdown_world [OF assms(2)]
  by (auto simp: graceful_begin_def Let_def run_shutdown_hooks_def set_bus_state_def bus_state_def
      shutdown_state_from_u8_def)

definition counting_bus :: "((nat dashmap_registry, nat, nat) channel_dispatcher, nat) event_bus" where
  "counting_bus =
     \<lparr>bus_dispatcher = True, bus_core = small_dispatcher, bus_shutdown_hooks = [\<lambda>w. (Inr (), w + 1)],
      bus_shutdown_state = 0, bus_dlq_rx = True, bus_remote_transport = None, bus_remote_pending = [],
      bus_world = 0\<rparr>"

lemma shutdown_hooks_run_again_example:
  "\<exists>b1 b2. bus_shutdown channel_parts NoLock counting_bus = Some (Inr (), b1) \<and>
     bus_shutdown channel_parts NoLock b1 = Some (Inr (), b2) \<and> bus_world b2 = 2"
proof -
  obtain r1 b1 where b1: "bus_shutdown channel_parts NoLock counting_bus = Some (r1, b1)"
    by (simp add: bus_shutdown_def shutdown_dispatcher_def manager_shutdown_def)
  obtain r2 b2 where b2: "bus_shutdown channel_parts NoLock b1 = Some (r2, b2)"
    by (simp add: bus_shutdown_def shutdown_dispatcher_def manager_shutdown_def)
  show ?thesis
    using shutdown_hooks_run_again [OF b1 b2] b1 b2 bus_shutdown_world [OF b1]
    by (simp add: counting_bus_def)
qed

section \<open>Messages from the network\<close>

text \<open>
  One message from the network is acknowledged to the broker whatever becomes of it: once the bus is
  shutting down the local publication of a readable message fails, nothing changes, and the message is
  acknowledged all the same.
\<close>

lemma inbound_acknowledged:
  assumes "remote_inbound P T B pill fresh now bs b = (Ready acked, b')"
  shows "acked \<and> (deserialize_event T bs = Inr v \<longrightarrow> bus_state b \<noteq> Running \<longrightarrow>
    publish P T v fresh now b = (Ready (Inl ShuttingDown), b) \<and> b' = b)"
  using assms
  by (auto simp: remote_inbound_def publish_def publish_not_running Let_def
      split: sum.splits prod.splits poll.splits option.splits)

end
