(* ===== verification/Manager_Invariant.thy ===== *)
theory Manager_Invariant
  imports Subscription_Manager Redb_Store
begin

text \<open>
  The well-formedness of the subscription manager (src/src/subscription/mod.rs), for any registry
  that keeps its own laws under the counters and marks of the handler tasks, through every step of
  the manager short of its shutdown.
\<close>

section \<open>Well-formed managers\<close>

text \<open>A task's queue has the configured size; a task that has ended has closed and emptied it.\<close>

definition task_wf :: "nat \<Rightarrow> ('v, 'w) sub_task \<Rightarrow> bool" where
  "task_wf n t \<longleftrightarrow> chan_capacity (task_queue t) = n \<and> length (chan_buffer (task_queue t)) \<le> n \<and>
     (chan_open (task_queue t) \<longleftrightarrow> task_running t) \<and> (\<not> task_running t \<longrightarrow> chan_buffer (task_queue t) = [])"

text \<open>The registry and the map of tasks describe the same subscriptions, each once.\<close>

definition manager_wf ::
    "('r \<Rightarrow> bool) \<Rightarrow> ('r \<Rightarrow> uuid \<Rightarrow> (type_id \<times> 'v sub_entry) option) \<Rightarrow> ('r, 'v, 'w) manager \<Rightarrow> bool" where
  "manager_wf invar entry_of m \<longleftrightarrow>
     invar (sh_registry (m_shared m)) \<and>
     dom (entry_of (sh_registry (m_shared m))) = mkeys (m_subscriptions m) \<and>
     distinct (map fst (m_subscriptions m)) \<and>
     (\<forall>i t. map_of (m_subscriptions m) i = Some t \<longrightarrow> task_wf (m_handler_channel_size m) t)"

text \<open>
  The steps: a subscription with a fresh id, an unsubscription, sends of a dispatch, a task taking an
  envelope or following its handle's signal, the removal of an ended task, and whatever the holders of
  a handle do to its cell.
\<close>

inductive manager_step ::
    "('r, 'v) registry_vtable \<Rightarrow> ('r \<Rightarrow> uuid \<Rightarrow> bool) \<Rightarrow> (string \<Rightarrow> bool) \<Rightarrow> bool \<Rightarrow>
       ('r, 'v, 'w) manager \<Rightarrow> ('r, 'v, 'w) manager \<Rightarrow> bool"
  for V fresh pattern_ok oc where
  subscribes: "fresh (sh_registry (m_shared m)) i \<Longrightarrow> (\<And>p. topic_opt = Some p \<Longrightarrow> pattern_ok p) \<Longrightarrow>
     subscribe_typed V T h name topic_opt i m = Done (res, m') \<Longrightarrow> manager_step V fresh pattern_ok oc m m'"
| subscribes_untyped: "fresh (sh_registry (m_shared m)) i \<Longrightarrow>
     subscribe_untyped V h tid tname i m = Done (res, m') \<Longrightarrow> manager_step V fresh pattern_ok oc m m'"
| unsubscribes: "manager_step V fresh pattern_ok oc m (snd (manager_unsubscribe V i m))"
| sends: "manager_step V fresh pattern_ok oc m (snd (poll_sends env ids m))"
| receives_one: "task_recv V oc i m = Some m' \<Longrightarrow> manager_step V fresh pattern_ok oc m m'"
| signalled: "task_shutdown i m = Some m' \<Longrightarrow> manager_step V fresh pattern_ok oc m m'"
| removed: "auto_unsubscribe V m = Some m' \<Longrightarrow> manager_step V fresh pattern_ok oc m m'"
| handled: "manager_step V fresh pattern_ok oc m (update_cell i f m)"

inductive manager_reach ::
    "('r, 'v) registry_vtable \<Rightarrow> ('r \<Rightarrow> uuid \<Rightarrow> bool) \<Rightarrow> (string \<Rightarrow> bool) \<Rightarrow> bool \<Rightarrow>
       ('r, 'v, 'w) manager \<Rightarrow> ('r, 'v, 'w) manager \<Rightarrow> bool"
  for V fresh pattern_ok oc m0 where
  start: "manager_reach V fresh pattern_ok oc m0 m0"
| step: "manager_reach V fresh pattern_ok oc m0 m \<Longrightarrow> manager_step V fresh pattern_ok oc m m' \<Longrightarrow>
     manager_reach V fresh pattern_ok oc m0 m'"

section \<open>Tasks\<close>

lemma task_wf_new:
  "task_wf n \<lparr>task_handler = h, task_queue = \<lparr>chan_capacity = n, chan_buffer = [], chan_open = True\<rparr>,
     task_cell = c, task_running = True\<rparr>"
  by (simp add: task_wf_def)

lemma task_wf_send: "task_wf n t \<Longrightarrow> task_wf n (t\<lparr>task_queue := snd (chan_send (task_queue t) env)\<rparr>)"
  by (auto simp: task_wf_def chan_send_def chan_try_send_def)

lemma task_wf_recv:
  "task_wf n t \<Longrightarrow> chan_recv (task_queue t) = (Some env, q) \<Longrightarrow> task_wf n (t\<lparr>task_queue := q\<rparr>)"
  by (auto simp: task_wf_def chan_recv_def split: list.splits)

lemma task_wf_end: "task_wf n t \<Longrightarrow> task_wf n (end_task t)"
  by (simp add: task_wf_def end_task_def)

lemma task_wf_cell: "task_wf n t \<Longrightarrow> task_wf n (t\<lparr>task_cell := c\<rparr>)"
  by (simp add: task_wf_def)

lemmas task_wf_intros = task_wf_new task_wf_send task_wf_recv task_wf_end task_wf_cell

text \<open>Replacing the task of a subscription by a well-formed one.\<close>

lemma manager_wf_set_task:
  assumes "manager_wf invar entry_of m" "map_of (m_subscriptions m) i \<noteq> None"
    and "task_wf (m_handler_channel_size m) t"
  shows "manager_wf invar entry_of (set_task i t m)"
  using assms
  by (auto simp: manager_wf_def set_task_def map_of_eq_None_iff split: if_splits)

lemma manager_wf_queue [simp]:
  "manager_wf invar entry_of (m\<lparr>m_unsub_queue := q\<rparr>) \<longleftrightarrow> manager_wf invar entry_of m"
  by (simp add: manager_wf_def)

lemma poll_sends_size [simp]:
  "m_handler_channel_size (snd (poll_sends env ids m)) = m_handler_channel_size m"
  by (induction ids arbitrary: m) (auto simp: split_beta set_task_def split: option.splits)

lemma manager_wf_poll_sends:
  "manager_wf invar entry_of m \<Longrightarrow> manager_wf invar entry_of (snd (poll_sends env ids m))"
proof (induction ids arbitrary: m)
  case Nil
  then show ?case by simp
next
  case (Cons i ids)
  show ?case
  proof (cases "map_of (m_subscriptions m) i")
    case None
    then show ?thesis using Cons by simp
  next
    case (Some t)
    then have "task_wf (m_handler_channel_size m) t"
      using Cons.prems by (simp add: manager_wf_def)
    then have "manager_wf invar entry_of
        (set_task i (t\<lparr>task_queue := snd (chan_send (task_queue t) env)\<rparr>) m)"
      using Some by (intro manager_wf_set_task [OF Cons.prems] task_wf_send) simp_all
    from Cons.IH [OF this] show ?thesis using Some by (simp add: split_beta)
  qed
qed

lemma manager_wf_task:
  "manager_wf invar entry_of m \<Longrightarrow> map_of (m_subscriptions m) i = Some t \<Longrightarrow>
     task_wf (m_handler_channel_size m) t"
  by (simp add: manager_wf_def)

lemma manager_wf_update_cell:
  assumes "manager_wf invar entry_of m"
  shows "manager_wf invar entry_of (update_cell i f m)"
proof (cases "map_of (m_subscriptions m) i")
  case None
  then show ?thesis using assms by (simp add: update_cell_def)
next
  case (Some t)
  then have "manager_wf invar entry_of (set_task i (t\<lparr>task_cell := f (task_cell t)\<rparr>) m)"
    by (intro manager_wf_set_task [OF assms] task_wf_cell manager_wf_task [OF assms]) simp_all
  then show ?thesis using Some by (simp add: update_cell_def)
qed

lemma manager_wf_task_shutdown:
  assumes "manager_wf invar entry_of m" "task_shutdown i m = Some m'"
  shows "manager_wf invar entry_of m'"
proof -
  obtain t where t: "map_of (m_subscriptions m) i = Some t"
      "m' = (set_task i (end_task t) m)\<lparr>m_unsub_queue := m_unsub_queue m @ [i]\<rparr>"
    using assms(2) by (auto simp: task_shutdown_def split: option.splits if_splits)
  then show ?thesis
    by (simp add: manager_wf_set_task [OF assms(1)] task_wf_end manager_wf_task [OF assms(1)])
qed

lemma handle_with_name_id [simp]: "h_id (fst (handle_with_name i n)) = i"
  by (simp add: handle_with_name_def handle_new_def)

text \<open>A change of what the tasks share, as long as it keeps the subscriptions.\<close>

lemma manager_wf_shared:
  assumes "manager_wf invar entry_of m" "invar (sh_registry s)"
    and "dom (entry_of (sh_registry s)) = dom (entry_of (sh_registry (m_shared m)))"
  shows "manager_wf invar entry_of (m\<lparr>m_shared := s\<rparr>)"
  using assms by (simp add: manager_wf_def)

text \<open>Taking a subscription out of both.\<close>

lemma manager_wf_remove:
  assumes "manager_wf invar entry_of m" "invar r"
    and "entry_of r = (entry_of (sh_registry (m_shared m)))(i := None)"
  shows "manager_wf invar entry_of
    (m\<lparr>m_shared := (m_shared m)\<lparr>sh_registry := r\<rparr>, m_subscriptions := mdel i (m_subscriptions m)\<rparr>)"
  using assms by (auto simp: manager_wf_def)

lemma manager_wf_mem:
  "manager_wf invar entry_of m \<Longrightarrow>
     entry_of (sh_registry (m_shared m)) i = None \<longleftrightarrow> map_of (m_subscriptions m) i = None"
  using mkeys_map_of [of i "m_subscriptions m"]
  unfolding manager_wf_def by (metis domIff not_None_eq)

section \<open>The contract with the registry\<close>

text \<open>
  What the manager needs beyond the laws of a registry: that the counters and marks written by its
  tasks keep the registry's invariant and its set of subscriptions.
\<close>

locale observed_registry = event_registry +
  assumes invar_increment: "invar r \<Longrightarrow> invar (vt_increment_processed V r i)"
    and dom_increment: "invar r \<Longrightarrow> dom (live (vt_increment_processed V r i)) = dom (live r)"
    and invar_mark_failed: "invar r \<Longrightarrow> invar (snd (vt_mark_failed V r i j))"
    and dom_mark_failed: "invar r \<Longrightarrow> dom (live (snd (vt_mark_failed V r i j))) = dom (live r)"
    and invar_ack_event: "invar r \<Longrightarrow> invar (vt_ack_event V r i j)"
    and dom_ack_event: "invar r \<Longrightarrow> dom (live (vt_ack_event V r i j)) = dom (live r)"
begin

lemmas observer_laws = invar_increment dom_increment invar_mark_failed dom_mark_failed
  invar_ack_event dom_ack_event

lemma retry_loop_subscriptions:
  fixes s :: "('a, 'b, 'c) shared"
  assumes "retry_loop V h oc mr b sid env a s = Some r" "invar (sh_registry s)"
  shows "invar (sh_registry (loop_state r)) \<and>
    dom (live (sh_registry (loop_state r))) = dom (live (sh_registry s))"
proof (rule retry_loop_keeps [where I = "\<lambda>s'. invar (sh_registry s') \<and>
      dom (live (sh_registry s')) = dom (live (sh_registry s))", OF assms(1)])
  fix s' :: "('a, 'b, 'c) shared"
  assume s': "invar (sh_registry s') \<and> dom (live (sh_registry s')) = dom (live (sh_registry s))"
  show "invar (sh_registry (loop_state (on_permanent_error V sid env s'))) \<and>
      dom (live (sh_registry (loop_state (on_permanent_error V sid env s')))) = dom (live (sh_registry s))"
    using s' by (auto simp: on_permanent_error_def mark_failed_def log_event_def observer_laws
        split: option.split prod.split poll.split)
qed (simp_all add: assms(2) observer_laws on_success_def log_event_def run_handler_def Let_def split_beta)

lemma task_recv_wf:
  assumes "manager_wf invar live m" "task_recv V oc i m = Some m'"
  shows "manager_wf invar live m'"
proof -
  obtain t env q r where t: "map_of (m_subscriptions m) i = Some t"
      "chan_recv (task_queue t) = (Some env, q)"
      "retry_loop V (task_handler t) oc (m_max_retries m) (m_retry_backoff m) i env 0 (m_shared m) = Some r"
      "m' = set_task i (t\<lparr>task_queue := q\<rparr>) (m\<lparr>m_shared := loop_state r\<rparr>) \<or>
       m' = set_task i (end_task t) (m\<lparr>m_shared := loop_state r\<rparr>)"
    using assms(2)
    by (fastforce simp: task_recv_def split: option.splits if_splits prod.splits loop_result.splits)
  have "manager_wf invar live (m\<lparr>m_shared := loop_state r\<rparr>)"
    using assms(1) retry_loop_subscriptions [OF t(3)]
    by (intro manager_wf_shared) (auto simp: manager_wf_def)
  from manager_wf_set_task [OF this] show ?thesis
    using t(1,2,4) manager_wf_task [OF assms(1) t(1)] by (auto intro: task_wf_intros)
qed

lemma spawn_and_register_wf:
  assumes "manager_wf invar live m" "fresh (sh_registry (m_shared m)) (sub_id e)"
    and "\<And>p. sub_topic e = Some p \<Longrightarrow> pattern_ok p"
    and "spawn_and_register V h tid tname e (hdl, c) m = Done (res, m')" "h_id hdl = sub_id e"
  shows "manager_wf invar live m'"
proof -
  let ?r = "snd (vt_register V (sh_registry (m_shared m)) tid tname e)"
  have inv: "invar (sh_registry (m_shared m))" using assms(1) by (simp add: manager_wf_def)
  obtain t where "m' = (set_task (sub_id e) t m)\<lparr>m_shared := (m_shared m)\<lparr>sh_registry := ?r\<rparr>\<rparr>"
      "task_wf (m_handler_channel_size m) t"
    using assms(4) register_ok [of "sh_registry (m_shared m)" tid tname e]
    by (auto simp: spawn_and_register_def chan_new_def Let_def split_beta assms(5)
        set_task_def task_wf_new split: if_splits)
  moreover have "invar ?r" "live ?r = (live (sh_registry (m_shared m)))(sub_id e \<mapsto> (tid, e))"
    using invar_register [OF inv assms(2,3)] live_register [OF inv assms(2)] by simp_all
  ultimately show ?thesis
    using assms(1) by (auto simp: manager_wf_def set_task_def)
qed

lemma manager_unsubscribe_wf:
  assumes "manager_wf invar live m"
  shows "manager_wf invar live (snd (manager_unsubscribe V i m))"
proof -
  let ?r = "snd (vt_unregister V (sh_registry (m_shared m)) i)"
  have inv: "invar (sh_registry (m_shared m))" using assms by (simp add: manager_wf_def)
  note r = invar_unregister [OF inv, of i] live_unregister [OF inv, of i] unregister_result [OF inv, of i]
  note mem = manager_wf_mem [OF assms, of i]
  show ?thesis
  proof (cases "map_of (m_subscriptions m) i = None")
    case True
    then have "manager_wf invar live (m\<lparr>m_shared := (m_shared m)\<lparr>sh_registry := ?r\<rparr>\<rparr>)"
      using assms r mem by (intro manager_wf_shared) auto
    then show ?thesis
      using True mem r(3)
      by (auto simp: manager_unsubscribe_def split_beta manager_wf_update_cell split: sum.split)
  next
    case False
    then show ?thesis
      using manager_wf_remove [OF assms r(1,2)] mem r(3)
      by (auto simp: manager_unsubscribe_def split_beta Let_def split: sum.split)
  qed
qed

lemma auto_unsubscribe_wf:
  assumes "manager_wf invar live m" "auto_unsubscribe V m = Some m'"
  shows "manager_wf invar live m'"
proof -
  have inv: "invar (sh_registry (m_shared m))" using assms(1) by (simp add: manager_wf_def)
  obtain i rest where q: "m_unsub_queue m = i # rest"
    using assms(2) by (auto simp: auto_unsubscribe_def split: list.splits)
  let ?r = "snd (vt_unregister V (sh_registry (m_shared m)) i)"
  have "manager_wf invar live (m\<lparr>m_shared := (m_shared m)\<lparr>sh_registry := ?r\<rparr>,
      m_subscriptions := mdel i (m_subscriptions m)\<rparr>)"
    by (rule manager_wf_remove [OF assms(1) invar_unregister live_unregister, OF inv inv])
  moreover have "m' = m\<lparr>m_unsub_queue := rest\<rparr> \<or>
      m' = m\<lparr>m_unsub_queue := rest, m_subscriptions := mdel i (m_subscriptions m),
        m_shared := (m_shared m)\<lparr>sh_registry := ?r\<rparr>\<rparr>"
    using assms(2) q by (auto simp: auto_unsubscribe_def Let_def split: if_splits)
  ultimately show ?thesis
    using assms(1) unfolding manager_wf_def by (elim disjE) simp_all
qed

lemma manager_step_wf:
  "manager_step V fresh pattern_ok oc m m' \<Longrightarrow> manager_wf invar live m \<Longrightarrow> manager_wf invar live m'"
proof (induction rule: manager_step.induct)
  case (subscribes m i topic_opt T h name res m')
  have "sub_id (typed_entry h name topic_opt i) = i" "sub_topic (typed_entry h name topic_opt i) = topic_opt"
    by (auto simp: typed_entry_def Let_def split: option.splits)
  then show ?case
    using subscribes spawn_and_register_wf
      [of m "typed_entry h name topic_opt i" h "ty_type_id T" "ty_name T" "fst (handle_with_name i name)"
        "snd (handle_with_name i name)" res m']
    by (simp add: subscribe_typed_def)
next
  case (subscribes_untyped m i h tid tname res m')
  then show ?case
    using spawn_and_register_wf
      [of m "entry_with_name i (''Handler<'' @ tname @ ''>'')" h tid tname
        "fst (handle_with_name i (''Handler<'' @ tname @ ''>''))"
        "snd (handle_with_name i (''Handler<'' @ tname @ ''>''))" res m']
    by (simp add: subscribe_untyped_def Let_def)
qed (auto intro: manager_unsubscribe_wf manager_wf_poll_sends task_recv_wf manager_wf_task_shutdown
    auto_unsubscribe_wf manager_wf_update_cell)

lemma manager_reach_wf:
  "manager_reach V fresh pattern_ok oc m m' \<Longrightarrow> manager_wf invar live m \<Longrightarrow> manager_wf invar live m'"
  by (induction rule: manager_reach.induct) (auto intro: manager_step_wf)

end

section \<open>The registries of the crate keep the contract\<close>

lemma increment_processed_inv: "registry_inv r \<Longrightarrow> registry_inv (increment_processed r i)"
  by (simp add: increment_processed_touch registry_inv_touch)

lemma live_increment_dom:
  "registry_inv r \<Longrightarrow> dom (live (increment_processed r i)) = dom (live r)"
  by (auto simp: increment_processed_touch live_touch dom_def)

interpretation dash_obs: observed_registry dashmap_vtable registry_inv live fresh_id valid_topic
  by unfold_locales
    (simp_all add: provided_mark_failed_def provided_ack_event_def live_increment_dom
      increment_processed_inv)

interpretation redb_obs: observed_registry redb_vtable "\<lambda>r. registry_inv (rr_inner r)"
    "\<lambda>r. live (rr_inner r)" "\<lambda>r. fresh_id (rr_inner r)" valid_topic
  by unfold_locales
    (simp_all add: redb_vtable_def redb_mark_failed_def redb_ack_event_def live_increment_dom
      increment_processed_inv)

section \<open>Reachable managers\<close>

inductive_cases manager_reachE [elim]: "manager_reach V fresh pattern_ok oc m0 m"

inductive_simps manager_step_simps: "manager_step V fresh pattern_ok oc m m'"

lemma manager_wf_new:
  "invar r \<Longrightarrow> entry_of r = Map.empty \<Longrightarrow>
     manager_wf invar entry_of (manager_with_channel_size r w retries backoff n)"
  by (simp add: manager_wf_def manager_with_channel_size_def)

lemma set_task_size [simp]: "m_handler_channel_size (set_task i t m) = m_handler_channel_size m"
  by (simp add: set_task_def)

lemma update_cell_size [simp]: "m_handler_channel_size (update_cell i f m) = m_handler_channel_size m"
  by (simp add: update_cell_def split: option.split)

lemma spawn_and_register_size:
  "spawn_and_register V h tid tname e hc m = Done (res, m') \<Longrightarrow>
     m_handler_channel_size m' = m_handler_channel_size m"
  by (cases "fst (vt_register V (sh_registry (m_shared m)) tid tname e)")
    (auto simp: spawn_and_register_def Let_def split_beta set_task_def update_cell_def split: option.split)

lemma manager_step_size:
  "manager_step V fresh pattern_ok oc m m' \<Longrightarrow> m_handler_channel_size m' = m_handler_channel_size m"
  by (induction rule: manager_step.induct)
    (auto simp: subscribe_typed_def subscribe_untyped_def Let_def manager_unsubscribe_def
      task_recv_def task_shutdown_def auto_unsubscribe_def dest: spawn_and_register_size
      split: sum.splits prod.splits option.splits list.splits if_splits loop_result.splits)

lemma manager_reach_size:
  "manager_reach V fresh pattern_ok oc m m' \<Longrightarrow> m_handler_channel_size m' = m_handler_channel_size m"
  by (induction rule: manager_reach.induct) (simp_all add: manager_step_size)

text \<open>The same with the persistent registry.\<close>

lemma redb_manager_reach_wf:
  "manager_reach redb_vtable (\<lambda>r. fresh_id (rr_inner r)) valid_topic oc
     (manager_with_channel_size (redb_registry_new dashmap_new) w retries backoff n) m \<Longrightarrow>
   manager_wf (\<lambda>r. registry_inv (rr_inner r)) (\<lambda>r. live (rr_inner r)) m"
  by (rule redb_obs.manager_reach_wf, assumption)
    (simp add: manager_wf_new registry_inv_new live_new redb_registry_new_def)



end
