(* ===== verification/Life_Cycle.thy ===== *)
theory Life_Cycle
  imports Builder Bus_Properties Manager_Invariant
begin

text \<open>
  The life of a bus from its builder on (src/src/bus/builder.rs, src/src/bus/mod.rs): what \<open>build\<close>
  returns, and the way of an event from a publication on the built bus to the handler.
\<close>

section \<open>What is built\<close>

text \<open>A builder that leaves the registry, the dispatcher, the database and the transport alone.\<close>

definition plain_builder :: "('d, 'r, 'v, 'x) event_bus_builder \<Rightarrow> bool" where
  "plain_builder b \<longleftrightarrow> eb_registry b = None \<and> eb_custom_dispatcher b = None \<and> eb_redb b = None \<and>
     eb_redb_path b = None \<and> eb_custom_transport b = None \<and> eb_nats_url b = None"

definition new_manager :: "event_bus_config \<Rightarrow> 'w \<Rightarrow> ('v dashmap_registry, 'v, 'w) manager" where
  "new_manager cfg w =
     set_dlq (manager_with_channel_size dashmap_new w (ec_max_retries cfg) (ec_retry_backoff cfg)
       (ec_handler_channel_size cfg))
       \<lparr>chan_capacity = ec_dlq_channel_size cfg, chan_buffer = [], chan_open = True\<rparr>"

definition new_core :: "event_bus_config \<Rightarrow> 'w \<Rightarrow> ('v dashmap_registry, 'v, 'w) channel_dispatcher" where
  "new_core cfg w =
     \<lparr>cd_config = ec_dispatcher cfg, cd_sender = True, cd_receiver = False,
      cd_queue = \<lparr>chan_capacity = dc_max_queue_size (ec_dispatcher cfg), chan_buffer = [], chan_open = True\<rparr>,
      cd_scheduled = [], cd_manager = new_manager cfg w, cd_worker = True, cd_inflight = None,
      cd_running = True, cd_events_dispatched = 0, cd_dispatch_errors = 0,
      cd_total_dispatch_time_us = 0, cd_max_queue_size = 0\<rparr>"

definition new_bus ::
    "event_bus_config \<Rightarrow> bool \<Rightarrow> 'w \<Rightarrow> 'x \<Rightarrow> (('v dashmap_registry, 'v, 'w) channel_dispatcher, 'x) event_bus" where
  "new_bus cfg rx w x =
     \<lparr>bus_dispatcher = True, bus_core = new_core cfg w, bus_shutdown_hooks = [], bus_shutdown_state = 0,
      bus_dlq_rx = rx, bus_remote_transport = None, bus_remote_pending = [], bus_world = x\<rparr>"

lemma registry_parts_dashmap: "registry_parts dashmap_vtable = channel_parts"
  by (simp add: registry_parts_def channel_parts_def)

lemma build_plain:
  assumes "plain_builder b"
  shows "build D V J C create_db b w x =
    (if ec_dlq_channel_size (eb_config b) = 0 \<or> dc_max_queue_size (ec_dispatcher (eb_config b)) = 0 then Panic
     else Done (Inr (ChannelBus (new_bus (eb_config b) (eb_dlq_handler b = None) w x)), x))"
  using assms
  by (auto simp: plain_builder_def build_def build_on_registry_def build_manager_def chan_new_def cd_new_def
      registry_parts_dashmap start_bus_def channel_vtable_def cd_start_def connect_transport_def
      finish_build_def new_bus_def new_core_def new_manager_def)

lemma new_manager_sel [simp]:
  "m_handler_channel_size (new_manager cfg w) = ec_handler_channel_size cfg"
  "m_max_retries (new_manager cfg w) = ec_max_retries cfg"
  "m_retry_backoff (new_manager cfg w) = ec_retry_backoff cfg"
  "m_subscriptions (new_manager cfg w) = []" "sh_registry (m_shared (new_manager cfg w)) = dashmap_new"
  "sh_world (m_shared (new_manager cfg w)) = w" "sh_log (m_shared (new_manager cfg w)) = []"
  by (simp_all add: new_manager_def set_dlq_def manager_with_channel_size_def)

lemma new_core_sel [simp]:
  "cd_running (new_core cfg w)" "cd_sender (new_core cfg w)" "cd_worker (new_core cfg w)"
  "cd_inflight (new_core cfg w) = None" "cd_manager (new_core cfg w) = new_manager cfg w"
  "cd_queue (new_core cfg w) = \<lparr>chan_capacity = dc_max_queue_size (ec_dispatcher cfg), chan_buffer = [],
     chan_open = True\<rparr>"
  by (simp_all add: new_core_def)

lemma new_bus_sel [simp]:
  "bus_dispatcher (new_bus cfg rx w x)" "bus_core (new_bus cfg rx w x) = new_core cfg w"
  "bus_state (new_bus cfg rx w x) = Running" "is_shutting_down (new_bus cfg rx w x) = False"
  by (simp_all add: new_bus_def bus_state_def is_shutting_down_def shutdown_state_from_u8_def)

lemma fresh_id_new: "fresh_id dashmap_new i"
  by (simp add: fresh_id_def dashmap_new_def)

section \<open>From the publication to the handler\<close>

lemma publish_metadata_room:
  assumes "bus_dispatcher b" "bus_state b = Running" "d = bus_core b" "deliver_at md = None"
    and "cd_running d" "cd_sender d" "chan_open (cd_queue d)"
    and "length (chan_buffer (cd_queue d)) < chan_capacity (cd_queue d)"
  shows "publish_with_metadata channel_parts T v md now b = (Ready (Inr (event_id md)),
    b\<lparr>bus_core := (record_queue_size d)\<lparr>cd_queue :=
      (cd_queue d)\<lparr>chan_buffer := chan_buffer (cd_queue d) @ [with_metadata T v md]\<rparr>\<rparr>\<rparr>)"
proof -
  have "deliver_at (metadata (with_metadata T v md)) = None"
    by (simp add: assms(4))
  from cd_dispatch_room(1) [OF assms(5-8) this, of now] show ?thesis
    using assms(1-3) by (simp add: publish_with_metadata_def publish_under_lock_def channel_vtable_def)
qed

lemma publish_room:
  assumes "bus_dispatcher b" "bus_state b = Running" "d = bus_core b"
    and "cd_running d" "cd_sender d" "chan_open (cd_queue d)"
    and "length (chan_buffer (cd_queue d)) < chan_capacity (cd_queue d)"
  shows "publish channel_parts T v e now b = (Ready (Inr e), b\<lparr>bus_core := (record_queue_size d)
    \<lparr>cd_queue := (cd_queue d)\<lparr>chan_buffer := chan_buffer (cd_queue d) @ [envelope_new T v e now]\<rparr>\<rparr>\<rparr>)"
proof -
  have "deliver_at (metadata_new e now) = None" "event_id (metadata_new e now) = e"
    by (simp_all add: metadata_new_def)
  with publish_metadata_room [OF assms(1-3) _ assms(4-7), of "metadata_new e now" T v now] show ?thesis
    by (simp add: publish_def envelope_new_def)
qed

lemma retry_loop_first_success:
  "fst (handle h env (sh_world s)) = Inr () \<Longrightarrow>
   retry_loop V h oc mr b sid env a s = Some (Completed (on_success V sid env (snd (run_handler h env s))))"
  by (subst retry_loop.simps) (simp add: run_handler_def split_beta)

lemma task_recv_success:
  assumes "map_of (m_subscriptions m) i = Some t" "task_running t" "chan_buffer (task_queue t) = env # envs"
    and "fst (handle (task_handler t) env (sh_world (m_shared m))) = Inr ()"
  shows "task_recv V oc i m = Some (set_task i (t\<lparr>task_queue := (task_queue t)\<lparr>chan_buffer := envs\<rparr>\<rparr>)
    (m\<lparr>m_shared := on_success V i env (snd (run_handler (task_handler t) env (m_shared m)))\<rparr>))"
  using assms by (simp add: task_recv_def chan_recv_def retry_loop_first_success)

lemma on_success_log:
  "sh_log (on_success V i env s) = sh_log s @ [Increment i, AckEvent i (env_event_id env)]"
  "sh_world (on_success V i env s) = sh_world s"
  by (simp_all add: on_success_def log_event_def)

text \<open>A dispatcher with one event in its queue and one subscription that receives it: the worker hands the
  event over and the task handles it.\<close>

lemma first_event_handled:
  assumes "registry_inv (sh_registry (m_shared m))" "receives m env i" "0 < n"
    and "m_subscriptions m = [(i, \<lparr>task_handler = h,
       task_queue = \<lparr>chan_capacity = n, chan_buffer = [], chan_open = True\<rparr>, task_cell = c, task_running = True\<rparr>)]"
    and "handle h env (sh_world (m_shared m)) = (Inr (), w')"
    and "cd_manager d = m" "cd_worker d" "cd_running d" "cd_inflight d = None" "chan_buffer (cd_queue d) = [env]"
  shows "\<exists>d' m'. worker_take dashmap_vtable us d = Some d' \<and>
    task_recv dashmap_vtable oc i (cd_manager d') = Some m' \<and> sh_world (m_shared m') = w' \<and>
    sh_log (m_shared m') = sh_log (m_shared m) @ [Execute, Increment i, AckEvent i (env_event_id env)]"
proof -
  have room: "room_for (Suc 0) m"
    using assms(3) by (simp add: room_for_def assms(4))
  let ?m = "snd (manager_dispatch dashmap_vtable env m)"
  obtain d' where d': "worker_take dashmap_vtable us d = Some d'" "cd_manager d' = ?m"
    using worker_take_room [of d 0 env "[]" us] assms(1,6-10) room by (auto simp: cd_count_success_def)
  obtain t where t: "map_of (m_subscriptions ?m) i = Some t" "task_running t" "task_handler t = h"
      "chan_buffer (task_queue t) = [env]"
    using dispatch_step(1) [OF assms(1) room refl, of env i] assms(2,4) by (auto simp: delivered_def)
  have "m_shared ?m = m_shared m"
    using dispatch_step(4) [OF assms(1) room refl] .
  then have "\<exists>m'. task_recv dashmap_vtable oc i (cd_manager d') = Some m' \<and> sh_world (m_shared m') = w' \<and>
      sh_log (m_shared m') = sh_log (m_shared m) @ [Execute, Increment i, AckEvent i (env_event_id env)]"
    using task_recv_success [OF t(1,2,4), of dashmap_vtable oc] t(3) d'(2) assms(5)
    by (simp add: on_success_log run_handler_def log_event_def)
  then show ?thesis using d'(1) by blast
qed

lemma new_manager_subscribed:
  fixes f :: "'v \<Rightarrow> 'w \<Rightarrow> 'w" and w :: 'w and v :: 'v and e i :: uuid and now :: datetime and cfg :: event_bus_config
  assumes "default_type_id T"
  defines "h \<equiv> function_handler T f" and "env \<equiv> envelope_new T v e now"
  defines "m1 \<equiv> subscribed_with T h (''Handler<'' @ ty_name T @ ''>'') None i (new_manager cfg w)"
  shows "registry_inv (sh_registry (m_shared m1))" "receives m1 env i"
    "m_subscriptions m1 = [(i, \<lparr>task_handler = h,
       task_queue = \<lparr>chan_capacity = ec_handler_channel_size cfg, chan_buffer = [], chan_open = True\<rparr>,
       task_cell = snd (handle_new i), task_running = True\<rparr>)]"
    "sh_world (m_shared m1) = w" "sh_log (m_shared m1) = []"
    "handle h env w = (Inr (), f v w)"
proof -
  let ?name = "''Handler<'' @ ty_name T @ ''>''"
  show "registry_inv (sh_registry (m_shared m1))" "receives m1 env i"
    "m_subscriptions m1 = [(i, \<lparr>task_handler = h,
       task_queue = \<lparr>chan_capacity = ec_handler_channel_size cfg, chan_buffer = [], chan_open = True\<rparr>,
       task_cell = snd (handle_new i), task_running = True\<rparr>)]"
    "sh_world (m_shared m1) = w" "sh_log (m_shared m1) = []"
    using subscribed_with_live(2) [of "new_manager cfg w" i None T h ?name]
      subscribed_with_receives(1) [of "new_manager cfg w" i None T h ?name env]
    by (simp_all add: m1_def registry_inv_new fresh_id_new env_def envelope_new_def h_def
        function_handler_def function_handler_with_name_def provided_filter_def)
      (simp_all add: subscribed_with_def set_task_def)
  show "handle h env w = (Inr (), f v w)"
    using get_event_with_metadata [OF assms(1)]
    by (simp add: h_def function_handler_def function_handler_with_name_def env_def envelope_new_def)
qed

text \<open>
  C7: from end to end: with non-zero channel sizes the plain builder returns a running bus, on which
  a function subscribed to an event type receives a value published with that type: the publication
  succeeds without waiting, the worker hands the envelope to the task, and the task runs the function
  on the value once and acknowledges it.
\<close>

theorem built_bus_delivers:
  fixes b :: "('d, 'r, 'v, 'x) event_bus_builder" and f :: "'v \<Rightarrow> 'w \<Rightarrow> 'w"
  assumes "plain_builder b" "0 < ec_dlq_channel_size (eb_config b)"
    and "0 < dc_max_queue_size (ec_dispatcher (eb_config b))" "0 < ec_handler_channel_size (eb_config b)"
    and "default_type_id T"
  shows "\<exists>bus b1 b2 d3 m4. build D V J C create_db b w x = Done (Inr (ChannelBus bus), x) \<and>
    bus_subscribe channel_parts T f i bus =
      Done (Inr \<lparr>h_id = i, h_name = Some (''Handler<'' @ ty_name T @ ''>'')\<rparr>, b1) \<and>
    publish channel_parts T v e now b1 = (Ready (Inr e), b2) \<and>
    worker_take dashmap_vtable us (bus_core b2) = Some d3 \<and>
    task_recv dashmap_vtable oc i (cd_manager d3) = Some m4 \<and>
    sh_world (m_shared m4) = f v w \<and> sh_log (m_shared m4) = [Execute, Increment i, AckEvent i e]"
proof -
  define cfg where "cfg = eb_config b"
  define h where "h = function_handler T f"
  define name where "name = ''Handler<'' @ ty_name T @ ''>''"
  define env where "env = envelope_new T v e now"
  let ?bus = "new_bus cfg (eb_dlq_handler b = None) w x"
  define m1 where "m1 = subscribed_with T h name None i (new_manager cfg w)"
  define d1 where "d1 = (new_core cfg w)\<lparr>cd_manager := m1\<rparr>"
  let ?b1 = "?bus\<lparr>bus_core := d1\<rparr>"
  have build: "build D V J C create_db b w x = Done (Inr (ChannelBus ?bus), x)"
    using assms(1-3) by (simp add: build_plain cfg_def)
  have sub: "bus_subscribe channel_parts T f i ?bus = Done (Inr \<lparr>h_id = i, h_name = Some name\<rparr>, ?b1)"
    using assms(4)
    by (simp add: bus_subscribe_def on_manager_def subscribe_fn_def subscribe_def subscribe_typed_run
        h_def name_def m1_def d1_def cfg_def)
  have m1: "registry_inv (sh_registry (m_shared m1))" "receives m1 env i"
      "m_subscriptions m1 = [(i, \<lparr>task_handler = h,
         task_queue = \<lparr>chan_capacity = ec_handler_channel_size cfg, chan_buffer = [], chan_open = True\<rparr>,
         task_cell = snd (handle_new i), task_running = True\<rparr>)]"
      "sh_world (m_shared m1) = w" "sh_log (m_shared m1) = []" "handle h env w = (Inr (), f v w)"
    using new_manager_subscribed [OF assms(5)] by (simp_all add: h_def name_def env_def m1_def)
  define d2 where "d2 = (record_queue_size d1)\<lparr>cd_queue := (cd_queue d1)\<lparr>chan_buffer := [env]\<rparr>\<rparr>"
  have bd1: "bus_state ?b1 = Running"
    by (simp add: bus_state_def) (simp add: new_bus_def shutdown_state_from_u8_def)
  have pub: "publish channel_parts T v e now ?b1 = (Ready (Inr e), ?b1\<lparr>bus_core := d2\<rparr>)"
    using publish_room [of ?b1 d1 T v e now] bd1 assms(3) by (simp add: d1_def d2_def env_def cfg_def)
  have d2: "cd_manager d2 = m1" "cd_worker d2" "cd_running d2" "cd_inflight d2 = None"
      "chan_buffer (cd_queue d2) = [env]"
    by (simp_all add: d2_def d1_def record_queue_size_def Let_def)
  have "handle h env (sh_world (m_shared m1)) = (Inr (), f v w)" using m1(4,6) by simp
  note handled = first_event_handled [OF m1(1,2) _ m1(3) this d2]
  have "env_event_id env = e"
    by (simp add: env_def envelope_new_def env_event_id_def metadata_new_def)
  then have "\<exists>d3 m4. worker_take dashmap_vtable us d2 = Some d3 \<and>
      task_recv dashmap_vtable oc i (cd_manager d3) = Some m4 \<and> sh_world (m_shared m4) = f v w \<and>
      sh_log (m_shared m4) = [Execute, Increment i, AckEvent i e]"
    using handled [of us oc] assms(4) m1(5) by (simp add: cfg_def)
  then show ?thesis
    using build sub pub by (fastforce simp: name_def)
qed

definition no_nats :: "unit nats_client" where
  "no_nats =
     \<lparr>nc_connect = (\<lambda>_ x. (Inl ''no network'', x)), nc_get_or_create_stream = (\<lambda>_ _ x. (Inl ''no network'', x)),
      nc_parse_header = Some, nc_publish = (\<lambda>_ _ _ x. (Inl ''no network'', x)),
      nc_js_publish = (\<lambda>_ _ _ x. (Inl ''no network'', x)), nc_get_stream = (\<lambda>_ x. (Inl ''no network'', x)),
      nc_get_or_create_consumer = (\<lambda>_ _ _ x. (Inl ''no network'', x)),
      nc_messages = (\<lambda>_ _ x. (Inl ''no network'', x)), nc_queue_subscribe = (\<lambda>_ _ x. (Inl ''no network'', x))\<rparr>"

theorem built_bus_delivers_witness:
  "\<exists>bus b1 b2 d3 m4. build noop_vtable dashmap_vtable \<lparr>pe_encode = (\<lambda>_. Inr []), pe_decode = (\<lambda>_. None)\<rparr>
       no_nats (\<lambda>_. Inl ''no disk'') (builder_reliable 4 (bus_builder_new 4) ::
         (unit, nat dashmap_registry, nat, unit) event_bus_builder) (0 :: nat) () = Done (Inr (ChannelBus bus), ()) \<and>
     bus_subscribe channel_parts echo_ty (\<lambda>v w. w + v) 1 bus =
       Done (Inr \<lparr>h_id = 1, h_name = Some ''Handler<Echo>''\<rparr>, b1) \<and>
     publish channel_parts echo_ty 4 77 0 b1 = (Ready (Inr 77), b2) \<and>
     worker_take dashmap_vtable 9 (bus_core b2) = Some d3 \<and>
     task_recv dashmap_vtable True 1 (cd_manager d3) = Some m4 \<and> sh_world (m_shared m4) = 4"
proof -
  let ?b = "builder_reliable 4 (bus_builder_new 4) :: (unit, nat dashmap_registry, nat, unit) event_bus_builder"
  have plain: "plain_builder ?b"
    by (simp add: plain_builder_def builder_reliable_def with_config_def bus_builder_new_def)
  have cfg: "eb_config ?b = config_reliable 4"
    by (simp add: builder_reliable_def with_config_def bus_builder_new_def)
  have ty: "default_type_id echo_ty" "ty_name echo_ty = ''Echo''"
    by (simp_all add: default_type_id_def event_type_id_def echo_ty_def)
  have sizes: "0 < ec_dlq_channel_size (eb_config ?b)" "0 < dc_max_queue_size (ec_dispatcher (eb_config ?b))"
      "0 < ec_handler_channel_size (eb_config ?b)"
    unfolding cfg by (rule config_presets_usable [of _ 4], simp)+
  show ?thesis
    using built_bus_delivers [OF plain sizes(1,2,3) ty(1), where V = dashmap_vtable and D = noop_vtable
        and J = "\<lparr>pe_encode = (\<lambda>_. Inr []), pe_decode = (\<lambda>_. None)\<rparr>" and C = no_nats
        and create_db = "\<lambda>_. Inl ''no disk''" and w = "0 :: nat" and x = "()" and f = "\<lambda>v w. w + v" and i = 1
        and v = 4 and e = 77 and now = 0 and us = 9 and oc = True]
    by (simp add: ty(2)) blast
qed

section \<open>What a database changes\<close>

text \<open>A registry of the user's and the preset of the workers have no part in what is built.\<close>

lemma start_bus_registry: "start_bus P C (b\<lparr>eb_registry := r\<rparr>) x d = start_bus P C b x d"
  by (simp add: start_bus_def connect_transport_def cong: sum.case_cong option.case_cong prod.case_cong)

lemma database_ignores_registry:
  "eb_redb b = Some db \<Longrightarrow> build D V J C create_db (builder_registry r b) w x =
     build D V J C create_db b w x"
  by (simp add: build_def builder_registry_def build_on_database_def start_bus_registry
      cong: option.case_cong)

lemma build_wait_without_database:
  assumes "plain_builder b"
  shows "build D V J C create_db (builder_wait_for_persistence wait b) w x = build D V J C create_db b w x"
proof -
  have "plain_builder (builder_wait_for_persistence wait b)"
    using assms by (simp add: plain_builder_def builder_wait_for_persistence_def)
  then show ?thesis
    by (simp only: build_plain [OF assms] build_plain [of "builder_wait_for_persistence wait b"])
      (simp add: builder_wait_for_persistence_def new_bus_def new_core_def new_manager_def)
qed

section \<open>The dead letter hook\<close>

text \<open>With a hook, its task empties the queue: every dead letter is handed over once, in order.\<close>

fun dlq_hook_run ::
    "nat \<Rightarrow> ('v envelope \<Rightarrow> 'x \<Rightarrow> 'x) \<Rightarrow> (('v dashmap_registry, 'v, 'w) channel_dispatcher, 'x) event_bus \<Rightarrow>
       (('v dashmap_registry, 'v, 'w) channel_dispatcher, 'x) event_bus option" where
  "dlq_hook_run 0 hook b = Some b"
| "dlq_hook_run (Suc n) hook b =
     (case dlq_hook_step channel_parts hook b of None \<Rightarrow> None | Some b' \<Rightarrow> dlq_hook_run n hook b')"

lemma dlq_hook_empties:
  "sh_dlq (m_shared (cd_manager (bus_core b))) = Some c \<Longrightarrow> chan_buffer c = envs \<Longrightarrow>
   \<exists>b'. dlq_hook_run (length envs) hook b = Some b' \<and> bus_world b' = fold hook envs (bus_world b) \<and>
     sh_dlq (m_shared (cd_manager (bus_core b'))) = Some (c\<lparr>chan_buffer := []\<rparr>)"
proof (induction envs arbitrary: b c)
  case Nil
  then show ?case by simp
next
  case (Cons env envs)
  let ?b = "b\<lparr>bus_world := hook env (bus_world b), bus_core := (bus_core b)\<lparr>cd_manager :=
    (cd_manager (bus_core b))\<lparr>m_shared := (m_shared (cd_manager (bus_core b)))
      \<lparr>sh_dlq := Some (c\<lparr>chan_buffer := envs\<rparr>)\<rparr>\<rparr>\<rparr>\<rparr>"
  have "dlq_hook_step channel_parts hook b = Some ?b"
    using Cons.prems by (simp add: dlq_hook_step_def chan_recv_def Let_def)
  then show ?case
    using Cons.IH [of ?b "c\<lparr>chan_buffer := envs\<rparr>"] by simp
qed

end
