(* ===== verification/Requests.thy ===== *)
theory Requests
  imports Life_Cycle
begin

text \<open>
  Requests and responses (src/src/bus/mod.rs, \<open>request\<close> and \<open>respond\<close>) over the channel dispatcher: the
  way of a request to the responder and of its reply back to the inbox.
\<close>

section \<open>Literal topics\<close>

text \<open>A topic without wildcards, read as a pattern, matches itself and no other literal.\<close>

lemma pattern_matches_literal:
  "gt \<notin> set ps \<Longrightarrow> star \<notin> set ps \<Longrightarrow> pattern_matches ps ls \<longleftrightarrow> ps = ls"
proof (induction ps arbitrary: ls)
  case Nil
  then show ?case by auto
next
  case (Cons p ps)
  then show ?case by (cases ls) auto
qed

lemma split_on_plain: "c \<notin> set s \<Longrightarrow> split_on c s = [s]"
  by (induction s) auto

lemma truncate_literal: "gt \<notin> set ps \<Longrightarrow> truncate_pattern ps = ps"
  by (induction ps) auto

text \<open>
  What is relied on of the text of a uuid: it is hexadecimal digits and hyphens, in particular it has
  none of the characters with a meaning in patterns, and different ids have different texts.
\<close>

definition uuid_text_ok :: "(uuid \<Rightarrow> string) \<Rightarrow> bool" where
  "uuid_text_ok show_uuid \<longleftrightarrow> inj show_uuid \<and>
     (\<forall>u. set (show_uuid u) \<inter> {dot, CHR ''*'', CHR ''>''} = {})"

lemma inbox_tokens:
  assumes "uuid_text_ok show_uuid"
  shows "split_on dot (inbox_topic show_uuid u) = [''_INBOX'', show_uuid u]"
    "show_uuid u \<noteq> gt" "show_uuid u \<noteq> star"
proof -
  have u: "set (show_uuid u) \<inter> {dot, CHR ''*'', CHR ''>''} = {}"
    using assms by (simp add: uuid_text_ok_def)
  then have "dot \<notin> set (show_uuid u)" by auto
  then show "split_on dot (inbox_topic show_uuid u) = [''_INBOX'', show_uuid u]"
    by (simp add: inbox_topic_def split_on_plain)
  show "show_uuid u \<noteq> gt" "show_uuid u \<noteq> star"
    using u by (auto simp: gt_def star_def)
qed

lemma inbox_matches:
  assumes "uuid_text_ok show_uuid"
  shows "pattern_matches (split_on dot (inbox_topic show_uuid u)) (split_on dot (inbox_topic show_uuid u')) \<longleftrightarrow>
    u = u'"
proof -
  have "inj show_uuid" using assms by (simp add: uuid_text_ok_def)
  then show ?thesis
    using pattern_matches_literal [of "[''_INBOX'', show_uuid u]" "[''_INBOX'', show_uuid u']"]
      inbox_tokens [OF assms, of u] inbox_tokens [OF assms, of u']
    by (auto simp: gt_def star_def inj_eq)
qed

lemma inbox_valid: "uuid_text_ok show_uuid \<Longrightarrow> valid_topic (inbox_topic show_uuid u)"
  using truncate_literal [of "[''_INBOX'', show_uuid u]"] inbox_tokens [of show_uuid u]
  by (auto simp: valid_topic_def valid_pattern_def) (simp add: gt_def)

section \<open>The round trip\<close>

lemma inbox_handler:
  assumes "default_type_id Res"
  shows "handle (function_handler Res (inbox_function replied put)) (with_metadata Res v md) w =
    (Inr (), if replied w then w else put v w)"
  using get_event_with_metadata [OF assms, of v md]
  by (simp add: function_handler_def function_handler_with_name_def inbox_function_def)

lemma responder_handle:
  assumes "default_type_id Req" "reply_to md = Some inbox"
  shows "handle (responder_handler send fresh now Req f) (with_metadata Req v md) w =
    (case send (fst (f v w)) (reply_metadata fresh now (with_metadata Req v md) inbox) (snd (f v w)) of
       (Inl e, w2) \<Rightarrow> (Inl e, w2) | (Inr _, w2) \<Rightarrow> (Inr (), w2))"
  using get_event_with_metadata [OF assms(1), of v md] assms(2)
  by (simp add: responder_handler_def split_beta)

text \<open>What a request leaves in the bus when there is room in the dispatcher's queue.\<close>

lemma request_begin_room:
  fixes b :: "(('v dashmap_registry, 'v, 'w) channel_dispatcher, 'x) event_bus"
    and Res :: "'v event_ty" and inbox :: string and e i :: uuid and now :: datetime
    and replied :: "'w \<Rightarrow> bool" and put :: "'v \<Rightarrow> 'w \<Rightarrow> 'w" and d :: "('v dashmap_registry, 'v, 'w) channel_dispatcher"
  assumes "bus_dispatcher b" "bus_state b = Running" "d = bus_core b" "cd_running d" "cd_sender d"
    and "chan_open (cd_queue d)" "length (chan_buffer (cd_queue d)) < chan_capacity (cd_queue d)"
    and "0 < m_handler_channel_size (cd_manager d)"
  defines "name \<equiv> ''TopicHandler<'' @ ty_name Res @ ''>::'' @ inbox"
  defines "md \<equiv> with_reply_to (metadata_new e now) inbox"
  defines "m1 \<equiv> subscribed_with Res (function_handler Res (inbox_function replied put)) name (Some inbox) i
    (cd_manager d)"
  shows "request_begin channel_parts Req Res v inbox replied put i e now b =
    Done (Ready (Inr \<lparr>h_id = i, h_name = Some name\<rparr>),
      b\<lparr>bus_core := (record_queue_size (d\<lparr>cd_manager := m1\<rparr>))\<lparr>cd_queue :=
        (cd_queue d)\<lparr>chan_buffer := chan_buffer (cd_queue d) @ [with_metadata Req v md]\<rparr>\<rparr>\<rparr>)"
proof -
  have sub: "bus_subscribe_topic channel_parts Res inbox (inbox_function replied put) i b =
      Done (Inr \<lparr>h_id = i, h_name = Some name\<rparr>, b\<lparr>bus_core := d\<lparr>cd_manager := m1\<rparr>\<rparr>)"
    using assms(2,3,8)
    by (simp add: bus_subscribe_topic_def is_shutting_down_def on_manager_def subscribe_topic_fn_def
        subscribe_typed_run name_def m1_def)
  have "deliver_at md = None" by (simp add: md_def with_reply_to_def metadata_new_def)
  then have pub: "publish_with_metadata channel_parts Req v md now (b\<lparr>bus_core := d\<lparr>cd_manager := m1\<rparr>\<rparr>) =
      (Ready (Inr (event_id md)), b\<lparr>bus_core := (record_queue_size (d\<lparr>cd_manager := m1\<rparr>))\<lparr>cd_queue :=
        (cd_queue d)\<lparr>chan_buffer := chan_buffer (cd_queue d) @ [with_metadata Req v md]\<rparr>\<rparr>\<rparr>)"
    using publish_metadata_room [of "b\<lparr>bus_core := d\<lparr>cd_manager := m1\<rparr>\<rparr>" "d\<lparr>cd_manager := m1\<rparr>" md Req v now]
      assms(1-7) by simp
  show ?thesis
    using assms(2) by (simp add: request_begin_def is_shutting_down_def sub pub flip: md_def)
qed

lemma target_topic_reply:
  "target_topic (with_metadata Res r (reply_metadata fresh now env inbox)) = inbox"
  by (simp add: target_topic_def reply_metadata_def metadata_with_topic_def)

text \<open>
  C8: a request on a running bus with room opens an inbox of its own and queues the request with the
  inbox as its reply address; the responder of the request runs its function on the value and sends the
  result there, chained to the request; and that reply is routed to the inbox of this request, whose
  task stores it, and to no inbox of another request.
\<close>

theorem request_reply_roundtrip:
  fixes b :: "(('v dashmap_registry, 'v, 'w) channel_dispatcher, 'x) event_bus"
  assumes "bus_dispatcher b" "bus_state b = Running" "d = bus_core b" "cd_running d" "cd_sender d"
    and "chan_open (cd_queue d)" "length (chan_buffer (cd_queue d)) < chan_capacity (cd_queue d)"
    and "0 < m_handler_channel_size (cd_manager d)" "registry_inv (sh_registry (m_shared (cd_manager d)))"
    and "fresh_id (sh_registry (m_shared (cd_manager d))) i" "uuid_text_ok show_uuid"
    and "default_type_id Req" "default_type_id Res"
    and "inbox = inbox_topic show_uuid u" "req = with_metadata Req v (with_reply_to (metadata_new e now) inbox)"
    and "rep = with_metadata Res (fst (f v w)) (reply_metadata e' now' req inbox)"
  shows "\<exists>sh b1 t. request_begin channel_parts Req Res v inbox replied put i e now b = Done (Ready (Inr sh), b1) \<and>
    h_id sh = i \<and> chan_buffer (cd_queue (bus_core b1)) = chan_buffer (cd_queue d) @ [req] \<and>
    handle (responder_handler send e' now' Req f) req w =
      (case send (fst (f v w)) (metadata rep) (snd (f v w)) of
         (Inl err, w2) \<Rightarrow> (Inl err, w2) | (Inr _, w2) \<Rightarrow> (Inr (), w2)) \<and>
    correlation_id (metadata rep) = Some e \<and> causation_id (metadata rep) = Some e \<and>
    receives (cd_manager (bus_core b1)) rep i \<and>
    map_of (m_subscriptions (cd_manager (bus_core b1))) i = Some t \<and>
    handle (task_handler t) rep w' = (Inr (), if replied w' then w' else put (fst (f v w)) w') \<and>
    (\<forall>u'. u' \<noteq> u \<longrightarrow> \<not> entry_matches rep (ty_type_id Res) (with_topic (entry_new j) (inbox_topic show_uuid u')))"
proof -
  let ?h = "function_handler Res (inbox_function replied put)"
  let ?m1 = "subscribed_with Res ?h (''TopicHandler<'' @ ty_name Res @ ''>::'' @ inbox) (Some inbox) i (cd_manager d)"
  have req: "event_id (metadata req) = e" "reply_to (metadata req) = Some inbox"
      "correlation_id (metadata req) = None"
    by (simp_all add: assms(15) with_reply_to_def metadata_new_def)
  have topic: "target_topic rep = inbox" by (simp add: assms(16) target_topic_reply)
  have "receives ?m1 rep i"
    using subscribed_with_receives(1) [OF assms(9,10), of "Some inbox" Res ?h _ rep] topic
    by (simp add: assms(14) inbox_valid [OF assms(11)] inbox_matches [OF assms(11)]
        function_handler_def function_handler_with_name_def provided_filter_def)
  moreover have "handle (responder_handler send e' now' Req f) req w =
      (case send (fst (f v w)) (metadata rep) (snd (f v w)) of
         (Inl err, w2) \<Rightarrow> (Inl err, w2) | (Inr _, w2) \<Rightarrow> (Inr (), w2))"
    using responder_handle [OF assms(12), of "with_reply_to (metadata_new e now) inbox" inbox send e' now' f v w]
    by (simp add: assms(15,16) with_reply_to_def)
  moreover have "correlation_id (metadata rep) = Some e" "causation_id (metadata rep) = Some e"
    using req by (simp_all add: assms(16) reply_metadata_def env_event_id_def)
  moreover have "\<not> entry_matches rep (ty_type_id Res) (with_topic (entry_new j) (inbox_topic show_uuid u'))"
    if "u' \<noteq> u" for u' j
    using that topic by (simp add: entry_matches_def assms(14) inbox_matches [OF assms(11)])
  moreover have "handle ?h rep w' = (Inr (), if replied w' then w' else put (fst (f v w)) w')"
    unfolding assms(16) by (rule inbox_handler [OF assms(13)])
  moreover note request_begin_room [OF assms(1-8), of Req Res v inbox replied put i e now]
  ultimately show ?thesis
    by (simp add: assms(15) [symmetric] subscribed_with_def record_queue_size_def Let_def)
qed

definition unary :: "uuid \<Rightarrow> string" where
  "unary u = replicate (unat u) CHR ''a''"

lemma unary_ok: "uuid_text_ok unary"
proof -
  have "unary u = unary u' \<Longrightarrow> u = u'" for u u'
    by (metis unary_def length_replicate word_unat_eq_iff)
  then show ?thesis
    by (auto simp: uuid_text_ok_def unary_def inj_def)
qed

theorem request_reply_roundtrip_witness:
  "\<exists>sh b1. request_begin channel_parts echo_ty echo_ty 4 ''_INBOX.aaa'' (\<lambda>w. w \<noteq> 0) (\<lambda>v w. v) 2 77 0
       (sample_bus small_dispatcher) = Done (Ready (Inr sh), b1) \<and>
     receives (cd_manager (bus_core b1))
       (with_metadata echo_ty 9 (reply_metadata 78 1
         (with_metadata echo_ty 4 (with_reply_to (metadata_new 77 0) ''_INBOX.aaa'')) ''_INBOX.aaa'')) 2"
proof -
  have u: "unat (3 :: uuid) = Suc (Suc (Suc 0))" by simp
  have inbox: "''_INBOX.aaa'' = inbox_topic unary 3"
    unfolding inbox_topic_def unary_def u by simp
  have ty: "default_type_id echo_ty"
    by (simp add: default_type_id_def event_type_id_def echo_ty_def)
  let ?b = "sample_bus small_dispatcher" and ?d = "small_dispatcher"
  let ?req = "with_metadata echo_ty 4 (with_reply_to (metadata_new 77 0) ''_INBOX.aaa'')"
  let ?rep = "with_metadata echo_ty 9 (reply_metadata 78 1 ?req ''_INBOX.aaa'')"
  have "fresh_id (reg_run [OpRegister 5 ''Echo'' (entry_new 1 :: nat sub_entry)]) 2"
    by (simp add: reg_run_def fresh_id_def dashmap_new_def register_def Let_def)
  then have reg: "registry_inv (sh_registry (m_shared (cd_manager ?d)))"
      "fresh_id (sh_registry (m_shared (cd_manager ?d))) 2"
    by (simp_all add: echo_registry)
  have d: "bus_dispatcher ?b" "bus_state ?b = Running" "?d = bus_core ?b" "cd_running ?d" "cd_sender ?d"
      "chan_open (cd_queue ?d)" "length (chan_buffer (cd_queue ?d)) < chan_capacity (cd_queue ?d)"
      "0 < m_handler_channel_size (cd_manager ?d)"
    by simp_all
  have rep: "?rep = with_metadata echo_ty (fst ((\<lambda>v w. (9 :: nat, w)) (4 :: nat) (0 :: nat)))
      (reply_metadata 78 1 ?req ''_INBOX.aaa'')"
    by simp
  show ?thesis
    using request_reply_roundtrip [where f = "\<lambda>v w. (9, w)" and v = 4 and w = 0 and e = 77 and now = 0
        and send = "\<lambda>v md w. (Inr 0, w)" and replied = "\<lambda>w. w \<noteq> 0" and put = "\<lambda>v w. v" and j = 0
        and w' = 0, OF d reg unary_ok ty ty inbox refl rep]
    by blast
qed

end
