(* ===== verification/Worker_Pool.thy ===== *)
theory Worker_Pool
  imports Envelope Channels "HOL-Library.Multiset"
begin

text \<open>
  The worker pool (src/src/dispatcher/worker.rs): one bounded queue per worker, filled in turn by
  \<open>send\<close>, by number by \<open>send_to\<close>, or by a hash of the correlation id in the hashing pool. The hash
  function of the external crate is a parameter.
\<close>

section \<open>The pool\<close>

record worker_config =
  num_workers :: nat
  queue_size :: nat
  name_prefix :: string

record 'v worker_pool =
  wp_config :: worker_config
  senders :: "'v envelope chan list"
  next_worker :: usize

definition worker_config_default :: "nat \<Rightarrow> worker_config" where
  "worker_config_default cpus =
     \<lparr>num_workers = cpus, queue_size = 1000, name_prefix = ''event-worker''\<rparr>"

definition pool_new :: "worker_config \<Rightarrow> 'v worker_pool" where
  "pool_new cfg = \<lparr>wp_config = cfg, senders = [], next_worker = 0\<rparr>"

fun start_workers :: "nat \<Rightarrow> nat \<Rightarrow> 'v envelope chan list outcome" where
  "start_workers q 0 = Done []"
| "start_workers q (Suc n) =
     bind_outcome (chan_new q) (\<lambda>c. bind_outcome (start_workers q n) (\<lambda>cs. Done (c # cs)))"

definition pool_start :: "'v worker_pool \<Rightarrow> (unit result \<times> 'v worker_pool) outcome" where
  "pool_start p =
     bind_outcome (start_workers (queue_size (wp_config p)) (num_workers (wp_config p)))
       (\<lambda>cs. Done (Inr (), p\<lparr>senders := senders p @ cs\<rparr>))"

definition worker_index :: "'v worker_pool \<Rightarrow> nat" where
  "worker_index p = unat (next_worker p) mod length (senders p)"

definition finish_send :: "bool poll \<Rightarrow> unit result poll" where
  "finish_send r =
     (case r of
        Pending \<Rightarrow> Pending
      | Ready ok \<Rightarrow> Ready (if ok then Inr () else Inl (internal ''Worker channel closed'')))"

definition pool_send :: "'v worker_pool \<Rightarrow> 'v envelope \<Rightarrow> unit result poll \<times> 'v worker_pool" where
  "pool_send p env =
     (if senders p = [] then (Ready (Inl (internal ''Worker pool not started'')), p)
      else let i = worker_index p;
               p1 = p\<lparr>next_worker := next_worker p + 1\<rparr>;
               (r, c) = chan_send (senders p1 ! i) env
           in (finish_send r, p1\<lparr>senders := (senders p1)[i := c]\<rparr>))"

definition pool_send_to ::
    "'v worker_pool \<Rightarrow> nat \<Rightarrow> 'v envelope \<Rightarrow> unit result poll \<times> 'v worker_pool" where
  "pool_send_to p i env =
     (if length (senders p) \<le> i then (Ready (Inl (internal ''Invalid worker index'')), p)
      else let (r, c) = chan_send (senders p ! i) env
           in (finish_send r, p\<lparr>senders := (senders p)[i := c]\<rparr>))"

definition pool_num_workers :: "'v worker_pool \<Rightarrow> nat" where
  "pool_num_workers p = length (senders p)"

text \<open>A worker takes the next envelope of its queue and runs the processor; an error is logged.\<close>

definition worker_step ::
    "('v envelope \<Rightarrow> 'w \<Rightarrow> unit result \<times> 'w) \<Rightarrow> 'v worker_pool \<Rightarrow> nat \<Rightarrow> 'w \<Rightarrow> 'v worker_pool \<times> 'w" where
  "worker_step proc p i w =
     (if i < length (senders p)
      then (case chan_recv (senders p ! i) of
              (None, c) \<Rightarrow> (p, w)
            | (Some env, c) \<Rightarrow> (p\<lparr>senders := (senders p)[i := c]\<rparr>, snd (proc env w)))
      else (p, w))"

text \<open>
  The workers in the order in which the runtime lets them run. Stopping drops the senders, so that a
  worker ends when its queue is empty, and waits for all of them.
\<close>

fun pool_work ::
    "('v envelope \<Rightarrow> 'w \<Rightarrow> unit result \<times> 'w) \<Rightarrow> nat list \<Rightarrow> 'v worker_pool \<times> 'w \<Rightarrow> 'v worker_pool \<times> 'w" where
  "pool_work proc [] pw = pw"
| "pool_work proc (i # sched) (p, w) = pool_work proc sched (worker_step proc p i w)"

definition pool_stop ::
    "('v envelope \<Rightarrow> 'w \<Rightarrow> unit result \<times> 'w) \<Rightarrow> nat list \<Rightarrow> 'v worker_pool \<Rightarrow> 'w \<Rightarrow>
       (unit result \<times> 'w) option" where
  "pool_stop proc sched p w =
     (let (p', w') = pool_work proc sched (p, w)
      in if list_all (\<lambda>c. chan_buffer c = []) (senders p') then Some (Inr (), w') else None)"

section \<open>The hashing pool\<close>

definition hashing_new :: "worker_config \<Rightarrow> 'v worker_pool" where
  "hashing_new cfg = pool_new cfg"

definition hashing_start :: "'v worker_pool \<Rightarrow> (unit result \<times> 'v worker_pool) outcome" where
  "hashing_start p = pool_start p"

definition hashing_stop ::
    "('v envelope \<Rightarrow> 'w \<Rightarrow> unit result \<times> 'w) \<Rightarrow> nat list \<Rightarrow> 'v worker_pool \<Rightarrow> 'w \<Rightarrow>
       (unit result \<times> 'w) option" where
  "hashing_stop proc sched p w = pool_stop proc sched p w"

definition hash_key :: "'v envelope \<Rightarrow> uuid" where
  "hash_key env = (case env_correlation_id env of Some c \<Rightarrow> c | None \<Rightarrow> env_event_id env)"

text \<open>The remainder by the number of workers panics when there is none.\<close>

definition hashing_send ::
    "(uuid \<Rightarrow> u64) \<Rightarrow> 'v worker_pool \<Rightarrow> 'v envelope \<Rightarrow> (unit result poll \<times> 'v worker_pool) outcome" where
  "hashing_send hash64 p env =
     (if pool_num_workers p = 0 then Panic
      else Done (pool_send_to p (unat (hash64 (hash_key env)) mod pool_num_workers p) env))"

section \<open>Facts\<close>

lemma pool_send_sel [simp]:
  "length (senders (snd (pool_send p env))) = length (senders p)"
  "wp_config (snd (pool_send p env)) = wp_config p"
  by (simp_all add: pool_send_def Let_def split_beta)

lemma next_worker_send:
  "senders p \<noteq> [] \<Longrightarrow> next_worker (snd (pool_send p env)) = next_worker p + 1"
  by (simp add: pool_send_def Let_def split_beta)

text \<open>The workers that consecutive sends choose.\<close>

fun chosen :: "'v worker_pool \<Rightarrow> 'v envelope list \<Rightarrow> nat list" where
  "chosen p [] = []"
| "chosen p (env # envs) = worker_index p # chosen (snd (pool_send p env)) envs"

lemma unat_Suc_u64:
  assumes "unat (a::u64) < 2 ^ 64 - 1"
  shows "unat (a + 1) = Suc (unat a)"
proof -
  have "unat a + unat (1::u64) < 2 ^ LENGTH(64)"
    using assms by simp
  then show ?thesis
    by (subst unat_add_lem [THEN iffD1]) simp_all
qed

lemma chosen_round_robin:
  assumes "senders p \<noteq> []" "unat (next_worker p) + length envs < 2 ^ 64"
  shows "chosen p envs =
    map (\<lambda>k. (unat (next_worker p) + k) mod length (senders p)) [0..<length envs]"
  using assms
proof (induction envs arbitrary: p)
  case Nil
  then show ?case by simp
next
  case (Cons env envs)
  let ?p = "snd (pool_send p env)"
  have u: "unat (next_worker ?p) = Suc (unat (next_worker p))"
    using Cons.prems by (simp add: next_worker_send unat_Suc_u64)
  have ne: "senders ?p \<noteq> []"
    using Cons.prems(1) by (metis length_greater_0_conv pool_send_sel(1))
  have "chosen ?p envs =
      map (\<lambda>k. (unat (next_worker ?p) + k) mod length (senders ?p)) [0..<length envs]"
    using Cons.prems(2) u ne by (intro Cons.IH) simp_all
  then show ?case
    by (simp add: u worker_index_def map_upt_Suc del: upt_Suc)
qed

lemma mod_block_distinct:
  "distinct (map (\<lambda>k. (a + k) mod n) [0..<n])" for a n :: nat
proof -
  have le: "i = j" if "i \<le> j" "j < n" "(a + j) mod n = (a + i) mod n" for i j
  proof -
    have "n dvd j - i"
      using that(3) mod_eq_dvd_iff_nat [of "a + i" "a + j" n] that(1) by simp
    then show ?thesis
      using that(1,2) by (auto dest!: dvd_imp_le)
  qed
  have eq: "i = j" if "i < n" "j < n" "(a + i) mod n = (a + j) mod n" for i j
  proof (cases "i \<le> j")
    case True
    show ?thesis by (rule le [OF True that(2) that(3) [symmetric]])
  next
    case False
    then have "j \<le> i" by simp
    from le [OF this that(1,3)] show ?thesis by simp
  qed
  have "inj_on (\<lambda>k. (a + k) mod n) (set [0..<n])"
    by (rule inj_onI, rule eq) simp_all
  then show ?thesis
    by (simp only: distinct_map distinct_upt simp_thms)
qed

section \<open>Properties\<close>

text \<open>
  Round robin is fair: as many consecutive sends as there are workers choose every worker
  exactly once, wherever the counter stands (short of its wrap-around).
\<close>

lemma round_robin_fair:
  assumes "senders p \<noteq> []" "length envs = length (senders p)"
    and "unat (next_worker p) + length envs < 2 ^ 64"
  shows "mset (chosen p envs) = mset [0..<length (senders p)]"
proof -
  let ?n = "length (senders p)"
  have c: "chosen p envs = map (\<lambda>k. (unat (next_worker p) + k) mod ?n) [0..<?n]"
    using chosen_round_robin [OF assms(1,3)] assms(2) by simp
  then have d: "distinct (chosen p envs)"
    by (simp only: mod_block_distinct)
  have "set (chosen p envs) \<subseteq> {0..<?n}"
    using assms(1) by (auto simp: c)
  moreover have "card (set (chosen p envs)) = ?n"
    unfolding distinct_card [OF d] by (simp add: c)
  ultimately have "set (chosen p envs) = set [0..<?n]"
    by (metis atLeastLessThan_upt card_atLeastLessThan card_subset_eq diff_zero finite_atLeastLessThan)
  then show ?thesis
    using d by (simp only: set_eq_iff_mset_eq_distinct distinct_upt)
qed

definition sample_pool :: "unit worker_pool" where
  "sample_pool =
     \<lparr>wp_config = \<lparr>num_workers = 3, queue_size = 4, name_prefix = ''w''\<rparr>,
      senders = replicate 3 \<lparr>chan_capacity = 4, chan_buffer = [], chan_open = True\<rparr>,
      next_worker = 5\<rparr>"

definition sample_event :: "uuid \<Rightarrow> unit envelope" where
  "sample_event i =
     from_serialized 1 ''E'' ((metadata_new i 0)\<lparr>correlation_id := Some 42\<rparr>) Normal []"

lemma round_robin_fair_example:
  "mset (chosen sample_pool [sample_event 1, sample_event 2, sample_event 3]) = {#0, 1, 2#}"
  using round_robin_fair [of sample_pool "[sample_event 1, sample_event 2, sample_event 3]"]
  by (simp add: sample_pool_def numeral_3_eq_3)

section \<open>Sending and working off\<close>

text \<open>Consecutive sends that all find room.\<close>

fun hashing_send_all :: "(uuid \<Rightarrow> u64) \<Rightarrow> 'v worker_pool \<Rightarrow> 'v envelope list \<Rightarrow> 'v worker_pool option" where
  "hashing_send_all hash64 p [] = Some p"
| "hashing_send_all hash64 p (e # es) =
     (case hashing_send hash64 p e of
        Done (Ready (Inr _), p') \<Rightarrow> hashing_send_all hash64 p' es
      | _ \<Rightarrow> None)"

definition worker_of :: "(uuid \<Rightarrow> u64) \<Rightarrow> nat \<Rightarrow> 'v envelope \<Rightarrow> nat" where
  "worker_of hash64 n e = unat (hash64 (hash_key e)) mod n"

lemma hashing_send_accepted:
  assumes "hashing_send hash64 p e = Done (Ready (Inr u), p')"
  shows "length (senders p') = length (senders p)"
    "i < length (senders p) \<Longrightarrow> chan_buffer (senders p' ! i) =
       chan_buffer (senders p ! i) @ (if worker_of hash64 (length (senders p)) e = i then [e] else [])"
  using assms
  by (auto simp: hashing_send_def pool_num_workers_def worker_of_def pool_send_to_def finish_send_def
      chan_send_def chan_try_send_def nth_list_update split: if_splits)

lemma hashing_send_all_buffers:
  "hashing_send_all hash64 p es = Some p' \<Longrightarrow>
     length (senders p') = length (senders p) \<and>
     (\<forall>i < length (senders p). chan_buffer (senders p' ! i) =
        chan_buffer (senders p ! i) @ filter (\<lambda>e. worker_of hash64 (length (senders p)) e = i) es)"
proof (induction es arbitrary: p)
  case Nil
  then show ?case by simp
next
  case (Cons e es)
  then obtain p1 u where p1: "hashing_send hash64 p e = Done (Ready (Inr u), p1)"
      "hashing_send_all hash64 p1 es = Some p'"
    by (auto split: outcome.splits prod.splits poll.splits sum.splits)
  then show ?case
    using Cons.IH [of p1] hashing_send_accepted [OF p1(1)] by simp
qed

text \<open>Whatever order the workers run in, each works off its queue from the front.\<close>

lemma pool_work_split:
  assumes "pool_work (\<lambda>e ws. (r e, ws @ [e])) sched (p, ws) = (p', ws')"
    and "\<And>i e. i < length (senders p) \<Longrightarrow> e \<in> set (chan_buffer (senders p ! i)) \<Longrightarrow> idx e = i"
  shows "length (senders p') = length (senders p) \<and> (\<forall>i < length (senders p).
    filter (\<lambda>e. idx e = i) ws' @ chan_buffer (senders p' ! i) =
    filter (\<lambda>e. idx e = i) ws @ chan_buffer (senders p ! i))"
  using assms
proof (induction sched arbitrary: p ws)
  case Nil
  then show ?case by simp
next
  case (Cons k sched)
  let ?proc = "\<lambda>e ws. (r e, ws @ [e])"
  show ?case
  proof (cases "k < length (senders p) \<and> chan_buffer (senders p ! k) \<noteq> []")
    case True
    then obtain e es where q: "chan_buffer (senders p ! k) = e # es" by (cases "chan_buffer (senders p ! k)") auto
    let ?p = "p\<lparr>senders := (senders p)[k := (senders p ! k)\<lparr>chan_buffer := es\<rparr>]\<rparr>"
    have step: "worker_step ?proc p k ws = (?p, ws @ [e])"
      using True q by (simp add: worker_step_def chan_recv_def)
    have e: "idx e = k" using Cons.prems(2) True q by auto
    have idx: "idx x = i" if "i < length (senders ?p)" "x \<in> set (chan_buffer (senders ?p ! i))" for i x
      using that Cons.prems(2) [of i x] q True by (cases "i = k") auto
    note IH = Cons.IH [of ?p "ws @ [e]", OF _ idx]
    show ?thesis
      using IH Cons.prems(1) step e q by (auto simp: nth_list_update)
  next
    case False
    then have "worker_step ?proc p k ws = (p, ws)"
      by (auto simp: worker_step_def chan_recv_def)
    then show ?thesis using Cons.IH [of p ws] Cons.prems by simp
  qed
qed

lemma pool_stop_log:
  assumes "hashing_send_all hash64 p es = Some p'" "senders p \<noteq> []"
    and "list_all (\<lambda>c. chan_buffer c = []) (senders p)"
    and "hashing_stop (\<lambda>e ws. (r e, ws @ [e])) sched p' [] = Some (res, ws)"
  shows "filter (\<lambda>e. worker_of hash64 (length (senders p)) e = i) ws =
    filter (\<lambda>e. worker_of hash64 (length (senders p)) e = i) es"
proof -
  let ?n = "length (senders p)"
  obtain p1 where p1: "pool_work (\<lambda>e ws. (r e, ws @ [e])) sched (p', []) = (p1, ws)"
      "list_all (\<lambda>c. chan_buffer c = []) (senders p1)"
    using assms(4) by (auto simp: hashing_stop_def pool_stop_def split: prod.splits if_splits)
  note sent = hashing_send_all_buffers [OF assms(1)]
  have empty: "chan_buffer (senders p ! j) = []" if "j < ?n" for j
    using assms(3) that by (simp add: list_all_length)
  have idx: "worker_of hash64 ?n e = j"
    if "j < length (senders p')" "e \<in> set (chan_buffer (senders p' ! j))" for j e
    using that sent empty by auto
  note split = pool_work_split [OF p1(1) idx]
  show ?thesis
  proof (cases "i < ?n")
    case True
    then show ?thesis using split sent empty p1(2) by (auto simp: list_all_length)
  next
    case False
    have "unat (hash64 k) mod ?n \<noteq> i" for k
      using False assms(2) by (metis length_greater_0_conv mod_less_divisor)
    then show ?thesis by (simp add: worker_of_def)
  qed
qed



text \<open>
  Before it is started, the hashing pool panics on its first send (a remainder by zero workers
  is taken before the index is checked), where the plain pool returns an error.
\<close>

lemma hashing_send_before_start_panics:
  "hashing_send hash64 (pool_new cfg) env = Panic \<and>
   fst (pool_send (pool_new cfg) env) = Ready (Inl (internal ''Worker pool not started''))"
  by (simp add: hashing_send_def pool_num_workers_def pool_new_def pool_send_def)

end
