(* ===== verification/Task_Steps.thy ===== *)
theory Task_Steps
  imports Subscription_Manager
begin

text \<open>
  A handler task in small steps (the loop of \<open>subscribe_typed\<close> in src/src/subscription/mod.rs): one
  step is what the task does between two points where it gives up control, namely the handler, the
  sleep before another attempt and the send to the dead letter queue. \<open>retry_loop\<close> is the result of
  these steps when the task runs alone; in any interleaving with other tasks every envelope still
  gets at most one verdict.
\<close>

section \<open>Steps\<close>

text \<open>Where a task is: between envelopes, about to call its handler for the attempt after \<open>a\<close>
  failures, asleep, waiting for room in the dead letter queue, or gone by a panic.\<close>

datatype 'v task_pc =
    Waiting
  | Calling "'v envelope" u32
  | Sleeping "'v envelope" u32
  | Sending "'v envelope"
  | Crashed

inductive task_work ::
    "('r, 'v) registry_vtable \<Rightarrow> ('v, 'w) handler \<Rightarrow> bool \<Rightarrow> u32 \<Rightarrow> duration \<Rightarrow> uuid \<Rightarrow>
       'v task_pc \<Rightarrow> ('r, 'v, 'w) shared \<Rightarrow> loop_event list \<Rightarrow>
       'v task_pc \<Rightarrow> ('r, 'v, 'w) shared \<Rightarrow> bool"
  for V h oc mr rb sid where
  accepts: "run_handler h env s = (Inr u, s1) \<Longrightarrow>
     task_work V h oc mr rb sid (Calling env a) s
       [Execute, Increment sid, AckEvent sid (env_event_id env)] Waiting (on_success V sid env s1)"
| count_overflows: "run_handler h env s = (Inl e, s1) \<Longrightarrow> u32_inc oc a = Panic \<Longrightarrow>
     task_work V h oc mr rb sid (Calling env a) s [Execute] Crashed s1"
| delay_overflows: "run_handler h env s = (Inl e, s1) \<Longrightarrow> u32_inc oc a = Done a' \<Longrightarrow> \<not> mr < a' \<Longrightarrow>
     doubled_delay oc rb a' = Panic \<Longrightarrow>
     task_work V h oc mr rb sid (Calling env a) s [Execute] Crashed s1"
| retries: "run_handler h env s = (Inl e, s1) \<Longrightarrow> u32_inc oc a = Done a' \<Longrightarrow> \<not> mr < a' \<Longrightarrow>
     doubled_delay oc rb a' = Done d \<Longrightarrow>
     task_work V h oc mr rb sid (Calling env a) s [Execute, Backoff d] (Sleeping env a')
       (log_event (Backoff d) s1)"
| wakes: "task_work V h oc mr rb sid (Sleeping env a) s [] (Calling env a) s"
| gives_up: "run_handler h env s = (Inl e, s1) \<Longrightarrow> u32_inc oc a = Done a' \<Longrightarrow> mr < a' \<Longrightarrow>
     sh_dlq s1 = None \<Longrightarrow>
     task_work V h oc mr rb sid (Calling env a) s [Execute, MarkFailed sid (env_event_id env)] Waiting
       (mark_failed V sid env s1)"
| dead_letters: "run_handler h env s = (Inl e, s1) \<Longrightarrow> u32_inc oc a = Done a' \<Longrightarrow> mr < a' \<Longrightarrow>
     sh_dlq s1 \<noteq> None \<Longrightarrow>
     task_work V h oc mr rb sid (Calling env a) s [Execute] (Sending env) s1"
| sends: "sh_dlq s = Some c \<Longrightarrow> chan_send c env = (Ready b, c') \<Longrightarrow>
     task_work V h oc mr rb sid (Sending env) s
       [SendDlq (env_event_id env), MarkFailed sid (env_event_id env)] Waiting
       (mark_failed V sid env (log_event (SendDlq (env_event_id env)) (s\<lparr>sh_dlq := Some c'\<rparr>)))"

inductive_cases task_work_waitingE: "task_work V h oc mr rb sid Waiting s ls pc s'"
inductive_cases task_work_crashedE: "task_work V h oc mr rb sid Crashed s ls pc s'"
inductive_cases task_work_sendingE: "task_work V h oc mr rb sid (Sending env) s ls pc s'"

text \<open>A task that runs alone.\<close>

inductive task_works ::
    "('r, 'v) registry_vtable \<Rightarrow> ('v, 'w) handler \<Rightarrow> bool \<Rightarrow> u32 \<Rightarrow> duration \<Rightarrow> uuid \<Rightarrow>
       'v task_pc \<Rightarrow> ('r, 'v, 'w) shared \<Rightarrow> 'v task_pc \<Rightarrow> ('r, 'v, 'w) shared \<Rightarrow> bool"
  for V h oc mr rb sid where
  rests: "task_works V h oc mr rb sid pc s pc s"
| works: "task_work V h oc mr rb sid pc s ls pc1 s1 \<Longrightarrow> task_works V h oc mr rb sid pc1 s1 pc2 s2 \<Longrightarrow>
     task_works V h oc mr rb sid pc s pc2 s2"

text \<open>A handler may also panic: the runtime ends the task there and then, with whatever the handler has done
  to the state of the program.\<close>

inductive handler_step ::
    "('r, 'v) registry_vtable \<Rightarrow> ('v, 'w) handler \<Rightarrow> bool \<Rightarrow> u32 \<Rightarrow> duration \<Rightarrow> uuid \<Rightarrow>
       'v task_pc \<Rightarrow> ('r, 'v, 'w) shared \<Rightarrow> loop_event list \<Rightarrow>
       'v task_pc \<Rightarrow> ('r, 'v, 'w) shared \<Rightarrow> bool"
  for V h oc mr rb sid where
  returns: "task_work V h oc mr rb sid pc s ls pc' s' \<Longrightarrow> handler_step V h oc mr rb sid pc s ls pc' s'"
| panics: "handler_step V h oc mr rb sid (Calling env a) s [Execute] Crashed (log_event Execute (s\<lparr>sh_world := w\<rparr>))"

text \<open>Any number of tasks on the shared state, one step of one of them at a time; the labels say who
  did what.\<close>

inductive tasks_interleave ::
    "('r, 'v) registry_vtable \<Rightarrow> (uuid \<Rightarrow> ('v, 'w) handler) \<Rightarrow> bool \<Rightarrow> u32 \<Rightarrow> duration \<Rightarrow>
       (uuid \<Rightarrow> 'v task_pc) \<Rightarrow> ('r, 'v, 'w) shared \<Rightarrow> (uuid \<times> loop_event list) list \<Rightarrow>
       (uuid \<Rightarrow> 'v task_pc) \<Rightarrow> ('r, 'v, 'w) shared \<Rightarrow> bool"
  for V hs oc mr rb where
  idle: "tasks_interleave V hs oc mr rb pcs s [] pcs s"
| turn: "tasks_interleave V hs oc mr rb pcs s tr pcs1 s1 \<Longrightarrow>
     handler_step V (hs i) oc mr rb i (pcs1 i) s1 ls pc s2 \<Longrightarrow>
     tasks_interleave V hs oc mr rb pcs s (tr @ [(i, ls)]) (pcs1(i := pc)) s2"

definition log_of :: "uuid \<Rightarrow> (uuid \<times> loop_event list) list \<Rightarrow> loop_event list" where
  "log_of i tr = concat (map snd (filter (\<lambda>p. fst p = i) tr))"

section \<open>The steps and the loop\<close>

text \<open>What a task alone makes of where it is.\<close>

fun outcome_at ::
    "('r, 'v) registry_vtable \<Rightarrow> ('v, 'w) handler \<Rightarrow> bool \<Rightarrow> u32 \<Rightarrow> duration \<Rightarrow> uuid \<Rightarrow>
       'v task_pc \<Rightarrow> ('r, 'v, 'w) shared \<Rightarrow> ('r, 'v, 'w) shared loop_result option" where
  "outcome_at V h oc mr rb sid Waiting s = Some (Completed s)"
| "outcome_at V h oc mr rb sid (Calling env a) s = retry_loop V h oc mr rb sid env a s"
| "outcome_at V h oc mr rb sid (Sleeping env a) s = retry_loop V h oc mr rb sid env a s"
| "outcome_at V h oc mr rb sid (Sending env) s = Some (on_permanent_error V sid env s)"
| "outcome_at V h oc mr rb sid Crashed s = Some (LoopPanicked s)"

lemma retry_loop_failed:
  "run_handler h env s = (Inl e, s1) \<Longrightarrow> u32_inc oc a = Done a' \<Longrightarrow>
     retry_loop V h oc mr rb sid env a s =
       (if mr < a' then Some (on_permanent_error V sid env s1)
        else (case doubled_delay oc rb a' of
                Panic \<Rightarrow> Some (LoopPanicked s1)
              | Done d \<Rightarrow> retry_loop V h oc mr rb sid env a' (log_event (Backoff d) s1)))"
  by (subst retry_loop.simps) simp

lemma task_work_outcome:
  "task_work V h oc mr rb sid pc s ls pc' s' \<Longrightarrow>
     outcome_at V h oc mr rb sid pc s = outcome_at V h oc mr rb sid pc' s'"
proof (induction rule: task_work.induct)
  case (accepts env s u s1 a)
  then show ?case by simp (subst retry_loop.simps, simp)
next
  case (count_overflows env s e s1 a)
  then show ?case by simp (subst retry_loop.simps, simp)
qed (auto simp: retry_loop_failed on_permanent_error_def)

lemma task_works_outcome:
  "task_works V h oc mr rb sid pc s pc' s' \<Longrightarrow>
     outcome_at V h oc mr rb sid pc s = outcome_at V h oc mr rb sid pc' s'"
  by (induction rule: task_works.induct) (auto dest: task_work_outcome)

lemma task_works_step: "task_work V h oc mr rb sid pc s ls pc' s' \<Longrightarrow> task_works V h oc mr rb sid pc s pc' s'"
  by (rule works, assumption, rule rests)

definition final_pc :: "'v envelope \<Rightarrow> 's loop_result \<Rightarrow> 'v task_pc" where
  "final_pc env r = (case r of Completed s \<Rightarrow> Waiting | DlqBlocked s \<Rightarrow> Sending env | LoopPanicked s \<Rightarrow> Crashed)"

lemma final_pc_simps [simp]:
  "final_pc env (Completed s) = Waiting" "final_pc env (DlqBlocked s) = Sending env"
  "final_pc env (LoopPanicked s) = Crashed"
  by (simp_all add: final_pc_def)

lemma sending_works:
  assumes "sh_dlq s \<noteq> None"
  shows "task_works V h oc mr rb sid (Sending env) s
     (final_pc env (on_permanent_error V sid env s)) (loop_state (on_permanent_error V sid env s))"
proof -
  obtain c where c: "sh_dlq s = Some c" using assms by blast
  obtain p c' where p: "chan_send c env = (p, c')" by (cases "chan_send c env")
  show ?thesis
  proof (cases p)
    case Pending
    then show ?thesis using c p by (simp add: on_permanent_error_def rests)
  next
    case (Ready b)
    then show ?thesis
      using c p task_works_step [OF sends [OF c, of env b c']] by (simp add: on_permanent_error_def)
  qed
qed

text \<open>One pass of the loop whose next passes are given by \<open>loop\<close>.\<close>

lemma loop_pass_works:
  assumes next_passes: "\<And>a s r. loop a s = Some r \<Longrightarrow>
      task_works V h oc mr rb sid (Calling env a) s (final_pc env r) (loop_state r)"
    and run: "run_handler h env s = (res, s1)"
    and pass: "(case res of
        Inr _ \<Rightarrow> Some (Completed (on_success V sid env s1))
      | Inl e \<Rightarrow>
          (case u32_inc oc a of
             Panic \<Rightarrow> Some (LoopPanicked s1)
           | Done a' \<Rightarrow>
               if mr < a' then Some (on_permanent_error V sid env s1)
               else (case doubled_delay oc rb a' of
                       Panic \<Rightarrow> Some (LoopPanicked s1)
                     | Done d \<Rightarrow> loop a' (log_event (Backoff d) s1)))) = Some r"
  shows "task_works V h oc mr rb sid (Calling env a) s (final_pc env r) (loop_state r)"
proof (cases res)
  case (Inr u)
  then show ?thesis using run pass task_works_step [OF accepts] by fastforce
next
  case (Inl e)
  note failed = run [unfolded Inl]
  show ?thesis
  proof (cases "u32_inc oc a")
    case Panic
    then show ?thesis using Inl pass task_works_step [OF count_overflows [OF failed Panic]] by auto
  next
    case (Done a')
    note retry = Inl pass failed Done
    show ?thesis
    proof (cases "mr < a'")
      case True
      then have r: "r = on_permanent_error V sid env s1" using retry by simp
      show ?thesis
        using r task_works_step [OF gives_up [OF failed Done True]]
          works [OF dead_letters [OF failed Done True] sending_works [of s1]]
        by (cases "sh_dlq s1") (simp_all add: on_permanent_error_def)
    next
      case False
      then show ?thesis
        using retry task_works_step [OF delay_overflows [OF failed Done False]]
          works [OF retries [OF failed Done False] works [OF wakes next_passes]]
        by (auto split: outcome.splits)
    qed
  qed
qed

lemma retry_loop_works:
  assumes "retry_loop V h oc mr rb sid env a s = Some r"
  shows "task_works V h oc mr rb sid (Calling env a) s (final_pc env r) (loop_state r)"
  using assms
proof (rule retry_loop.raw_induct [rotated])
  fix loop :: "('r, 'v) registry_vtable \<Rightarrow> ('v, 'w) handler \<Rightarrow> bool \<Rightarrow> u32 \<Rightarrow> duration \<Rightarrow> uuid \<Rightarrow>
      'v envelope \<Rightarrow> u32 \<Rightarrow> ('r, 'v, 'w) shared \<Rightarrow> ('r, 'v, 'w) shared loop_result option"
  fix V :: "('r, 'v) registry_vtable" and h :: "('v, 'w) handler" and oc mr rb sid env a s r
  assume next_passes: "\<And>V h oc mr rb sid env a s r. loop V h oc mr rb sid env a s = Some r \<Longrightarrow>
      task_works V h oc mr rb sid (Calling env a) s (final_pc env r) (loop_state r)"
    and pass: "(let (res, s1) = run_handler h env s
     in case res of
          Inl e \<Rightarrow>
            (case u32_inc oc a of
               Done a' \<Rightarrow>
                 if mr < a' then Some (on_permanent_error V sid env s1)
                 else (case doubled_delay oc rb a' of
                         Done d \<Rightarrow> loop V h oc mr rb sid env a' (log_event (Backoff d) s1)
                       | Panic \<Rightarrow> Some (LoopPanicked s1))
             | Panic \<Rightarrow> Some (LoopPanicked s1))
        | Inr _ \<Rightarrow> Some (Completed (on_success V sid env s1))) = Some r"
  obtain res s1 where run: "run_handler h env s = (res, s1)" by (cases "run_handler h env s")
  show "task_works V h oc mr rb sid (Calling env a) s (final_pc env r) (loop_state r)"
    using pass [unfolded run Let_def prod.case]
    by (rule loop_pass_works [where loop = "loop V h oc mr rb sid env", rotated 2])
      (rule next_passes run, assumption?)+
qed

lemma task_returns_iff:
  "task_works V h oc mr rb sid (Calling env a) s Waiting s' \<longleftrightarrow>
     retry_loop V h oc mr rb sid env a s = Some (Completed s')"
  using retry_loop_works [of V h oc mr rb sid env a s "Completed s'"]
  by (auto dest: task_works_outcome)

lemma task_panics_iff:
  "task_works V h oc mr rb sid (Calling env a) s Crashed s' \<longleftrightarrow>
     retry_loop V h oc mr rb sid env a s = Some (LoopPanicked s')"
  using retry_loop_works [of V h oc mr rb sid env a s "LoopPanicked s'"]
  by (auto dest: task_works_outcome)

lemma task_blocked_iff:
  "task_works V h oc mr rb sid (Calling env a) s (Sending env) s' \<and>
     on_permanent_error V sid env s' = DlqBlocked s' \<longleftrightarrow>
     retry_loop V h oc mr rb sid env a s = Some (DlqBlocked s')"
  using retry_loop_works [of V h oc mr rb sid env a s "DlqBlocked s'"]
    task_works_outcome [of V h oc mr rb sid "Calling env a" s "Sending env" s']
  by auto

section \<open>The log of a task\<close>

text \<open>The log of failed attempts that are retried after the given delays, and what may follow it.\<close>

definition attempts_log :: "duration list \<Rightarrow> loop_event list" where
  "attempts_log ds = concat (map (\<lambda>d. [Execute, Backoff d]) ds)"

lemma attempts_log_simps [simp]:
  "attempts_log [] = []" "attempts_log (ds @ [d]) = attempts_log ds @ [Execute, Backoff d]"
  by (simp_all add: attempts_log_def)

definition delays_from :: "bool \<Rightarrow> duration \<Rightarrow> duration list \<Rightarrow> bool" where
  "delays_from oc rb ds \<longleftrightarrow> (\<forall>i<length ds. doubled_delay oc rb (of_nat (Suc i)) = Done (ds ! i))"

lemma delays_from_snoc:
  "delays_from oc rb (ds @ [d]) \<longleftrightarrow>
     delays_from oc rb ds \<and> doubled_delay oc rb (of_nat (Suc (length ds))) = Done d"
  by (auto simp: delays_from_def nth_append less_Suc_eq)

fun log_tails :: "uuid \<Rightarrow> 'v envelope \<Rightarrow> bool \<Rightarrow> 'v task_pc \<Rightarrow> loop_event list set" where
  "log_tails sid env exhausted Waiting =
     insert [Execute, Increment sid, AckEvent sid (env_event_id env)]
       (if exhausted
        then {[Execute, MarkFailed sid (env_event_id env)],
              [Execute, SendDlq (env_event_id env), MarkFailed sid (env_event_id env)]}
        else {})"
| "log_tails sid env exhausted (Sending env') = (if exhausted \<and> env' = env then {[Execute]} else {})"
| "log_tails sid env exhausted (Calling env' a) = (if env' = env then {[]} else {})"
| "log_tails sid env exhausted (Sleeping env' a) = (if env' = env then {[]} else {})"
| "log_tails sid env exhausted Crashed = {[Execute]}"

definition failures_at :: "nat \<Rightarrow> 'v task_pc \<Rightarrow> bool" where
  "failures_at n pc \<longleftrightarrow> (case pc of Calling env a \<Rightarrow> unat a = n | Sleeping env a \<Rightarrow> unat a = n | _ \<Rightarrow> True)"

definition task_log ::
    "bool \<Rightarrow> u32 \<Rightarrow> duration \<Rightarrow> uuid \<Rightarrow> 'v envelope \<Rightarrow> 'v task_pc \<Rightarrow> loop_event list \<Rightarrow> bool" where
  "task_log oc mr rb sid env pc ls \<longleftrightarrow>
     (\<exists>ds tail. ls = attempts_log ds @ tail \<and> delays_from oc rb ds \<and> length ds \<le> unat mr \<and>
        failures_at (length ds) pc \<and> tail \<in> log_tails sid env (length ds = unat mr) pc)"

lemma task_logI:
  "ls = attempts_log ds @ tail \<Longrightarrow> delays_from oc rb ds \<Longrightarrow> length ds \<le> unat mr \<Longrightarrow>
     failures_at (length ds) pc \<Longrightarrow> tail \<in> log_tails sid env (length ds = unat mr) pc \<Longrightarrow>
     task_log oc mr rb sid env pc ls"
  unfolding task_log_def by blast

text \<open>Below the largest maximum the failure counter does not wrap.\<close>

lemma failures_below:
  fixes mr :: u32
  assumes "mr \<noteq> - 1" "n \<le> unat mr"
  shows "n < 2 ^ 32 - 1"
proof -
  have "unat mr < unat (- 1 :: u32)"
    using assms(1) by (metis word_less_nat_alt word_order.not_eq_extremum)
  then show ?thesis using assms(2) by (simp add: unat_max_u32)
qed

lemma task_log_step:
  assumes "task_work V h oc mr rb sid pc s ls' pc' s'" "task_log oc mr rb sid env pc ls" "mr \<noteq> - 1"
  shows "task_log oc mr rb sid env pc' (ls @ ls')"
proof -
  obtain ds tail where ls: "ls = attempts_log ds @ tail" "delays_from oc rb ds" "length ds \<le> unat mr"
      "failures_at (length ds) pc" "tail \<in> log_tails sid env (length ds = unat mr) pc"
    using assms(2) unfolding task_log_def by blast
  have counted: "u32_inc oc a = Done (a + 1)" "unat (a + 1) = Suc (length ds)"
      "mr < a + 1 \<longleftrightarrow> length ds = unat mr" "a + 1 = of_nat (Suc (length ds))"
    if "unat a = length ds" for a
  proof -
    have a: "unat a < 2 ^ 32 - 1" using failures_below [OF assms(3) ls(3)] that by simp
    show "u32_inc oc a = Done (a + 1)" by (rule u32_inc_below_max [OF a])
    show n: "unat (a + 1) = Suc (length ds)" using unat_Suc_u32 [OF a] that by simp
    show "mr < a + 1 \<longleftrightarrow> length ds = unat mr" using ls(3) n by (auto simp: word_less_nat_alt)
    show "a + 1 = of_nat (Suc (length ds))" unfolding n [symmetric] by simp
  qed
  from assms(1) show ?thesis
  proof cases
    case (accepts env' u s1 a)
    then show ?thesis using ls by (intro task_logI [OF _ ls(2,3)]) (auto simp: failures_at_def split: if_splits)
  next
    case (count_overflows env' e a)
    then show ?thesis using ls counted(1) [of a] by (simp add: failures_at_def)
  next
    case (delay_overflows env' e a a')
    then show ?thesis using ls by (intro task_logI [OF _ ls(2,3)]) (auto simp: failures_at_def split: if_splits)
  next
    case (retries env' e s1 a a' d)
    have a: "unat a = length ds" using ls(4) retries(1) by (simp add: failures_at_def)
    note step = counted [OF a]
    have a': "a' = of_nat (Suc (length ds))" using retries step(1,4) by simp
    then show ?thesis
      using retries ls step
      by (intro task_logI [where ds = "ds @ [d]" and tail = "[]"])
        (auto simp: delays_from_snoc failures_at_def split: if_splits)
  next
    case wakes
    then show ?thesis using ls by (intro task_logI [OF _ ls(2,3)]) (auto simp: failures_at_def split: if_splits)
  next
    case (gives_up env' e s1 a a')
    then show ?thesis using ls counted [of a]
      by (intro task_logI [OF _ ls(2,3)]) (auto simp: failures_at_def split: if_splits)
  next
    case (dead_letters env' e a a')
    then show ?thesis using ls counted [of a]
      by (intro task_logI [OF _ ls(2,3)]) (auto simp: failures_at_def split: if_splits)
  next
    case (sends c env' b c')
    then show ?thesis using ls by (intro task_logI [OF _ ls(2,3)]) (auto simp: failures_at_def split: if_splits)
  qed
qed

lemma task_work_log: "task_work V h oc mr rb sid pc s ls pc' s' \<Longrightarrow> sh_log s' = sh_log s @ ls"
proof (induction rule: task_work.induct)
  case (accepts env s u s1 a)
  then show ?case
    using run_handler_sel(5) [of h env s] by (simp add: on_success_def log_event_def Let_def)
next
  case (sends s c env b c')
  then show ?case by (simp add: mark_failed_def log_event_def)
qed (auto simp: mark_failed_def log_event_def dest: arg_cong [where f = "sh_log \<circ> snd"])

lemma handler_step_log: "handler_step V h oc mr rb sid pc s ls pc' s' \<Longrightarrow> sh_log s' = sh_log s @ ls"
  by (induction rule: handler_step.induct) (auto simp: log_event_def dest: task_work_log)

lemma handler_step_task_log:
  assumes "handler_step V h oc mr rb sid pc s ls' pc' s'" "task_log oc mr rb sid env pc ls" "mr \<noteq> - 1"
  shows "task_log oc mr rb sid env pc' (ls @ ls')"
  using assms(1)
proof cases
  case returns
  then show ?thesis by (rule task_log_step [OF _ assms(2,3)])
next
  case (panics env' a w)
  then show ?thesis
    using assms(2) unfolding task_log_def by (auto simp: failures_at_def split: if_splits)
qed

lemma interleave_log:
  "tasks_interleave V hs oc mr rb pcs s tr pcs' s' \<Longrightarrow> sh_log s' = sh_log s @ concat (map snd tr)"
  by (induction rule: tasks_interleave.induct) (auto dest: handler_step_log)

definition is_verdict :: "loop_event \<Rightarrow> bool" where
  "is_verdict e = (case e of AckEvent _ _ \<Rightarrow> True | MarkFailed _ _ \<Rightarrow> True | _ \<Rightarrow> False)"

lemma task_log_verdicts:
  assumes "task_log oc mr rb sid env pc ls"
  shows "length (filter is_verdict ls) = (if pc = Waiting then 1 else 0)"
proof -
  have "filter is_verdict (attempts_log ds) = []" for ds
    by (auto simp: attempts_log_def filter_empty_conv is_verdict_def)
  then show ?thesis
    using assms unfolding task_log_def by (cases pc) (auto simp: is_verdict_def split: if_splits)
qed

lemma interleave_task_log:
  assumes "tasks_interleave V hs oc mr rb pcs s tr pcs' s'" "pcs i = Calling env 0" "mr \<noteq> - 1"
  shows "task_log oc mr rb i env (pcs' i) (log_of i tr)"
  using assms(1,2)
proof (induction rule: tasks_interleave.induct)
  case (idle pcs s)
  show ?case
    by (rule task_logI [where ds = "[]" and tail = "[]"])
      (simp_all add: idle log_of_def delays_from_def failures_at_def)
next
  case (turn pcs s tr pcs1 s1 j ls pc s2)
  then show ?case
    using handler_step_task_log [OF turn(2) _ assms(3), of env "log_of j tr"]
    by (cases "j = i") (simp_all add: log_of_def)
qed

section \<open>Properties\<close>

text \<open>
  C19: the retry loop is what the steps of a task that runs alone add up to: the task deals with the
  envelope and goes back to its queue exactly when the loop completes, with the same state; it dies
  exactly when the loop panics; and it ends up waiting for a full dead letter queue exactly when the
  loop is blocked by it.
\<close>

theorem task_steps_refine_retry_loop:
  "(task_works V h oc mr rb sid (Calling env a) s Waiting s' \<longleftrightarrow>
      retry_loop V h oc mr rb sid env a s = Some (Completed s')) \<and>
   (task_works V h oc mr rb sid (Calling env a) s Crashed s' \<longleftrightarrow>
      retry_loop V h oc mr rb sid env a s = Some (LoopPanicked s')) \<and>
   (task_works V h oc mr rb sid (Calling env a) s (Sending env) s' \<and>
      on_permanent_error V sid env s' = DlqBlocked s' \<longleftrightarrow>
      retry_loop V h oc mr rb sid env a s = Some (DlqBlocked s'))"
  by (intro conjI task_returns_iff task_panics_iff task_blocked_iff)

text \<open>Two tasks with the same flaky handler: the first fails, the second succeeds in between.\<close>

definition two_tasks :: "uuid \<Rightarrow> nat task_pc" where
  "two_tasks = (\<lambda>_. Waiting)(1 := Calling (echo_env 3) 0, 2 := Calling (echo_env 3) 0)"

definition two_tasks_trace :: "(uuid \<times> loop_event list) list" where
  "two_tasks_trace =
     [(1, [Execute, Backoff 10]), (2, [Execute, Increment 2, AckEvent 2 77]), (1, []),
      (1, [Execute, Increment 1, AckEvent 1 77])]"

lemma on_success_world: "sh_world (on_success V sid env s) = sh_world s"
  by (simp add: on_success_def Let_def log_event_def)

lemma two_tasks_run:
  "\<exists>s'. tasks_interleave dashmap_vtable (\<lambda>_. flaky 1) True 1 10 two_tasks echo_shared
     two_tasks_trace (\<lambda>_. Waiting) s'"
proof -
  let ?h = "flaky 1" and ?e = "echo_env 3" and ?s = echo_shared
  let ?W = "task_work dashmap_vtable ?h True 1 10"
  define s1 where "s1 = log_event (Backoff 10) (snd (run_handler ?h ?e ?s))"
  define s2 where "s2 = on_success dashmap_vtable 2 ?e (snd (run_handler ?h ?e s1))"
  define s3 where "s3 = on_success dashmap_vtable 1 ?e (snd (run_handler ?h ?e s2))"
  have w: "sh_world ?s = 0" "sh_world s1 = 1" "sh_world s2 = 2" "env_event_id ?e = 77"
    by (simp_all add: s2_def s1_def on_success_world echo_shared_def)
  have r1: "run_handler ?h ?e ?s = (Inl (handler_error ''not yet''), snd (run_handler ?h ?e ?s))"
    by (simp add: prod_eq_iff w)
  have w1: "?W 1 (Calling ?e 0) ?s [Execute, Backoff 10] (Sleeping ?e 1) s1"
    unfolding s1_def
    by (rule retries [OF r1]) (simp_all add: u32_inc_def doubled_delay_ok duration_max_def)
  have w2: "?W 2 (Calling ?e 0) s1 [Execute, Increment 2, AckEvent 2 77] Waiting s2"
    using accepts [of ?h ?e s1 "()" "snd (run_handler ?h ?e s1)" dashmap_vtable True 1 10 2 0] w
    by (simp add: prod_eq_iff s2_def)
  have w3: "?W 1 (Calling ?e 1) s2 [Execute, Increment 1, AckEvent 1 77] Waiting s3"
    using accepts [of ?h ?e s2 "()" "snd (run_handler ?h ?e s2)" dashmap_vtable True 1 10 1 1] w
    by (simp add: prod_eq_iff s3_def)
  have w4: "?W 1 (Sleeping ?e 1) s2 [] (Calling ?e 1) s2" by (rule wakes)
  let ?I = "tasks_interleave dashmap_vtable (\<lambda>_. ?h) True 1 10 two_tasks ?s"
  let ?p1 = "two_tasks(1 := Sleeping ?e 1)"
  have "?I ([] @ [(1, [Execute, Backoff 10])]) ?p1 s1"
    using returns [OF w1] by (intro turn [OF idle]) (simp add: two_tasks_def)
  from turn [OF this, of 2] returns [OF w2]
  have "?I [(1, [Execute, Backoff 10]), (2, [Execute, Increment 2, AckEvent 2 77])] (?p1(2 := Waiting)) s2"
    by (simp add: two_tasks_def)
  from turn [OF this, of 1] returns [OF w4]
  have "?I [(1, [Execute, Backoff 10]), (2, [Execute, Increment 2, AckEvent 2 77]), (1, [])]
      (?p1(2 := Waiting, 1 := Calling ?e 1)) s2"
    by simp
  from turn [OF this, of 1] returns [OF w3]
  have "?I two_tasks_trace (?p1(2 := Waiting, 1 := Calling ?e 1, 1 := Waiting)) s3"
    by (simp add: two_tasks_trace_def)
  moreover have "?p1(2 := Waiting, 1 := Calling ?e 1, 1 := Waiting) = (\<lambda>_. Waiting)"
    by (auto simp: two_tasks_def)
  ultimately show ?thesis by auto
qed

text \<open>
  C11: one verdict per envelope, in any interleaving of any number of tasks that share the registry,
  the state of the program and the dead letter queue. A task that took an envelope has called the
  handler once for each delay it then slept, at most the maximum number of retries and with the
  delays of the schedule, before its last call; only after that call, and only when it goes back to
  its queue, has it acknowledged the envelope or, when the retries are used up, marked it failed (after
  the dead letter queue took it, if there is one). A task stopped anywhere before, or ended by a panic
  of its handler, has done neither.
\<close>

theorem one_verdict_per_envelope:
  assumes "tasks_interleave V hs oc mr rb pcs s tr pcs' s'" "pcs i = Calling env 0" "mr \<noteq> - 1"
  shows "task_log oc mr rb i env (pcs' i) (log_of i tr) \<and>
    length (filter is_verdict (log_of i tr)) = (if pcs' i = Waiting then 1 else 0) \<and>
    sh_log s' = sh_log s @ concat (map snd tr)"
  using interleave_task_log [OF assms] task_log_verdicts interleave_log [OF assms(1)] by blast

theorem one_verdict_per_envelope_witness:
  "\<exists>s'. tasks_interleave dashmap_vtable (\<lambda>_. flaky 1) True 1 10 two_tasks echo_shared
      two_tasks_trace (\<lambda>_. Waiting) s' \<and>
     task_log True 1 10 1 (echo_env 3) Waiting (log_of 1 two_tasks_trace) \<and>
     length (filter is_verdict (log_of 1 two_tasks_trace)) = 1 \<and>
     sh_log s' = sh_log echo_shared @ concat (map snd two_tasks_trace)"
proof -
  obtain s' where run: "tasks_interleave dashmap_vtable (\<lambda>_. flaky 1) True 1 10 two_tasks echo_shared
      two_tasks_trace (\<lambda>_. Waiting) s'"
    using two_tasks_run by blast
  have "two_tasks 1 = Calling (echo_env 3) 0" "(1::u32) \<noteq> - 1"
    by (simp_all add: two_tasks_def)
  from one_verdict_per_envelope [OF run this] run show ?thesis by auto
qed

end
