(* ===== verification/Pipeline.thy ===== *)
theory Pipeline
  imports Channel_Dispatcher Manager_Invariant Task_Steps "HOL-Library.Sublist"
begin

text \<open>
  The in-memory path of an event as a whole: publishers, the worker of the channel dispatcher
  (src/src/dispatcher/channel.rs), the subscription manager and its handler tasks
  (src/src/subscription/mod.rs), each one step at a time and in any order, while subscriptions come
  and go. The state carries the history needed to say what became of every event.
\<close>

section \<open>State and history\<close>

text \<open>The dispatcher, where each task is, and the history: what entered the dispatcher's queue, what the
  worker took from it and for whom, what each task took from its own queue, the ids ever used, and
  the subscriptions that were still waiting for room when a dispatch timed out.\<close>

record ('v, 'w) pipeline =
  pl_dispatcher :: "('v dashmap_registry, 'v, 'w) channel_dispatcher"
  pl_tasks :: "uuid \<Rightarrow> 'v task_pc"
  pl_accepted :: "'v envelope list"
  pl_taken :: "('v envelope \<times> uuid set) list"
  pl_received :: "uuid \<Rightarrow> 'v envelope list"
  pl_used :: "uuid set"
  pl_missed :: "uuid set"

definition pl_manager :: "('v, 'w) pipeline \<Rightarrow> ('v dashmap_registry, 'v, 'w) manager" where
  "pl_manager p = cd_manager (pl_dispatcher p)"

definition with_manager ::
    "('v dashmap_registry, 'v, 'w) manager \<Rightarrow> ('v, 'w) pipeline \<Rightarrow> ('v, 'w) pipeline" where
  "with_manager m p = p\<lparr>pl_dispatcher := (pl_dispatcher p)\<lparr>cd_manager := m\<rparr>\<rparr>"

definition pipeline_new ::
    "('v dashmap_registry, 'v, 'w) channel_dispatcher \<Rightarrow> ('v, 'w) pipeline" where
  "pipeline_new d =
     \<lparr>pl_dispatcher = d, pl_tasks = (\<lambda>_. Waiting), pl_accepted = chan_buffer (cd_queue d),
      pl_taken = [], pl_received = (\<lambda>_. []), pl_used = mkeys (m_subscriptions (cd_manager d)),
      pl_missed = {}\<rparr>"

text \<open>What a step put on the dispatcher's queue.\<close>

definition entered ::
    "('r, 'v, 'w) channel_dispatcher \<Rightarrow> ('r, 'v, 'w) channel_dispatcher \<Rightarrow> 'v envelope list" where
  "entered d d' = drop (length (chan_buffer (cd_queue d))) (chan_buffer (cd_queue d'))"

definition with_entered ::
    "('v dashmap_registry, 'v, 'w) channel_dispatcher \<Rightarrow> ('v, 'w) pipeline \<Rightarrow> ('v, 'w) pipeline" where
  "with_entered d p =
     p\<lparr>pl_dispatcher := d, pl_accepted := pl_accepted p @ entered (pl_dispatcher p) d\<rparr>"

section \<open>Steps\<close>

text \<open>What goes on inside, without anybody calling the bus: the worker, its timeout, and the tasks. A poll
  that finds no more room than the one before changes nothing and is left out.\<close>

inductive pipeline_work :: "bool \<Rightarrow> ('v, 'w) pipeline \<Rightarrow> ('v, 'w) pipeline \<Rightarrow> bool" for oc where
  takes: "worker_take dashmap_vtable us (pl_dispatcher p) = Some d \<Longrightarrow>
     pipeline_work oc p (p\<lparr>pl_dispatcher := d, pl_taken := pl_taken p @
       (if cd_running (pl_dispatcher p)
        then (let env = hd (chan_buffer (cd_queue (pl_dispatcher p)))
              in [(env, {i. receives (pl_manager p) env i})])
        else [])\<rparr>)"
| polls: "worker_poll us (pl_dispatcher p) = Some d \<Longrightarrow> cd_inflight d \<noteq> cd_inflight (pl_dispatcher p) \<Longrightarrow>
     pipeline_work oc p (p\<lparr>pl_dispatcher := d\<rparr>)"
| times_out: "cd_inflight (pl_dispatcher p) = Some (env, waiting) \<Longrightarrow>
     worker_timeout (pl_dispatcher p) = Some d \<Longrightarrow>
     pipeline_work oc p (p\<lparr>pl_dispatcher := d, pl_missed := pl_missed p \<union> set waiting\<rparr>)"
| task_takes: "map_of (m_subscriptions (pl_manager p)) i = Some t \<Longrightarrow> task_running t \<Longrightarrow>
     pl_tasks p i = Waiting \<Longrightarrow> chan_recv (task_queue t) = (Some env, q) \<Longrightarrow>
     pipeline_work oc p ((with_manager (set_task i (t\<lparr>task_queue := q\<rparr>) (pl_manager p)) p)
       \<lparr>pl_tasks := (pl_tasks p)(i := Calling env 0),
        pl_received := (pl_received p)(i := pl_received p i @ [env])\<rparr>)"
| task_acts: "map_of (m_subscriptions (pl_manager p)) i = Some t \<Longrightarrow> task_running t \<Longrightarrow>
     handler_step dashmap_vtable (task_handler t) oc (m_max_retries (pl_manager p))
       (m_retry_backoff (pl_manager p)) i (pl_tasks p i) (m_shared (pl_manager p)) ls pc s \<Longrightarrow>
     pipeline_work oc p ((with_manager (set_task i (if pc = Crashed then end_task t else t)
         ((pl_manager p)\<lparr>m_shared := s\<rparr>)) p)\<lparr>pl_tasks := (pl_tasks p)(i := pc)\<rparr>)"
| signalled: "pl_tasks p i = Waiting \<Longrightarrow> task_shutdown i (pl_manager p) = Some m \<Longrightarrow>
     pipeline_work oc p (with_manager m p)"
| removed: "auto_unsubscribe dashmap_vtable (pl_manager p) = Some m \<Longrightarrow>
     pipeline_work oc p (with_manager m p)"

text \<open>And what the users of the bus do to it, or its clock.\<close>

inductive pipeline_step :: "bool \<Rightarrow> ('v, 'w) pipeline \<Rightarrow> ('v, 'w) pipeline \<Rightarrow> bool" for oc where
  internal: "pipeline_work oc p p' \<Longrightarrow> pipeline_step oc p p'"
| publishes: "cd_dispatch now (pl_dispatcher p) env = (r, d) \<Longrightarrow> pipeline_step oc p (with_entered d p)"
| tries: "cd_try_dispatch now (pl_dispatcher p) env = (r', d) \<Longrightarrow> pipeline_step oc p (with_entered d p)"
| fires: "fire_scheduled now k (pl_dispatcher p) = Some d \<Longrightarrow> pipeline_step oc p (with_entered d p)"
| closes: "pipeline_step oc p (p\<lparr>pl_dispatcher := cd_shutdown_begin (pl_dispatcher p)\<rparr>)"
| stops: "pipeline_step oc p (p\<lparr>pl_dispatcher := cd_stop_begin (pl_dispatcher p)\<rparr>)"
| handled: "pipeline_step oc p (with_manager (update_cell i f (pl_manager p)) p)"
| unsubscribes: "pipeline_step oc p
     (with_manager (snd (manager_unsubscribe dashmap_vtable i (pl_manager p))) p)"
| subscribes: "i \<notin> pl_used p \<Longrightarrow> fresh_id (sh_registry (m_shared (pl_manager p))) i \<Longrightarrow>
     (\<And>pat. topic_opt = Some pat \<Longrightarrow> valid_topic pat) \<Longrightarrow>
     subscribe_typed dashmap_vtable T h name topic_opt i (pl_manager p) = Done (res, m) \<Longrightarrow>
     pipeline_step oc p ((with_manager m p)\<lparr>pl_used := insert i (pl_used p)\<rparr>)"
| subscribes_untyped: "i \<notin> pl_used p \<Longrightarrow> fresh_id (sh_registry (m_shared (pl_manager p))) i \<Longrightarrow>
     subscribe_untyped dashmap_vtable h tid tname i (pl_manager p) = Done (res, m) \<Longrightarrow>
     pipeline_step oc p ((with_manager m p)\<lparr>pl_used := insert i (pl_used p)\<rparr>)"

inductive pipeline_reach :: "bool \<Rightarrow> ('v, 'w) pipeline \<Rightarrow> ('v, 'w) pipeline \<Rightarrow> bool" for oc p0 where
  start: "pipeline_reach oc p0 p0"
| step: "pipeline_reach oc p0 p \<Longrightarrow> pipeline_step oc p p' \<Longrightarrow> pipeline_reach oc p0 p'"

section \<open>What the history says\<close>

text \<open>The envelopes taken for a subscription; the one its queue has no room for yet; how far the
  subscription has got; and the envelopes its task is done with.\<close>

definition routed :: "('v, 'w) pipeline \<Rightarrow> uuid \<Rightarrow> 'v envelope list" where
  "routed p i = map fst (filter (\<lambda>x. i \<in> snd x) (pl_taken p))"

definition pending_at :: "('r, 'v, 'w) channel_dispatcher \<Rightarrow> uuid \<Rightarrow> 'v envelope list" where
  "pending_at d i =
     (case cd_inflight d of None \<Rightarrow> [] | Some (env, ids) \<Rightarrow> if i \<in> set ids then [env] else [])"

definition progress :: "('v, 'w) pipeline \<Rightarrow> uuid \<Rightarrow> ('v, 'w) sub_task \<Rightarrow> 'v envelope list" where
  "progress p i t =
     pl_received p i @ chan_buffer (task_queue t) @ pending_at (pl_dispatcher p) i"

definition finished :: "('v, 'w) pipeline \<Rightarrow> uuid \<Rightarrow> 'v envelope list" where
  "finished p i = (if pl_tasks p i = Waiting then pl_received p i else butlast (pl_received p i))"

fun verdict_id :: "uuid \<Rightarrow> loop_event \<Rightarrow> uuid option" where
  "verdict_id i (AckEvent j e) = (if j = i then Some e else None)"
| "verdict_id i (MarkFailed j e) = (if j = i then Some e else None)"
| "verdict_id i _ = None"

definition verdicts_of :: "uuid \<Rightarrow> loop_event list \<Rightarrow> uuid list" where
  "verdicts_of i ls = List.map_filter (verdict_id i) ls"

fun pc_envelope :: "'v task_pc \<Rightarrow> 'v envelope option" where
  "pc_envelope (Calling env a) = Some env"
| "pc_envelope (Sleeping env a) = Some env"
| "pc_envelope (Sending env) = Some env"
| "pc_envelope _ = None"

lemma verdicts_of_append [simp]: "verdicts_of i (xs @ ys) = verdicts_of i xs @ verdicts_of i ys"
  by (simp add: verdicts_of_def map_filter_def)

lemma verdicts_of_Cons: "verdicts_of i (x # xs) = (case verdict_id i x of None \<Rightarrow> [] | Some e \<Rightarrow> [e]) @ verdicts_of i xs"
  by (simp add: verdicts_of_def map_filter_def split: option.split)

lemma verdicts_of_Nil [simp]: "verdicts_of i [] = []"
  by (simp add: verdicts_of_def map_filter_def)

text \<open>A step of a task: the verdict is its own, it is on the envelope at hand, and it is passed when
  the task goes back to its queue.\<close>

lemma handler_step_verdicts:
  "handler_step V h oc mr rb i pc s ls pc' s' \<Longrightarrow>
     verdicts_of j ls = (if j = i \<and> pc' = Waiting then [env_event_id (the (pc_envelope pc))] else []) \<and>
     (pc' = Waiting \<longrightarrow> pc_envelope pc \<noteq> None) \<and>
     (pc_envelope pc' = None \<or> pc_envelope pc' = pc_envelope pc) \<and> pc \<noteq> Waiting"
  by (elim handler_step.cases task_work.cases) (auto simp: verdicts_of_Cons)

section \<open>The invariant\<close>

definition task_inv :: "('v, 'w) pipeline \<Rightarrow> uuid \<Rightarrow> ('v, 'w) sub_task \<Rightarrow> bool" where
  "task_inv p i t \<longleftrightarrow>
     subseq (progress p i t) (routed p i) \<and> (i \<notin> pl_missed p \<longrightarrow> progress p i t = routed p i)"

definition verdict_inv :: "('v, 'w) pipeline \<Rightarrow> uuid \<Rightarrow> bool" where
  "verdict_inv p i \<longleftrightarrow>
     verdicts_of i (sh_log (m_shared (pl_manager p))) = map env_event_id (finished p i) \<and>
     (\<forall>env. pc_envelope (pl_tasks p i) = Some env \<longrightarrow>
        pl_received p i \<noteq> [] \<and> last (pl_received p i) = env)"

definition unused_inv :: "('v, 'w) pipeline \<Rightarrow> bool" where
  "unused_inv p \<longleftrightarrow> mkeys (m_subscriptions (pl_manager p)) \<subseteq> pl_used p \<and>
     (\<forall>i. i \<notin> pl_used p \<longrightarrow> routed p i = [] \<and> pl_received p i = [] \<and> pending_at (pl_dispatcher p) i = [])"

definition queue_inv :: "('v, 'w) pipeline \<Rightarrow> bool" where
  "queue_inv p \<longleftrightarrow> prefix (map fst (pl_taken p)) (pl_accepted p) \<and>
     (cd_worker (pl_dispatcher p) \<longrightarrow>
        pl_accepted p = map fst (pl_taken p) @ chan_buffer (cd_queue (pl_dispatcher p)))"

definition flight_inv :: "('v, 'w) pipeline \<Rightarrow> bool" where
  "flight_inv p \<longleftrightarrow> (\<forall>env ids. cd_inflight (pl_dispatcher p) = Some (env, ids) \<longrightarrow> distinct ids)"

definition pipeline_inv :: "('v, 'w) pipeline \<Rightarrow> bool" where
  "pipeline_inv p \<longleftrightarrow> manager_wf registry_inv live (pl_manager p) \<and> queue_inv p \<and> flight_inv p \<and>
     unused_inv p \<and> (\<forall>i. verdict_inv p i) \<and>
     (\<forall>i t. map_of (m_subscriptions (pl_manager p)) i = Some t \<longrightarrow> task_running t \<longrightarrow> task_inv p i t)"

lemma pipeline_invD:
  assumes "pipeline_inv p"
  shows "manager_wf registry_inv live (pl_manager p)" "queue_inv p" "flight_inv p" "unused_inv p"
    "verdict_inv p i"
    "map_of (m_subscriptions (pl_manager p)) i = Some t \<Longrightarrow> task_running t \<Longrightarrow> task_inv p i t"
  using assms by (simp_all add: pipeline_inv_def)

lemma with_manager_sel [simp]:
  "pl_manager (with_manager m p) = m" "pl_tasks (with_manager m p) = pl_tasks p"
  "pl_accepted (with_manager m p) = pl_accepted p" "pl_taken (with_manager m p) = pl_taken p"
  "pl_received (with_manager m p) = pl_received p" "pl_used (with_manager m p) = pl_used p"
  "pl_missed (with_manager m p) = pl_missed p" "routed (with_manager m p) i = routed p i"
  "pending_at (pl_dispatcher (with_manager m p)) i = pending_at (pl_dispatcher p) i"
  "cd_queue (pl_dispatcher (with_manager m p)) = cd_queue (pl_dispatcher p)"
  "cd_worker (pl_dispatcher (with_manager m p)) = cd_worker (pl_dispatcher p)"
  "cd_inflight (pl_dispatcher (with_manager m p)) = cd_inflight (pl_dispatcher p)"
  "progress (with_manager m p) i t = progress p i t" "finished (with_manager m p) i = finished p i"
  "task_inv (with_manager m p) i t = task_inv p i t"
  by (simp_all add: with_manager_def pl_manager_def routed_def pending_at_def progress_def finished_def
      task_inv_def)

text \<open>Steps of the dispatcher that leave the manager and the dispatch in flight alone.\<close>

definition front_step ::
    "('r, 'v, 'w) channel_dispatcher \<Rightarrow> ('r, 'v, 'w) channel_dispatcher \<Rightarrow> bool" where
  "front_step d d' \<longleftrightarrow> cd_manager d' = cd_manager d \<and> cd_inflight d' = cd_inflight d \<and>
     cd_worker d' = cd_worker d \<and>
     (chan_buffer (cd_queue d') = chan_buffer (cd_queue d) \<or>
      (\<exists>env. chan_buffer (cd_queue d') = chan_buffer (cd_queue d) @ [env]))"

lemma record_queue_size_front [simp]:
  "cd_inflight (record_queue_size d) = cd_inflight d" "cd_worker (record_queue_size d) = cd_worker d"
  by (simp_all add: record_queue_size_def Let_def)

lemma front_steps:
  "cd_dispatch now d env = (r, d') \<Longrightarrow> front_step d d'"
  "cd_try_dispatch now d env = (r', d') \<Longrightarrow> front_step d d'"
  "fire_scheduled now k d = Some d' \<Longrightarrow> front_step d d'"
  by (auto simp: front_step_def cd_dispatch_def cd_enqueue_def cd_try_dispatch_def fire_scheduled_def
      Let_def chan_send_def chan_try_send_def split: if_splits option.splits)

lemma inv_front:
  assumes "pipeline_inv p" "front_step (pl_dispatcher p) d"
  shows "pipeline_inv (with_entered d p)"
proof -
  let ?p = "with_entered d p"
  have sel: "pl_manager ?p = pl_manager p" "pl_tasks ?p = pl_tasks p" "pl_taken ?p = pl_taken p"
    "pl_received ?p = pl_received p" "pl_used ?p = pl_used p" "pl_missed ?p = pl_missed p"
    "cd_inflight (pl_dispatcher ?p) = cd_inflight (pl_dispatcher p)"
    "cd_worker (pl_dispatcher ?p) = cd_worker (pl_dispatcher p)"
    using assms(2) by (simp_all add: with_entered_def pl_manager_def front_step_def)
  have "chan_buffer (cd_queue d) = chan_buffer (cd_queue (pl_dispatcher p)) @ entered (pl_dispatcher p) d"
    using assms(2) by (auto simp: front_step_def entered_def)
  then have "queue_inv ?p"
    using pipeline_invD(2) [OF assms(1)] by (auto simp: queue_inv_def with_entered_def front_step_def sel
        assms(2) [unfolded front_step_def])
  then show ?thesis
    using assms(1)
    by (simp add: pipeline_inv_def flight_inv_def unused_inv_def verdict_inv_def task_inv_def progress_def
        routed_def finished_def pending_at_def sel)
qed

lemma inv_stop:
  assumes "pipeline_inv p"
  shows "pipeline_inv (p\<lparr>pl_dispatcher := cd_shutdown_begin (pl_dispatcher p)\<rparr>)"
    "pipeline_inv (p\<lparr>pl_dispatcher := cd_stop_begin (pl_dispatcher p)\<rparr>)"
  using assms
  by (simp_all add: pipeline_inv_def queue_inv_def flight_inv_def unused_inv_def verdict_inv_def
      task_inv_def progress_def routed_def finished_def pending_at_def pl_manager_def
      cd_shutdown_begin_def cd_stop_begin_def)

text \<open>A step of the manager's life cycle: running tasks keep their queues, new ones start empty.\<close>

definition queues_kept ::
    "uuid set \<Rightarrow> ('r, 'v, 'w) manager \<Rightarrow> ('r, 'v, 'w) manager \<Rightarrow> bool" where
  "queues_kept news m m' \<longleftrightarrow> sh_log (m_shared m') = sh_log (m_shared m) \<and>
     mkeys (m_subscriptions m') \<subseteq> mkeys (m_subscriptions m) \<union> news \<and>
     (\<forall>i t'. map_of (m_subscriptions m') i = Some t' \<longrightarrow> task_running t' \<longrightarrow>
        (if i \<in> news then chan_buffer (task_queue t') = []
         else \<exists>t. map_of (m_subscriptions m) i = Some t \<and> task_running t \<and> task_queue t' = task_queue t))"

lemma queues_keptE:
  assumes "queues_kept news m m'" "map_of (m_subscriptions m') i = Some t'" "task_running t'" "i \<notin> news"
  obtains t where "map_of (m_subscriptions m) i = Some t" "task_running t" "task_queue t' = task_queue t"
  using assms unfolding queues_kept_def by fastforce

lemma inv_manager:
  assumes "pipeline_inv p" "queues_kept {} (pl_manager p) m" "manager_wf registry_inv live m"
  shows "pipeline_inv (with_manager m p)"
proof -
  have "task_inv p i t'"
    if t': "map_of (m_subscriptions m) i = Some t'" "task_running t'" for i t'
  proof -
    obtain t where "map_of (m_subscriptions (pl_manager p)) i = Some t" "task_running t"
        "task_queue t' = task_queue t"
      using queues_keptE [OF assms(2) t'] by blast
    then show ?thesis
      using pipeline_invD(6) [OF assms(1)] by (simp add: task_inv_def progress_def)
  qed
  moreover have "mkeys (m_subscriptions m) \<subseteq> mkeys (m_subscriptions (pl_manager p))"
    "sh_log (m_shared m) = sh_log (m_shared (pl_manager p))"
    using assms(2) by (simp_all add: queues_kept_def)
  moreover from this(1) have "unused_inv (with_manager m p)"
    using pipeline_invD(4) [OF assms(1)] unfolding unused_inv_def with_manager_sel by blast
  ultimately show ?thesis
    using assms(1,3)
    by (simp add: pipeline_inv_def queue_inv_def flight_inv_def verdict_inv_def)
qed

lemma inv_new:
  assumes "pipeline_inv p" "queues_kept {i} (pl_manager p) m" "manager_wf registry_inv live m"
    and "i \<notin> pl_used p"
  shows "pipeline_inv ((with_manager m p)\<lparr>pl_used := insert i (pl_used p)\<rparr>)"
proof -
  let ?p = "(with_manager m p)\<lparr>pl_used := insert i (pl_used p)\<rparr>"
  have sel: "pl_manager ?p = m" "routed ?p j = routed p j" "progress ?p j t = progress p j t"
    "task_inv ?p j t = task_inv p j t" "finished ?p j = finished p j" for j t
    by (simp_all add: pl_manager_def with_manager_def routed_def progress_def task_inv_def finished_def
        pending_at_def)
  have used: "pl_used ?p = insert i (pl_used p)" "pl_received ?p = pl_received p"
    "pending_at (pl_dispatcher ?p) j = pending_at (pl_dispatcher p) j" for j
    by (simp_all add: with_manager_def pending_at_def)
  have "task_inv p j t'"
    if t': "map_of (m_subscriptions m) j = Some t'" "task_running t'" for j t'
  proof (cases "j = i")
    case True
    then show ?thesis
      using assms(2,4) t' pipeline_invD(4) [OF assms(1)]
      by (auto simp: queues_kept_def task_inv_def progress_def unused_inv_def)
  next
    case False
    then obtain t where "map_of (m_subscriptions (pl_manager p)) j = Some t" "task_running t"
        "task_queue t' = task_queue t"
      using queues_keptE [OF assms(2) t'] by blast
    then show ?thesis
      using pipeline_invD(6) [OF assms(1)] by (simp add: task_inv_def progress_def)
  qed
  moreover have "mkeys (m_subscriptions m) \<subseteq> mkeys (m_subscriptions (pl_manager p)) \<union> {i}"
    and log: "sh_log (m_shared m) = sh_log (m_shared (pl_manager p))"
    using assms(2) by (simp_all add: queues_kept_def)
  from this(1) have "unused_inv ?p"
    using pipeline_invD(4) [OF assms(1)] unfolding unused_inv_def sel used by blast
  moreover have "queue_inv ?p" "flight_inv ?p" "verdict_inv ?p j" for j
    using pipeline_invD(2,3,5) [OF assms(1)] log
    by (simp_all add: queue_inv_def flight_inv_def verdict_inv_def sel)
  ultimately show ?thesis
    using assms(3) by (simp add: pipeline_inv_def sel)
qed


section \<open>Steps of the manager\<close>

lemma queues_keptI:
  assumes "sh_log (m_shared m') = sh_log (m_shared m)"
    and "mkeys (m_subscriptions m') \<subseteq> mkeys (m_subscriptions m) \<union> news"
    and "\<And>i t'. map_of (m_subscriptions m') i = Some t' \<Longrightarrow> task_running t' \<Longrightarrow> i \<in> news \<Longrightarrow>
      chan_buffer (task_queue t') = []"
    and "\<And>i t'. map_of (m_subscriptions m') i = Some t' \<Longrightarrow> task_running t' \<Longrightarrow> i \<notin> news \<Longrightarrow>
      \<exists>t. map_of (m_subscriptions m) i = Some t \<and> task_running t \<and> task_queue t' = task_queue t"
  shows "queues_kept news m m'"
  using assms by (simp add: queues_kept_def)

lemma queues_kept_removed:
  assumes "sh_log (m_shared m') = sh_log (m_shared m)"
    and "m_subscriptions m' = m_subscriptions m \<or> m_subscriptions m' = mdel i (m_subscriptions m)"
  shows "queues_kept {} m m'"
  using assms(2)
  by (elim disjE; intro queues_keptI) (simp_all add: assms(1) split: if_splits)

lemma queues_kept_set_task:
  assumes "map_of (m_subscriptions m) i = Some t"
    and "task_running t' \<Longrightarrow> task_running t \<and> task_queue t' = task_queue t"
    and "m_subscriptions m' = mput i t' (m_subscriptions m)" "sh_log (m_shared m') = sh_log (m_shared m)"
  shows "queues_kept {} m m'"
  using assms map_of_SomeD [OF assms(1)]
  by (intro queues_keptI) (auto simp: rev_image_eqI split: if_splits)

lemma kept_update_cell: "queues_kept {} m (update_cell i f m)"
proof (cases "map_of (m_subscriptions m) i")
  case None
  then show ?thesis by (intro queues_kept_removed) (simp_all add: update_cell_def)
next
  case (Some t)
  then show ?thesis
    by (rule queues_kept_set_task [where t' = "t\<lparr>task_cell := f (task_cell t)\<rparr>"])
      (simp_all add: update_cell_def set_task_def Some)
qed

lemma kept_task_shutdown:
  assumes "task_shutdown i m = Some m'"
  shows "queues_kept {} m m'"
proof -
  obtain t where t: "map_of (m_subscriptions m) i = Some t"
      "m' = (set_task i (end_task t) m)\<lparr>m_unsub_queue := m_unsub_queue m @ [i]\<rparr>"
    using assms by (auto simp: task_shutdown_def split: option.splits if_splits)
  show ?thesis
    by (rule queues_kept_set_task [OF t(1), where t' = "end_task t"])
      (simp_all add: t(2) set_task_def end_task_def)
qed

lemma kept_auto_unsubscribe: "auto_unsubscribe V m = Some m' \<Longrightarrow> queues_kept {} m m'"
  by (rule queues_kept_removed [where i = "hd (m_unsub_queue m)"])
    (auto simp: auto_unsubscribe_def Let_def split: list.splits if_splits)

lemma kept_unsubscribe: "queues_kept {} m (snd (manager_unsubscribe V i m))"
proof (cases "fst (vt_unregister V (sh_registry (m_shared m)) i)")
  case (Inl e)
  let ?m = "m\<lparr>m_shared := (m_shared m)\<lparr>sh_registry := snd (vt_unregister V (sh_registry (m_shared m)) i)\<rparr>\<rparr>"
  have "snd (manager_unsubscribe V i m) = update_cell i handle_drop ?m"
    using Inl by (simp add: manager_unsubscribe_def split_beta)
  moreover have "queues_kept {} ?m m' \<longleftrightarrow> queues_kept {} m m'" for m'
    by (simp add: queues_kept_def)
  ultimately show ?thesis using kept_update_cell [of ?m i handle_drop] by simp
next
  case (Inr u)
  then show ?thesis
    by (intro queues_kept_removed [where i = i]) (auto simp: manager_unsubscribe_def split_beta Let_def)
qed

lemma kept_spawn:
  assumes "spawn_and_register V h tid tname e hc m = Done (res, m')" "h_id (fst hc) = i"
    and "i \<notin> mkeys (m_subscriptions m)"
  shows "queues_kept {i} m m'"
proof -
  let ?q = "\<lparr>chan_capacity = m_handler_channel_size m, chan_buffer = [], chan_open = True\<rparr>"
  let ?m = "(set_task i \<lparr>task_handler = h, task_queue = ?q, task_cell = snd hc, task_running = True\<rparr> m)
    \<lparr>m_shared := (m_shared m)\<lparr>sh_registry := snd (vt_register V (sh_registry (m_shared m)) tid tname e)\<rparr>\<rparr>"
  have "m' = ?m \<or> m' = update_cell i handle_drop ?m"
    using assms(1,2)
    by (auto simp: spawn_and_register_def chan_new_def Let_def split_beta split: if_splits sum.splits)
  then show ?thesis
    by (elim disjE; intro queues_keptI) (auto simp: set_task_def update_cell_def split: if_splits)
qed

lemma kept_subscribe:
  assumes "i \<notin> mkeys (m_subscriptions m)"
  shows "subscribe_typed V T h name topic_opt i m = Done (res, m') \<Longrightarrow> queues_kept {i} m m'"
    "subscribe_untyped V h' tid tname i m = Done (res, m') \<Longrightarrow> queues_kept {i} m m'"
  unfolding subscribe_typed_def subscribe_untyped_def Let_def
  by (erule kept_spawn [OF _ handle_with_name_id assms])+

lemma inv_life:
  assumes "pipeline_inv p" "queues_kept {} (pl_manager p) m"
    and "manager_step dashmap_vtable fresh_id valid_topic oc (pl_manager p) m"
  shows "pipeline_inv (with_manager m p)"
  using inv_manager [OF assms(1,2)] dash_obs.manager_step_wf [OF assms(3)] pipeline_invD(1) [OF assms(1)]
  by simp

lemma inv_subscribed:
  assumes "pipeline_inv p" "i \<notin> pl_used p" "i \<notin> mkeys (m_subscriptions (pl_manager p)) \<Longrightarrow> queues_kept {i} (pl_manager p) m"
    and "manager_step dashmap_vtable fresh_id valid_topic oc (pl_manager p) m"
  shows "pipeline_inv ((with_manager m p)\<lparr>pl_used := insert i (pl_used p)\<rparr>)"
proof -
  have "i \<notin> mkeys (m_subscriptions (pl_manager p))"
    using pipeline_invD(4) [OF assms(1)] assms(2) unfolding unused_inv_def by blast
  then show ?thesis
    using inv_new [OF assms(1) assms(3)] dash_obs.manager_step_wf [OF assms(4)]
      pipeline_invD(1) [OF assms(1)] assms(2) by simp
qed


section \<open>Steps of the worker\<close>

definition waiting_env :: "'v envelope \<Rightarrow> uuid list \<Rightarrow> uuid \<Rightarrow> 'v envelope list" where
  "waiting_env env ids i = (if i \<in> set ids then [env] else [])"

text \<open>A send moves the envelope from the waiting sends to the end of the queue, or leaves both.\<close>

lemma sends_effect:
  assumes "distinct ids" "manager_wf invar entry_of m"
    and "map_of (m_subscriptions (snd (poll_sends env ids m))) i = Some t'" "task_running t'"
  shows "\<exists>t. map_of (m_subscriptions m) i = Some t \<and> task_running t \<and>
    chan_buffer (task_queue t') @ waiting_env env (fst (poll_sends env ids m)) i =
    chan_buffer (task_queue t) @ waiting_env env ids i"
proof -
  obtain t where t: "map_of (m_subscriptions m) i = Some t" "t' = (if i \<in> set ids then sent env t else t)"
    using assms(3) by (auto simp: poll_sends_tasks [OF assms(1)] split: if_splits)
  then have "task_running t" using assms(4) by (simp add: sent_def split: if_splits)
  moreover from this have "chan_open (task_queue t)"
    using manager_wf_task [OF assms(2) t(1)] by (simp add: task_wf_def)
  ultimately show ?thesis
    using t
    by (auto simp: waiting_env_def poll_sends_waiting [OF assms(1)] sent_def chan_send_def
        chan_try_send_def split: if_splits)
qed

lemma inv_worker:
  assumes inv: "pipeline_inv p" and ids: "distinct ids" "\<And>i. i \<in> set ids \<Longrightarrow> i \<in> pl_used p"
    and same: "pl_tasks p' = pl_tasks p" "pl_received p' = pl_received p" "pl_used p' = pl_used p"
      "pl_missed p' = pl_missed p"
    and m': "pl_manager p' = snd (poll_sends env ids (pl_manager p))"
    and flight: "cd_inflight (pl_dispatcher p') =
      (let waiting = fst (poll_sends env ids (pl_manager p))
       in if waiting = [] then None else Some (env, waiting))"
    and taken: "\<And>i. routed p' i = routed p i @ new i"
      "\<And>i. pending_at (pl_dispatcher p) i @ new i = waiting_env env ids i"
    and queue: "queue_inv p'"
  shows "pipeline_inv p'"
proof -
  let ?waiting = "fst (poll_sends env ids (pl_manager p))"
  note wf = pipeline_invD(1) [OF inv]
  have pend: "pending_at (pl_dispatcher p') i = waiting_env env ?waiting i" for i
    using flight by (auto simp: pending_at_def waiting_env_def Let_def split: if_splits)
  have tasks: "task_inv p' i t'"
    if t': "map_of (m_subscriptions (pl_manager p')) i = Some t'" "task_running t'" for i t'
  proof -
    obtain t where t: "map_of (m_subscriptions (pl_manager p)) i = Some t" "task_running t"
      "chan_buffer (task_queue t') @ waiting_env env ?waiting i =
       chan_buffer (task_queue t) @ waiting_env env ids i"
      using sends_effect [OF ids(1) wf] t' unfolding m' by blast
    have "progress p' i t' = progress p i t @ new i"
      using t(3) taken(2) by (simp add: progress_def pend same)
    then show ?thesis
      using pipeline_invD(6) [OF inv t(1,2)] by (simp add: task_inv_def taken(1) same)
  qed
  have flights: "flight_inv p'"
    using flight ids(1)
    by (auto simp: flight_inv_def Let_def poll_sends_waiting [OF ids(1)] split: if_splits)
  have "mkeys (m_subscriptions (pl_manager p')) = mkeys (m_subscriptions (pl_manager p))"
    unfolding m' using poll_sends_keys by (metis list.set_map)
  moreover have "new i = []" "waiting_env env ?waiting i = []" if "i \<notin> pl_used p" for i
  proof -
    have "i \<notin> set ids" using ids(2) that by blast
    then show "new i = []" "waiting_env env ?waiting i = []"
      using taken(2) [of i] by (auto simp: waiting_env_def poll_sends_waiting [OF ids(1)])
  qed
  ultimately have unused: "unused_inv p'"
    using pipeline_invD(4) [OF inv] by (simp add: unused_inv_def same pend taken(1))
  have "verdict_inv p' i" for i
    using pipeline_invD(5) [OF inv] by (simp add: verdict_inv_def finished_def same m')
  moreover have "manager_wf registry_inv live (pl_manager p')"
    unfolding m' by (rule manager_wf_poll_sends [OF wf])
  ultimately show ?thesis using queue tasks flights unused by (simp add: pipeline_inv_def)
qed

lemma worker_take_cases:
  assumes "worker_take V us d = Some d'"
  obtains env envs where "chan_buffer (cd_queue d) = env # envs" "cd_worker d" "cd_inflight d = None"
      "\<not> cd_running d" "d' = cd_end_worker d"
  | env envs where "chan_buffer (cd_queue d) = env # envs" "cd_worker d" "cd_inflight d = None"
      "cd_running d" "cd_worker d'" "chan_buffer (cd_queue d') = envs"
      "cd_manager d' = snd (poll_sends env (dispatch_targets V (cd_manager d) env) (cd_manager d))"
      "cd_inflight d' =
        (let waiting = fst (poll_sends env (dispatch_targets V (cd_manager d) env) (cd_manager d))
         in if waiting = [] then None else Some (env, waiting))"
proof (cases "chan_buffer (cd_queue d)")
  case Nil
  then show ?thesis using assms by (simp add: worker_take_def chan_recv_def split: if_splits)
next
  case (Cons env envs)
  have idle: "cd_worker d" "cd_inflight d = None"
    using assms by (simp_all add: worker_take_def del: not_None_eq split: if_splits)
  show ?thesis
  proof (cases "cd_running d")
    case True
    then show ?thesis
      using assms Cons idle
      by (intro that(2) [OF Cons])
        (auto simp: worker_take_def chan_recv_def cd_count_success_def Let_def split_beta split: if_splits)
  next
    case False
    then show ?thesis
      using assms Cons idle
      by (intro that(1) [OF Cons]) (auto simp: worker_take_def chan_recv_def split: if_splits)
  qed
qed

lemma worker_poll_cases:
  assumes "worker_poll us d = Some d'" "cd_inflight d = Some (env, ids)"
  shows "cd_manager d' = snd (poll_sends env ids (cd_manager d))" "cd_queue d' = cd_queue d"
    "cd_worker d' = cd_worker d"
    "cd_inflight d' =
      (let waiting = fst (poll_sends env ids (cd_manager d))
       in if waiting = [] then None else Some (env, waiting))"
  using assms by (auto simp: worker_poll_def cd_count_success_def Let_def split_beta split: if_splits)

lemma inv_takes:
  assumes inv: "pipeline_inv p" and take1: "worker_take dashmap_vtable us (pl_dispatcher p) = Some d"
  shows "pipeline_inv (p\<lparr>pl_dispatcher := d, pl_taken := pl_taken p @
     (if cd_running (pl_dispatcher p)
      then (let env = hd (chan_buffer (cd_queue (pl_dispatcher p)))
            in [(env, {i. receives (pl_manager p) env i})])
      else [])\<rparr>)" (is "pipeline_inv ?p")
proof (rule worker_take_cases [OF take1])
  fix env envs
  assume d: "chan_buffer (cd_queue (pl_dispatcher p)) = env # envs" "cd_worker (pl_dispatcher p)"
    "cd_inflight (pl_dispatcher p) = None" "\<not> cd_running (pl_dispatcher p)"
    "d = cd_end_worker (pl_dispatcher p)"
  then show ?thesis
    using inv
    by (simp add: pipeline_inv_def queue_inv_def flight_inv_def unused_inv_def verdict_inv_def
        task_inv_def progress_def routed_def finished_def pending_at_def pl_manager_def cd_end_worker_def)
next
  fix env envs
  let ?ids = "dispatch_targets dashmap_vtable (pl_manager p) env"
  assume d: "chan_buffer (cd_queue (pl_dispatcher p)) = env # envs" "cd_worker (pl_dispatcher p)"
    "cd_inflight (pl_dispatcher p) = None" "cd_running (pl_dispatcher p)" "cd_worker d"
    "chan_buffer (cd_queue d) = envs"
    "cd_manager d = snd (poll_sends env (dispatch_targets dashmap_vtable (cd_manager (pl_dispatcher p)) env)
       (cd_manager (pl_dispatcher p)))"
    "cd_inflight d = (let waiting = fst (poll_sends env
         (dispatch_targets dashmap_vtable (cd_manager (pl_dispatcher p)) env) (cd_manager (pl_dispatcher p)))
       in if waiting = [] then None else Some (env, waiting))"
  have reg: "registry_inv (sh_registry (m_shared (pl_manager p)))"
    using pipeline_invD(1) [OF inv] by (simp add: manager_wf_def)
  have targets: "i \<in> set ?ids \<longleftrightarrow> receives (pl_manager p) env i" for i
    by (rule targets_receives [OF reg])
  show ?thesis
  proof (rule inv_worker [OF inv, where ids = ?ids and env = env and new = "waiting_env env ?ids"])
    show "distinct ?ids" by (rule dash.targets_distinct [OF reg])
    show "i \<in> pl_used p" if "i \<in> set ?ids" for i
      using pipeline_invD(4) [OF inv] that mkeys_map_of [of i "m_subscriptions (pl_manager p)"]
      unfolding targets receives_def unused_inv_def by blast
    show "queue_inv ?p"
      using pipeline_invD(2) [OF inv] d by (simp add: queue_inv_def)
  qed (use d in \<open>simp_all add: pl_manager_def routed_def pending_at_def waiting_env_def targets [unfolded pl_manager_def]\<close>)
qed

lemma inv_polls:
  assumes inv: "pipeline_inv p" and poll1: "worker_poll us (pl_dispatcher p) = Some d"
  shows "pipeline_inv (p\<lparr>pl_dispatcher := d\<rparr>)" (is "pipeline_inv ?p")
proof -
  obtain env ids where ids: "cd_inflight (pl_dispatcher p) = Some (env, ids)"
    using poll1 by (auto simp: worker_poll_def split: option.splits)
  note d = worker_poll_cases [OF poll1 ids]
  show ?thesis
  proof (rule inv_worker [OF inv, where ids = ids and env = env and new = "\<lambda>_. []"])
    show "distinct ids" using pipeline_invD(3) [OF inv] ids by (simp add: flight_inv_def)
    show "i \<in> pl_used p" if "i \<in> set ids" for i
      using pipeline_invD(4) [OF inv] that ids by (auto simp: unused_inv_def pending_at_def)
    show "queue_inv ?p"
      using pipeline_invD(2) [OF inv] d by (simp add: queue_inv_def)
  qed (use d ids in \<open>simp_all add: pl_manager_def routed_def pending_at_def waiting_env_def\<close>)
qed

lemma inv_times_out:
  assumes inv: "pipeline_inv p" and ids: "cd_inflight (pl_dispatcher p) = Some (env, ids)"
    and out: "worker_timeout (pl_dispatcher p) = Some d"
  shows "pipeline_inv (p\<lparr>pl_dispatcher := d, pl_missed := pl_missed p \<union> set ids\<rparr>)" (is "pipeline_inv ?p")
proof -
  have d: "cd_inflight d = None" "cd_manager d = cd_manager (pl_dispatcher p)"
      "cd_queue d = cd_queue (pl_dispatcher p)" "cd_worker d = cd_worker (pl_dispatcher p)"
    using out by (auto simp: worker_timeout_def split: if_splits)
  have old: "progress p i t = progress ?p i t @ waiting_env env ids i" for i t
    using d ids by (simp add: progress_def pending_at_def waiting_env_def)
  have "task_inv ?p i t" if "task_inv p i t" for i t
  proof -
    have "subseq (progress ?p i t) (progress p i t)" unfolding old by (intro prefix_imp_subseq) simp
    moreover have "progress p i t = progress ?p i t" if "i \<notin> set ids"
      using that by (simp add: old waiting_env_def)
    moreover have "routed ?p i = routed p i" by (simp add: routed_def)
    ultimately show ?thesis
      using \<open>task_inv p i t\<close> unfolding task_inv_def by (auto intro: subseq_order.trans)
  qed
  then show ?thesis
    using inv d
    by (simp add: pipeline_inv_def queue_inv_def flight_inv_def unused_inv_def verdict_inv_def
        routed_def finished_def pending_at_def pl_manager_def)
qed


section \<open>Steps of the tasks\<close>

lemma run_handler_registry: "run_handler h env s = (x, s1) \<Longrightarrow> sh_registry s1 = sh_registry s"
  using run_handler_sel(3) [of h env s] by simp

context observed_registry
begin

lemma task_work_subscriptions:
  "task_work V h oc mr rb i pc s ls pc' s' \<Longrightarrow> invar (sh_registry s) \<Longrightarrow>
     invar (sh_registry s') \<and> dom (live (sh_registry s')) = dom (live (sh_registry s))"
proof (induction rule: task_work.induct)
  case (accepts env s u s1 a)
  then show ?case
    using run_handler_sel(3) [of h env s]
    by (simp add: on_success_def log_event_def Let_def observer_laws)
next
  case (sends s c env b c')
  then show ?case by (simp add: mark_failed_def log_event_def observer_laws)
qed ((drule run_handler_registry)?, simp add: mark_failed_def log_event_def observer_laws)+

lemma handler_step_subscriptions:
  "handler_step V h oc mr rb i pc s ls pc' s' \<Longrightarrow> invar (sh_registry s) \<Longrightarrow>
     invar (sh_registry s') \<and> dom (live (sh_registry s')) = dom (live (sh_registry s))"
  by (erule handler_step.cases) (simp_all add: task_work_subscriptions log_event_def)

end

lemma manager_wf_acts:
  assumes "manager_wf registry_inv live m" "map_of (m_subscriptions m) i = Some t"
    and "handler_step dashmap_vtable h oc mr rb i pc (m_shared m) ls pc' s"
  shows "manager_wf registry_inv live (set_task i (if b then end_task t else t) (m\<lparr>m_shared := s\<rparr>))"
proof -
  have "manager_wf registry_inv live (m\<lparr>m_shared := s\<rparr>)"
    using dash_obs.handler_step_subscriptions [OF assms(3)] assms(1)
    by (intro manager_wf_shared) (simp_all add: manager_wf_def)
  then show ?thesis
    using assms(2) manager_wf_task [OF assms(1,2)]
    by (intro manager_wf_set_task) (simp_all add: task_wf_end)
qed

lemma used_key: "pipeline_inv p \<Longrightarrow> map_of (m_subscriptions (pl_manager p)) i = Some t \<Longrightarrow> i \<in> pl_used p"
  using mkeys_map_of [of i "m_subscriptions (pl_manager p)"]
  by (auto simp: pipeline_inv_def unused_inv_def dest!: subsetD)

lemma set_task_mkeys: "mkeys (m_subscriptions (set_task i t m)) = insert i (mkeys (m_subscriptions m))"
  by (simp add: set_task_def)

lemma unused_inv_task:
  assumes "unused_inv p" "i \<in> pl_used p" "pl_used p' = pl_used p"
    and "mkeys (m_subscriptions (pl_manager p')) = insert i (mkeys (m_subscriptions (pl_manager p)))"
    and "\<And>j. j \<noteq> i \<Longrightarrow> routed p' j = routed p j \<and> pl_received p' j = pl_received p j \<and>
      pending_at (pl_dispatcher p') j = pending_at (pl_dispatcher p) j"
  shows "unused_inv p'"
proof -
  have "j \<noteq> i" if "j \<notin> pl_used p" for j using that assms(2) by blast
  then show ?thesis using assms(1,2,5) unfolding unused_inv_def assms(3,4) by simp
qed

lemma inv_task_takes:
  assumes inv: "pipeline_inv p" and t: "map_of (m_subscriptions (pl_manager p)) i = Some t" "task_running t"
    and pc: "pl_tasks p i = Waiting" and recv: "chan_recv (task_queue t) = (Some env, q)"
  shows "pipeline_inv ((with_manager (set_task i (t\<lparr>task_queue := q\<rparr>) (pl_manager p)) p)
     \<lparr>pl_tasks := (pl_tasks p)(i := Calling env 0),
      pl_received := (pl_received p)(i := pl_received p i @ [env])\<rparr>)" (is "pipeline_inv ?p")
proof -
  define p' where "p' = ?p"
  have m: "pl_manager p' = set_task i (t\<lparr>task_queue := q\<rparr>) (pl_manager p)"
    by (simp add: p'_def pl_manager_def with_manager_def)
  have q: "chan_buffer (task_queue t) = env # chan_buffer q"
    using recv by (auto simp: chan_recv_def split: list.splits)
  have sel: "routed p' j = routed p j" "pending_at (pl_dispatcher p') j = pending_at (pl_dispatcher p) j"
      "pl_used p' = pl_used p" "pl_missed p' = pl_missed p"
      "pl_received p' j = (if j = i then pl_received p i @ [env] else pl_received p j)"
      "pl_tasks p' j = (if j = i then Calling env 0 else pl_tasks p j)" for j
    by (simp_all add: p'_def routed_def pending_at_def with_manager_def)
  have "task_inv p' j t'"
    if "map_of (m_subscriptions (pl_manager p')) j = Some t'" "task_running t'" for j t'
    using that pipeline_invD(6) [OF inv t] pipeline_invD(6) [OF inv, of j t'] q
    by (cases "j = i") (auto simp: m task_inv_def progress_def sel)
  moreover have "manager_wf registry_inv live (pl_manager p')"
    using t pipeline_invD(1) [OF inv] manager_wf_task [OF pipeline_invD(1) [OF inv] t(1)] recv
    unfolding m by (intro manager_wf_set_task task_wf_recv) simp_all
  moreover have "verdict_inv p' j" for j
    using pipeline_invD(5) [OF inv, of j] pc by (auto simp: verdict_inv_def finished_def sel m)
  moreover have "unused_inv p'"
    by (rule unused_inv_task [OF pipeline_invD(4) [OF inv] used_key [OF inv t(1)]])
      (simp_all add: m set_task_mkeys sel)
  moreover have "queue_inv p'" "flight_inv p'"
    using pipeline_invD(2,3) [OF inv] by (simp_all add: p'_def queue_inv_def flight_inv_def)
  ultimately show ?thesis unfolding p'_def [symmetric] by (simp add: pipeline_inv_def)
qed

lemma inv_task_acts:
  assumes inv: "pipeline_inv p" and t: "map_of (m_subscriptions (pl_manager p)) i = Some t" "task_running t"
    and work: "handler_step dashmap_vtable (task_handler t) oc (m_max_retries (pl_manager p))
      (m_retry_backoff (pl_manager p)) i (pl_tasks p i) (m_shared (pl_manager p)) ls pc s"
  shows "pipeline_inv ((with_manager (set_task i (if pc = Crashed then end_task t else t)
     ((pl_manager p)\<lparr>m_shared := s\<rparr>)) p)\<lparr>pl_tasks := (pl_tasks p)(i := pc)\<rparr>)" (is "pipeline_inv ?p")
proof -
  define p' where "p' = ?p"
  have m: "pl_manager p' = set_task i (if pc = Crashed then end_task t else t) ((pl_manager p)\<lparr>m_shared := s\<rparr>)"
    by (simp add: p'_def pl_manager_def with_manager_def)
  have sel: "routed p' j = routed p j" "pending_at (pl_dispatcher p') j = pending_at (pl_dispatcher p) j"
      "pl_used p' = pl_used p" "pl_missed p' = pl_missed p" "pl_received p' = pl_received p"
      "pl_tasks p' j = (if j = i then pc else pl_tasks p j)" for j
    by (simp_all add: p'_def routed_def pending_at_def with_manager_def)
  have "task_inv p' j t'"
    if "map_of (m_subscriptions (pl_manager p')) j = Some t'" "task_running t'" for j t'
    using that pipeline_invD(6) [OF inv t] pipeline_invD(6) [OF inv, of j t']
    by (cases "j = i") (auto simp: m task_inv_def progress_def sel end_task_def split: if_splits)
  moreover have "manager_wf registry_inv live (pl_manager p')"
    unfolding m by (rule manager_wf_acts [OF pipeline_invD(1) [OF inv] t(1) work])
  moreover have "verdict_inv p' j" for j
  proof -
    note v = handler_step_verdicts [OF work, of j] and log = handler_step_log [OF work]
    show ?thesis
    proof (cases "j = i \<and> pc = Waiting")
      case True
      then have w: "pl_received p i \<noteq> []" "last (pl_received p i) = the (pc_envelope (pl_tasks p i))"
        "pl_tasks p i \<noteq> Waiting"
        using v pipeline_invD(5) [OF inv, of i] by (auto simp: verdict_inv_def)
      have "map env_event_id (pl_received p i) =
          map env_event_id (butlast (pl_received p i)) @ [env_event_id (last (pl_received p i))]"
        using w(1) by (subst append_butlast_last_id [symmetric]) (simp_all del: append_butlast_last_id)
      then show ?thesis
        using True v w pipeline_invD(5) [OF inv, of i]
        unfolding verdict_inv_def finished_def sel m set_task_sel by (simp add: log)
    next
      case False
      then have "verdicts_of j ls = []" "finished p' j = finished p j"
          "pc_envelope (pl_tasks p' j) = None \<or> pc_envelope (pl_tasks p' j) = pc_envelope (pl_tasks p j)"
        using v by (auto simp: finished_def sel)
      then show ?thesis
        using pipeline_invD(5) [OF inv, of j] by (auto simp: verdict_inv_def sel m log)
    qed
  qed
  moreover have "unused_inv p'"
    by (rule unused_inv_task [OF pipeline_invD(4) [OF inv] used_key [OF inv t(1)]])
      (simp_all add: m set_task_mkeys sel)
  moreover have "queue_inv p'" "flight_inv p'"
    using pipeline_invD(2,3) [OF inv] by (simp_all add: p'_def queue_inv_def flight_inv_def)
  ultimately show ?thesis unfolding p'_def [symmetric] by (simp add: pipeline_inv_def)
qed

section \<open>Every reachable pipeline\<close>

lemma inv_work: "pipeline_work oc p p' \<Longrightarrow> pipeline_inv p \<Longrightarrow> pipeline_inv p'"
proof (induction rule: pipeline_work.induct)
  case (signalled p i m)
  then show ?case
    by (intro inv_life kept_task_shutdown) (auto intro: manager_step.signalled)
next
  case (removed p m)
  then show ?case
    by (intro inv_life kept_auto_unsubscribe) (auto intro: manager_step.removed)
qed (blast intro: inv_takes inv_polls inv_times_out inv_task_takes inv_task_acts)+

lemma inv_step: "pipeline_step oc p p' \<Longrightarrow> pipeline_inv p \<Longrightarrow> pipeline_inv p'"
proof (induction rule: pipeline_step.induct)
  case (subscribes i p topic_opt T h name res m)
  then show ?case
    by (intro inv_subscribed kept_subscribe(1)) (auto intro: manager_step.subscribes)
next
  case (subscribes_untyped i p h tid tname res m)
  then show ?case
    by (intro inv_subscribed kept_subscribe(2)) (auto intro: manager_step.subscribes_untyped)
next
  case (handled p i f)
  then show ?case by (intro inv_life kept_update_cell) (auto intro: manager_step.handled)
next
  case (unsubscribes p i)
  then show ?case by (intro inv_life kept_unsubscribe) (auto intro: manager_step.unsubscribes)
qed (blast intro: inv_work inv_front front_steps inv_stop)+

lemma inv_reach: "pipeline_reach oc p0 p \<Longrightarrow> pipeline_inv p0 \<Longrightarrow> pipeline_inv p"
  by (induction rule: pipeline_reach.induct) (auto intro: inv_step)

lemma inv_new_pipeline:
  assumes "manager_wf registry_inv live (cd_manager d)" "cd_inflight d = None"
    and "sh_log (m_shared (cd_manager d)) = []"
    and "\<And>i t. map_of (m_subscriptions (cd_manager d)) i = Some t \<Longrightarrow> chan_buffer (task_queue t) = []"
  shows "pipeline_inv (pipeline_new d)"
  using assms
  by (auto simp: pipeline_inv_def pipeline_new_def pl_manager_def queue_inv_def flight_inv_def unused_inv_def
      verdict_inv_def task_inv_def progress_def routed_def pending_at_def finished_def)


text \<open>A dispatcher that has just been started on a manager whose tasks have done nothing yet.\<close>

definition pipeline_start :: "('v dashmap_registry, 'v, 'w) channel_dispatcher \<Rightarrow> bool" where
  "pipeline_start d \<longleftrightarrow> cd_inflight d = None \<and> manager_wf registry_inv live (cd_manager d) \<and>
     sh_log (m_shared (cd_manager d)) = [] \<and>
     list_all (\<lambda>x. chan_buffer (task_queue (snd x)) = []) (m_subscriptions (cd_manager d))"

lemma inv_started:
  assumes "pipeline_start d" "pipeline_reach oc (pipeline_new d) p"
  shows "pipeline_inv p"
proof -
  have "chan_buffer (task_queue t) = []" if "map_of (m_subscriptions (cd_manager d)) i = Some t" for i t
    using assms(1) map_of_SomeD [OF that] by (auto simp: pipeline_start_def list_all_iff)
  then show ?thesis
    using assms by (intro inv_reach [OF assms(2)] inv_new_pipeline) (simp_all add: pipeline_start_def)
qed

section \<open>An event on its way\<close>

lemma echo_start: "pipeline_start small_dispatcher"
proof -
  have "dom (live (reg_run [OpRegister 5 ''Echo'' (entry_new 1)] :: nat dashmap_registry)) = {1}"
    using echo_registry by (auto simp: dom_def)
  then show ?thesis
    using echo_registry
    by (simp add: pipeline_start_def manager_wf_def echo_shared_def task_wf_def)
qed

lemma echo_pipeline_dispatched:
  "\<exists>p t. pipeline_reach True (pipeline_new small_dispatcher) p \<and>
     cd_worker (pl_dispatcher p) \<and> cd_inflight (pl_dispatcher p) = None \<and>
     chan_buffer (cd_queue (pl_dispatcher p)) = [] \<and>
     map_of (m_subscriptions (pl_manager p)) 1 = Some t \<and> task_running t \<and> task_handler t = flaky 0 \<and>
     chan_recv (task_queue t) = (Some (echo_env 4), (task_queue t)\<lparr>chan_buffer := []\<rparr>) \<and>
     pl_tasks p 1 = Waiting \<and> pl_missed p = {} \<and>
     pl_accepted p = [echo_env 4] \<and> routed p 1 = [echo_env 4]"
proof -
  let ?e = "echo_env 4" and ?q = "cd_queue small_dispatcher"
  let ?d1 = "(record_queue_size small_dispatcher)\<lparr>cd_queue := ?q\<lparr>chan_buffer := [?e]\<rparr>\<rparr>"
  let ?m = "snd (manager_dispatch dashmap_vtable ?e echo_manager)"
  let ?d2 = "cd_count_success 0 (?d1\<lparr>cd_queue := ?q, cd_manager := ?m\<rparr>)"
  define p1 where "p1 = with_entered ?d1 (pipeline_new small_dispatcher)"
  define p2 where "p2 = p1\<lparr>pl_dispatcher := ?d2, pl_taken := [(?e, {i. receives echo_manager ?e i})]\<rparr>"
  have "cd_dispatch 0 small_dispatcher ?e = (Ready (Inr ()), ?d1)"
    using cd_dispatch_room(1) [of small_dispatcher ?e 0] by (simp add: echo_due)
  then have r1: "pipeline_reach True (pipeline_new small_dispatcher) p1"
    unfolding p1_def by (intro pipeline_reach.step [OF pipeline_reach.start] publishes)
      (simp add: pipeline_new_def)
  have reg: "registry_inv (sh_registry (m_shared echo_manager))" "room_for (Suc 0) echo_manager"
    using echo_registry by (simp_all add: room_for_def)
  have d1: "pl_dispatcher p1 = ?d1" "pl_manager p1 = echo_manager" "pl_taken p1 = []"
    by (simp_all add: p1_def with_entered_def pl_manager_def pipeline_new_def)
  have "worker_take dashmap_vtable 0 ?d1 = Some ?d2"
    using worker_take_room [of ?d1 0 ?e "[]" 0] reg by simp
  then have r2: "pipeline_reach True (pipeline_new small_dispatcher) p2"
    using pipeline_reach.step [OF r1 internal [OF takes], of 0] by (simp add: p2_def d1 Let_def)
  have m2: "pl_manager p2 = ?m" by (simp add: p2_def pl_manager_def cd_count_success_def)
  note step = dispatch_step [OF reg refl, of ?e]
  obtain t where t: "map_of (m_subscriptions ?m) 1 = Some t" "task_running t" "task_handler t = flaky 0"
      "chan_recv (task_queue t) = (Some ?e, (task_queue t)\<lparr>chan_buffer := []\<rparr>)"
    using step(1) [of 1] by (auto simp: echo_receives delivered_def chan_recv_def)
  moreover have "pl_tasks p2 1 = Waiting" "pl_accepted p2 = [?e]" "routed p2 1 = [?e]" "pl_missed p2 = {}"
    by (simp_all add: p2_def p1_def with_entered_def pipeline_new_def entered_def routed_def echo_receives)
  moreover have "cd_worker (pl_dispatcher p2)" "cd_inflight (pl_dispatcher p2) = None"
    "chan_buffer (cd_queue (pl_dispatcher p2)) = []"
    by (simp_all add: p2_def cd_count_success_def)
  ultimately show ?thesis using r2 m2 by (intro exI [of _ p2] exI [of _ t]) simp
qed

lemma echo_pipeline_run:
  "\<exists>p t. pipeline_reach True (pipeline_new small_dispatcher) p \<and>
     cd_worker (pl_dispatcher p) \<and> cd_inflight (pl_dispatcher p) = None \<and>
     chan_buffer (cd_queue (pl_dispatcher p)) = [] \<and>
     map_of (m_subscriptions (pl_manager p)) 1 = Some t \<and> task_running t \<and>
     chan_buffer (task_queue t) = [] \<and> pl_tasks p 1 = Waiting \<and> pl_missed p = {} \<and>
     pl_accepted p = [echo_env 4] \<and> routed p 1 = [echo_env 4]"
proof -
  let ?e = "echo_env 4"
  obtain p2 t where r2: "pipeline_reach True (pipeline_new small_dispatcher) p2"
    and w2: "cd_worker (pl_dispatcher p2)" "cd_inflight (pl_dispatcher p2) = None"
      "chan_buffer (cd_queue (pl_dispatcher p2)) = []" "pl_tasks p2 1 = Waiting" "pl_missed p2 = {}"
      "pl_accepted p2 = [?e]" "routed p2 1 = [?e]"
    and t: "map_of (m_subscriptions (pl_manager p2)) 1 = Some t" "task_running t" "task_handler t = flaky 0"
      "chan_recv (task_queue t) = (Some ?e, (task_queue t)\<lparr>chan_buffer := []\<rparr>)"
    using echo_pipeline_dispatched by blast
  let ?t = "t\<lparr>task_queue := (task_queue t)\<lparr>chan_buffer := []\<rparr>\<rparr>"
  define p3 where "p3 = (with_manager (set_task 1 ?t (pl_manager p2)) p2)
    \<lparr>pl_tasks := (pl_tasks p2)(1 := Calling ?e 0), pl_received := (pl_received p2)(1 := pl_received p2 1 @ [?e])\<rparr>"
  have r3: "pipeline_reach True (pipeline_new small_dispatcher) p3"
    unfolding p3_def using t w2 by (intro pipeline_reach.step [OF r2]) (metis task_takes internal)
  have p3: "pl_manager p3 = set_task 1 ?t (pl_manager p2)" "pl_tasks p3 1 = Calling ?e 0"
    by (simp_all add: p3_def pl_manager_def with_manager_def)
  let ?s = "m_shared (pl_manager p3)"
  have "run_handler (flaky 0) ?e ?s = (Inr (), snd (run_handler (flaky 0) ?e ?s))"
    by (simp add: prod_eq_iff)
  note run = accepts [OF this, of dashmap_vtable True "m_max_retries (pl_manager p3)"
      "m_retry_backoff (pl_manager p3)" 1 0]
  let ?s' = "on_success dashmap_vtable 1 ?e (snd (run_handler (flaky 0) ?e ?s))"
  define p4 where "p4 = (with_manager (set_task 1 (if Waiting = (Crashed :: nat task_pc) then end_task ?t else ?t)
      ((pl_manager p3)\<lparr>m_shared := ?s'\<rparr>)) p3)\<lparr>pl_tasks := (pl_tasks p3)(1 := Waiting)\<rparr>"
  have "pipeline_step True p3 p4"
    unfolding p4_def by (rule internal [OF task_acts [OF _ _ returns]]) (use run t p3 in simp_all)
  from pipeline_reach.step [OF r3 this] have "pipeline_reach True (pipeline_new small_dispatcher) p4" .
  moreover have "map_of (m_subscriptions (pl_manager p4)) 1 = Some ?t"
    by (simp add: p4_def pl_manager_def with_manager_def)
  moreover have "pl_tasks p4 1 = Waiting" "pl_missed p4 = {}" "pl_accepted p4 = [?e]" "routed p4 1 = [?e]"
    using w2 by (simp_all add: p4_def p3_def with_manager_def routed_def)
  moreover have "cd_worker (pl_dispatcher p4)" "cd_inflight (pl_dispatcher p4) = None"
    "chan_buffer (cd_queue (pl_dispatcher p4)) = []"
    by (simp_all add: p4_def p3_def with_manager_def w2)
  ultimately show ?thesis using t(2) by (intro exI [of _ p4] exI [of _ ?t]) simp
qed


section \<open>Properties\<close>

text \<open>
  C5: what a running bus has done with its events, at every moment and in every order of its
  publishers, worker, timeouts, tasks and subscription changes. The worker has taken the accepted
  events in order, and the rest still is in its queue; of the ones taken for a subscription, the
  task has taken a first part in order, its queue holds the next part and at most one waits for room
  (events whose dispatch timed out while the queue was full are missing, and nothing else); and the
  verdicts passed by the task are exactly, in order, those on the events it took and has left.
\<close>

theorem pipeline_keeps_order:
  assumes "pipeline_start d" "pipeline_reach oc (pipeline_new d) p"
  shows "prefix (map fst (pl_taken p)) (pl_accepted p) \<and>
    (cd_worker (pl_dispatcher p) \<longrightarrow>
      pl_accepted p = map fst (pl_taken p) @ chan_buffer (cd_queue (pl_dispatcher p))) \<and>
    (\<forall>t. map_of (m_subscriptions (pl_manager p)) i = Some t \<longrightarrow> task_running t \<longrightarrow>
      subseq (pl_received p i @ chan_buffer (task_queue t) @ pending_at (pl_dispatcher p) i) (routed p i) \<and>
      (i \<notin> pl_missed p \<longrightarrow>
        pl_received p i @ chan_buffer (task_queue t) @ pending_at (pl_dispatcher p) i = routed p i)) \<and>
    verdicts_of i (sh_log (m_shared (pl_manager p))) = map env_event_id (finished p i)"
  using pipeline_invD(1-4) [OF inv_started [OF assms]] pipeline_invD(5,6) [OF inv_started [OF assms], of i]
  by (simp add: queue_inv_def task_inv_def progress_def verdict_inv_def)

theorem pipeline_keeps_order_witness:
  "\<exists>(p :: (nat, nat) pipeline) t. map_of (m_subscriptions (pl_manager p)) 1 = Some t \<and>
     chan_buffer (task_queue t) = [] \<and> pl_accepted p = map fst (pl_taken p) \<and> pl_received p 1 = [echo_env 4] \<and>
     subseq (pl_received p 1) (routed p 1) \<and> prefix (map fst (pl_taken p)) (pl_accepted p) \<and>
     verdicts_of 1 (sh_log (m_shared (pl_manager p))) = [77]"
proof -
  obtain p t where p: "pipeline_reach True (pipeline_new small_dispatcher) p"
      "cd_worker (pl_dispatcher p)" "cd_inflight (pl_dispatcher p) = None"
      "chan_buffer (cd_queue (pl_dispatcher p)) = []"
      "map_of (m_subscriptions (pl_manager p)) 1 = Some t" "task_running t"
      "chan_buffer (task_queue t) = []" "pl_tasks p 1 = Waiting" "pl_missed p = {}"
      "routed p 1 = [echo_env 4]"
    using echo_pipeline_run by blast
  note keeps = pipeline_keeps_order [OF echo_start p(1)]
  have "pl_received p 1 = [echo_env 4]" "subseq (pl_received p 1) (routed p 1)"
    using keeps [of 1] p(3,5-7,9,10) by (simp_all add: pending_at_def)
  moreover have "finished p 1 = pl_received p 1" using p(8) by (simp add: finished_def)
  ultimately show ?thesis
    using keeps [of 1] p by (intro exI [of _ p] exI [of _ t]) simp
qed

text \<open>
  C1: exactly once: when a bus has come to rest (no event in its queue, no dispatch in flight, the
  task of a running subscription waiting on an empty queue) and no dispatch timed out on that
  subscription, its task has passed one verdict on each accepted event that was for it when the
  worker took it, in the order of publication, and none on any other.
\<close>

theorem pipeline_exactly_once:
  assumes "pipeline_start d" "pipeline_reach oc (pipeline_new d) p"
    and "cd_worker (pl_dispatcher p)" "chan_buffer (cd_queue (pl_dispatcher p)) = []"
      "cd_inflight (pl_dispatcher p) = None"
    and "map_of (m_subscriptions (pl_manager p)) i = Some t" "task_running t"
      "chan_buffer (task_queue t) = []" "pl_tasks p i = Waiting" "i \<notin> pl_missed p"
  shows "pl_accepted p = map fst (pl_taken p) \<and>
    verdicts_of i (sh_log (m_shared (pl_manager p))) =
      map (env_event_id \<circ> fst) (filter (\<lambda>x. i \<in> snd x) (pl_taken p))"
proof -
  note inv = pipeline_invD [OF inv_started [OF assms(1,2)]]
  have "pl_received p i = routed p i"
    using inv(6) [OF assms(6,7)] assms(5,8,10) by (simp add: task_inv_def progress_def pending_at_def)
  then show ?thesis
    using inv(2) inv(5) [of i] assms(3,4,9)
    by (simp add: queue_inv_def verdict_inv_def finished_def routed_def)
qed

theorem pipeline_exactly_once_witness:
  "\<exists>p :: (nat, nat) pipeline. pl_accepted p = [echo_env 4] \<and> verdicts_of 1 (sh_log (m_shared (pl_manager p))) = [77]"
proof -
  obtain p t where p: "pipeline_reach True (pipeline_new small_dispatcher) p"
      "cd_worker (pl_dispatcher p)" "cd_inflight (pl_dispatcher p) = None"
      "chan_buffer (cd_queue (pl_dispatcher p)) = []"
      "map_of (m_subscriptions (pl_manager p)) 1 = Some t" "task_running t"
      "chan_buffer (task_queue t) = []" "pl_tasks p 1 = Waiting" "pl_missed p = {}"
      "pl_accepted p = [echo_env 4]" "routed p 1 = [echo_env 4]"
    using echo_pipeline_run by blast
  have "map (env_event_id \<circ> fst) (filter (\<lambda>x. 1 \<in> snd x) (pl_taken p)) = map env_event_id (routed p 1)"
    by (simp add: routed_def)
  then show ?thesis
    using pipeline_exactly_once [OF echo_start p(1,2,4,3,5-8)] p(9-11) by (intro exI [of _ p]) simp
qed

end
