(* ===== verification/Pipeline_Progress.thy ===== *)
theory Pipeline_Progress
  imports Pipeline
begin

text \<open>
  That the in-memory path of an event comes to an end: left to itself, a bus (the worker of
  src/src/dispatcher/channel.rs and the handler tasks of src/src/subscription/mod.rs) takes a bounded
  number of steps, whatever order the runtime chooses, and where it cannot go on every accepted event
  has been dealt with, unless the dead letter queue is full.
\<close>

section \<open>What does not change\<close>

definition same_setup :: "('r, 'v, 'w) manager \<Rightarrow> ('r, 'v, 'w) manager \<Rightarrow> bool" where
  "same_setup m m' \<longleftrightarrow> m_max_retries m' = m_max_retries m \<and>
     m_handler_channel_size m' = m_handler_channel_size m \<and>
     (sh_dlq (m_shared m') = None \<longleftrightarrow> sh_dlq (m_shared m) = None)"

text \<open>The attempts of a task stay within the limit, it waits for the dead letter queue only if there
  is one, and only tasks that have ended have crashed.\<close>

definition pc_ok :: "('v dashmap_registry, 'v, 'w) manager \<Rightarrow> 'v task_pc \<Rightarrow> bool" where
  "pc_ok m pc \<longleftrightarrow>
     (case pc of
        Calling env a \<Rightarrow> a \<le> m_max_retries m
      | Sleeping env a \<Rightarrow> a \<le> m_max_retries m
      | Sending env \<Rightarrow> sh_dlq (m_shared m) \<noteq> None
      | _ \<Rightarrow> True)"

definition steady :: "('v, 'w) pipeline \<Rightarrow> bool" where
  "steady p \<longleftrightarrow> 0 < m_handler_channel_size (pl_manager p) \<and> m_max_retries (pl_manager p) \<noteq> - 1 \<and>
     (\<forall>i. pc_ok (pl_manager p) (pl_tasks p i)) \<and>
     (\<forall>i t. map_of (m_subscriptions (pl_manager p)) i = Some t \<longrightarrow> task_running t \<longrightarrow> pl_tasks p i \<noteq> Crashed) \<and>
     (\<forall>i. i \<notin> pl_used p \<longrightarrow> pl_tasks p i = Waiting)"

lemma steadyD:
  assumes "steady p"
  shows "0 < m_handler_channel_size (pl_manager p)" "m_max_retries (pl_manager p) \<noteq> - 1"
    "pc_ok (pl_manager p) (pl_tasks p i)"
    "map_of (m_subscriptions (pl_manager p)) i = Some t \<Longrightarrow> task_running t \<Longrightarrow> pl_tasks p i \<noteq> Crashed"
    "i \<notin> pl_used p \<Longrightarrow> pl_tasks p i = Waiting"
  using assms by (simp_all add: steady_def)

lemma pc_ok_setup: "same_setup m m' \<Longrightarrow> pc_ok m' pc = pc_ok m pc"
  by (auto simp: pc_ok_def same_setup_def split: task_pc.split)

lemma same_setup_refl [simp]: "same_setup m m"
  by (simp add: same_setup_def)

lemma same_setup_trans: "same_setup m m1 \<Longrightarrow> same_setup m1 m2 \<Longrightarrow> same_setup m m2"
  by (simp add: same_setup_def)

lemma setup_set_task [simp]: "same_setup m (set_task i t m)"
  by (simp add: same_setup_def)

lemma setup_update_cell [simp]: "same_setup m (update_cell i f m)"
  by (simp add: update_cell_def split: option.split)

lemma setup_poll_sends [simp]: "same_setup m (snd (poll_sends env ids m))"
proof (induction ids arbitrary: m)
  case Nil
  then show ?case by simp
next
  case (Cons i ids)
  show ?case
  proof (cases "map_of (m_subscriptions m) i")
    case None
    then show ?thesis using Cons by simp
  next
    case (Some t)
    then show ?thesis
      using same_setup_trans [OF setup_set_task Cons.IH] by (simp add: split_beta)
  qed
qed

lemma setup_registry [simp]: "same_setup m (m\<lparr>m_shared := (m_shared m)\<lparr>sh_registry := r\<rparr>\<rparr>)"
  by (simp add: same_setup_def)

lemma setup_unsubscribe [simp]: "same_setup m (snd (manager_unsubscribe V i m))"
  by (auto simp: manager_unsubscribe_def Let_def same_setup_def update_cell_def
      split: prod.split sum.split option.split)

lemma setup_spawn:
  "spawn_and_register V h tid tname e hc m = Done (res, m') \<Longrightarrow> same_setup m m'"
  by (cases "fst (vt_register V (sh_registry (m_shared m)) tid tname e)")
    (auto simp: spawn_and_register_def Let_def split_beta same_setup_def set_task_def update_cell_def
      split: option.split)

lemma setup_subscribe:
  "subscribe_typed V T h name topic_opt i m = Done (res, m') \<Longrightarrow> same_setup m m'"
  "subscribe_untyped V h' tid tname i m = Done (res, m') \<Longrightarrow> same_setup m m'"
  unfolding subscribe_typed_def subscribe_untyped_def Let_def by (erule setup_spawn)+

lemma setup_task_shutdown: "task_shutdown i m = Some m' \<Longrightarrow> same_setup m m'"
  by (auto simp: task_shutdown_def same_setup_def set_task_def split: option.splits if_splits)

lemma setup_auto_unsubscribe: "auto_unsubscribe V m = Some m' \<Longrightarrow> same_setup m m'"
  by (auto simp: auto_unsubscribe_def same_setup_def Let_def split: list.splits if_splits)

text \<open>The running tasks afterwards ran before, or are new.\<close>

definition tasks_persist :: "uuid set \<Rightarrow> ('r, 'v, 'w) manager \<Rightarrow> ('r, 'v, 'w) manager \<Rightarrow> bool" where
  "tasks_persist news m m' \<longleftrightarrow>
     (\<forall>i t'. map_of (m_subscriptions m') i = Some t' \<longrightarrow> task_running t' \<longrightarrow> i \<notin> news \<longrightarrow>
        (\<exists>t. map_of (m_subscriptions m) i = Some t \<and> task_running t))"

lemma kept_persist: "queues_kept news m m' \<Longrightarrow> tasks_persist news m m'"
  unfolding tasks_persist_def by (metis queues_keptE)

lemma poll_sends_persist: "distinct ids \<Longrightarrow> tasks_persist {} m (snd (poll_sends env ids m))"
  by (auto simp: tasks_persist_def poll_sends_tasks sent_def split: if_splits)

text \<open>Steps that leave the tasks where they are.\<close>

lemma steady_kept:
  assumes "steady p" "tasks_persist news (pl_manager p) (pl_manager p')" "same_setup (pl_manager p) (pl_manager p')"
    and "pl_tasks p' = pl_tasks p" "pl_used p' = news \<union> pl_used p" "news \<inter> pl_used p = {}"
  shows "steady p'"
proof -
  have "pl_tasks p i \<noteq> Crashed"
    if t: "map_of (m_subscriptions (pl_manager p')) i = Some t'" "task_running t'" for i t'
  proof (cases "i \<in> news")
    case True
    then have "i \<notin> pl_used p" using assms(6) by blast
    then show ?thesis using steadyD(5) [OF assms(1)] by simp
  next
    case False
    then show ?thesis
      using assms(2) t steadyD(4) [OF assms(1)] unfolding tasks_persist_def by blast
  qed
  then show ?thesis
    using assms by (simp add: steady_def pc_ok_setup) (simp add: same_setup_def)
qed

lemma steady_same:
  "steady p \<Longrightarrow> pl_manager p' = pl_manager p \<Longrightarrow> pl_tasks p' = pl_tasks p \<Longrightarrow> pl_used p' = pl_used p \<Longrightarrow>
     steady p'"
  by (simp add: steady_def)

lemma steady_life:
  assumes "steady p" "queues_kept {} (pl_manager p) m" "same_setup (pl_manager p) m"
  shows "steady (with_manager m p)"
  by (rule steady_kept [OF assms(1), where news = "{}"]) (use assms kept_persist in simp_all)

lemma steady_new:
  assumes "steady p" "queues_kept {i} (pl_manager p) m" "same_setup (pl_manager p) m" "i \<notin> pl_used p"
  shows "steady ((with_manager m p)\<lparr>pl_used := insert i (pl_used p)\<rparr>)" (is "steady ?p")
proof (rule steady_kept [OF assms(1)])
  show "tasks_persist {i} (pl_manager p) (pl_manager ?p)" "same_setup (pl_manager p) (pl_manager ?p)"
    using kept_persist [OF assms(2)] assms(3) by (simp_all add: pl_manager_def with_manager_def)
qed (use assms(4) in simp_all)

text \<open>Steps of the tasks.\<close>

lemma run_handler_dlq: "run_handler h env s = (x, s1) \<Longrightarrow> sh_dlq s1 = sh_dlq s"
  by (auto simp: run_handler_def log_event_def split: prod.splits)

lemma count_up:
  assumes "u32_inc oc a = Done a'" "a \<le> mr" "mr \<noteq> - 1" "\<not> mr < a'"
  shows "a' \<le> mr" "unat a' = Suc (unat a)"
proof -
  have "unat a < 2 ^ 32 - 1"
    using failures_below [OF assms(3)] assms(2) by (simp add: word_le_nat_alt)
  then show "unat a' = Suc (unat a)"
    using assms(1) unat_Suc_u32 [of a] by (auto simp: u32_inc_below_max)
  show "a' \<le> mr" using assms(4) by simp
qed

lemma handler_step_ok:
  assumes "handler_step V h oc (m_max_retries m) rb i pc (m_shared m) ls pc' s" "pc_ok m pc"
    and "m_max_retries m \<noteq> - 1"
  shows "same_setup m (m\<lparr>m_shared := s\<rparr>) \<and> pc_ok m pc'"
  using assms
  by (elim handler_step.cases task_work.cases)
    (auto simp: same_setup_def pc_ok_def mark_failed_def on_success_def log_event_def Let_def not_less
      dest: run_handler_dlq)

lemma steady_task:
  assumes "steady p" "map_of (m_subscriptions (pl_manager p)) i = Some t" "task_running t" "i \<in> pl_used p"
    and "pl_manager p' = set_task i t' ((pl_manager p)\<lparr>m_shared := s\<rparr>)"
    and "same_setup (pl_manager p) ((pl_manager p)\<lparr>m_shared := s\<rparr>)" "pc_ok (pl_manager p) pc"
    and "pl_tasks p' = (pl_tasks p)(i := pc)" "pl_used p' = pl_used p" "pc = Crashed \<Longrightarrow> \<not> task_running t'"
  shows "steady p'"
proof -
  have same: "same_setup (pl_manager p) (pl_manager p')"
    unfolding assms(5) by (rule same_setup_trans [OF assms(6) setup_set_task])
  show ?thesis
    unfolding steady_def pc_ok_setup [OF same]
    using assms steadyD [OF assms(1)] same by (auto simp: same_setup_def)
qed

text \<open>Every step.\<close>

lemma steady_work:
  assumes "pipeline_work oc p p'" "pipeline_inv p" "steady p"
  shows "steady p'"
  using assms
proof (induction rule: pipeline_work.induct)
  case (takes us p d)
  from takes(1) show ?case
  proof (cases rule: worker_take_cases)
    case (1 env envs)
    then show ?thesis
      using takes(3) by (intro steady_same [OF takes(3)]) (simp_all add: pl_manager_def cd_end_worker_def)
  next
    case (2 env envs)
    have "registry_inv (sh_registry (m_shared (cd_manager (pl_dispatcher p))))"
      using pipeline_invD(1) [OF takes(2)] by (simp add: manager_wf_def pl_manager_def)
    then have "distinct (dispatch_targets dashmap_vtable (cd_manager (pl_dispatcher p)) env)"
      by (rule dash.targets_distinct)
    then show ?thesis
      using 2 by (intro steady_kept [OF takes(3), where news = "{}"])
        (simp_all add: pl_manager_def poll_sends_persist)
  qed
next
  case (polls us p d)
  then obtain env ids where ids: "cd_inflight (pl_dispatcher p) = Some (env, ids)"
    by (auto simp: worker_poll_def split: option.splits)
  then have "distinct ids" using pipeline_invD(3) [OF polls(3)] by (simp add: flight_inv_def)
  then show ?case
    using worker_poll_cases(1) [OF polls(1) ids] by (intro steady_kept [OF polls(4), where news = "{}"])
      (simp_all add: pl_manager_def poll_sends_persist)
next
  case (times_out p env waiting d)
  then show ?case
    by (intro steady_same [OF times_out(4)]) (auto simp: pl_manager_def worker_timeout_def split: if_splits)
next
  case (task_takes p i t env q)
  show ?case
    by (rule steady_task [OF task_takes(6,1,2) used_key [OF task_takes(5,1)], where pc = "Calling env 0"
        and t' = "t\<lparr>task_queue := q\<rparr>" and s = "m_shared (pl_manager p)"])
      (simp_all add: pl_manager_def with_manager_def pc_ok_def)
next
  case (task_acts p i t ls pc s)
  note ok = handler_step_ok [OF task_acts(3) steadyD(3,2), OF task_acts(5,5)]
  show ?case
    by (rule steady_task [OF task_acts(5,1,2) used_key [OF task_acts(4,1)], where pc = pc
        and t' = "if pc = Crashed then end_task t else t" and s = s])
      (use ok in \<open>simp_all add: pl_manager_def with_manager_def end_task_def\<close>)
next
  case (signalled p i m)
  then show ?case by (intro steady_life kept_task_shutdown setup_task_shutdown)
next
  case (removed p m)
  then show ?case by (intro steady_life kept_auto_unsubscribe setup_auto_unsubscribe)
qed

lemma steady_front: "front_step (pl_dispatcher p) d \<Longrightarrow> steady p \<Longrightarrow> steady (with_entered d p)"
  by (rule steady_same) (simp_all add: with_entered_def pl_manager_def front_step_def)

lemma steady_step:
  assumes "pipeline_step oc p p'" "pipeline_inv p" "steady p"
  shows "steady p'"
  using assms
proof (induction rule: pipeline_step.induct)
  case (internal p p')
  then show ?case by (rule steady_work)
next
  case (subscribes i p topic_opt T h name res m)
  then have "i \<notin> mkeys (m_subscriptions (pl_manager p))"
    using pipeline_invD(4) [OF subscribes(5)] unfolding unused_inv_def by blast
  then show ?case
    using subscribes by (intro steady_new kept_subscribe(1) setup_subscribe(1)) auto
next
  case (subscribes_untyped i p h tid tname res m)
  then have "i \<notin> mkeys (m_subscriptions (pl_manager p))"
    using pipeline_invD(4) [OF subscribes_untyped(4)] unfolding unused_inv_def by blast
  then show ?case
    using subscribes_untyped by (intro steady_new kept_subscribe(2) setup_subscribe(2)) auto
next
  case (handled p i f)
  then show ?case by (intro steady_life kept_update_cell setup_update_cell)
next
  case (unsubscribes p i)
  then show ?case by (intro steady_life kept_unsubscribe setup_unsubscribe)
next
  case (closes p)
  then show ?case by (intro steady_same [OF closes(2)]) (simp_all add: pl_manager_def cd_shutdown_begin_def)
next
  case (stops p)
  then show ?case by (intro steady_same [OF stops(2)]) (simp_all add: pl_manager_def cd_stop_begin_def)
qed (blast intro: steady_front front_steps)+

lemma steady_reach:
  "pipeline_reach oc p0 p \<Longrightarrow> pipeline_inv p0 \<Longrightarrow> steady p0 \<Longrightarrow> pipeline_inv p \<and> steady p"
  by (induction rule: pipeline_reach.induct) (auto intro: inv_step steady_step)

section \<open>The work left\<close>

text \<open>An upper bound on the steps that are left, for a limit \<open>mr\<close> of retries and at most \<open>n\<close>
  subscriptions: of a task, by where it is; of an envelope in a task's queue, on its way there, and in
  the dispatcher's queue.\<close>

definition pc_cost :: "u32 \<Rightarrow> 'v task_pc \<Rightarrow> nat" where
  "pc_cost mr pc =
     (case pc of
        Calling env a \<Rightarrow> 2 * (unat mr - unat a) + 2
      | Sleeping env a \<Rightarrow> 2 * (unat mr - unat a) + 3
      | Sending env \<Rightarrow> 1
      | _ \<Rightarrow> 0)"

definition event_cost :: "u32 \<Rightarrow> nat" where
  "event_cost mr = 2 * unat mr + 3"

definition task_cost :: "u32 \<Rightarrow> ('v, 'w) sub_task \<Rightarrow> 'v task_pc \<Rightarrow> nat" where
  "task_cost mr t pc =
     event_cost mr * length (chan_buffer (task_queue t)) + pc_cost mr pc + (if task_running t then 2 else 0)"

definition tasks_cost :: "('r, 'v, 'w) manager \<Rightarrow> (uuid \<Rightarrow> 'v task_pc) \<Rightarrow> nat" where
  "tasks_cost m pcs =
     (\<Sum>i\<in>mkeys (m_subscriptions m). task_cost (m_max_retries m) (the (map_of (m_subscriptions m) i)) (pcs i))"

definition dispatch_cost :: "nat \<Rightarrow> u32 \<Rightarrow> ('r, 'v, 'w) channel_dispatcher \<Rightarrow> nat" where
  "dispatch_cost n mr d =
     (n * (event_cost mr + 1) + 2) * length (chan_buffer (cd_queue d)) +
     (case cd_inflight d of None \<Rightarrow> 0 | Some (env, ids) \<Rightarrow> 1 + (event_cost mr + 1) * length ids)"

definition work_left :: "nat \<Rightarrow> ('v, 'w) pipeline \<Rightarrow> nat" where
  "work_left n p =
     dispatch_cost n (m_max_retries (pl_manager p)) (pl_dispatcher p) +
     tasks_cost (pl_manager p) (pl_tasks p) + length (m_unsub_queue (pl_manager p))"

definition at_most :: "nat \<Rightarrow> ('v, 'w) pipeline \<Rightarrow> bool" where
  "at_most n p \<longleftrightarrow> card (mkeys (m_subscriptions (pl_manager p))) \<le> n"

lemma tasks_cost_set_task:
  assumes "map_of (m_subscriptions m) i = Some t"
  shows "tasks_cost (set_task i t' m) (pcs(i := pc)) + task_cost (m_max_retries m) t (pcs i) =
    tasks_cost m pcs + task_cost (m_max_retries m) t' pc"
proof -
  let ?K = "mkeys (m_subscriptions m)"
  have K: "finite ?K" "i \<in> ?K" "insert i ?K = ?K"
    using mkeys_map_of [of i "m_subscriptions m"] assms by auto
  have "(\<Sum>j\<in>?K - {i}. task_cost (m_max_retries m) (the (map_of (m_subscriptions (set_task i t' m)) j))
        ((pcs(i := pc)) j)) =
      (\<Sum>j\<in>?K - {i}. task_cost (m_max_retries m) (the (map_of (m_subscriptions m) j)) (pcs j))"
    by (rule sum.cong) auto
  then show ?thesis
    unfolding tasks_cost_def set_task_mkeys set_task_sel K(3) sum.remove [OF K(1,2)] using assms by simp
qed

lemma tasks_cost_shared [simp]: "tasks_cost (m\<lparr>m_shared := s\<rparr>) pcs = tasks_cost m pcs"
  by (simp add: tasks_cost_def)

lemma tasks_cost_removed:
  assumes "m_subscriptions m' = mdel i (m_subscriptions m)" "m_max_retries m' = m_max_retries m"
  shows "tasks_cost m' pcs \<le> tasks_cost m pcs"
proof -
  let ?K = "mkeys (m_subscriptions m)"
  have "mkeys (m_subscriptions m') = ?K - {i}" using assms(1) by auto
  then have "tasks_cost m' pcs =
      (\<Sum>j\<in>?K - {i}. task_cost (m_max_retries m) (the (map_of (m_subscriptions m) j)) (pcs j))"
    unfolding tasks_cost_def assms by (intro sum.cong) auto
  also have "\<dots> \<le> tasks_cost m pcs"
    unfolding tasks_cost_def by (rule sum_mono2) auto
  finally show ?thesis .
qed

text \<open>A poll moves envelopes from the sends into queues, or drops them.\<close>

lemma poll_sends_cost:
  "tasks_cost (snd (poll_sends env ids m)) pcs + event_cost (m_max_retries m) * length (fst (poll_sends env ids m)) \<le>
     tasks_cost m pcs + event_cost (m_max_retries m) * length ids \<and>
   length (fst (poll_sends env ids m)) \<le> length ids"
proof (induction ids arbitrary: m)
  case Nil
  then show ?case by simp
next
  case (Cons i ids)
  show ?case
  proof (cases "map_of (m_subscriptions m) i")
    case None
    then show ?thesis using Cons [of m] by auto
  next
    case (Some t)
    obtain r q where send: "chan_send (task_queue t) env = (r, q)" by (cases "chan_send (task_queue t) env")
    let ?t = "t\<lparr>task_queue := q\<rparr>"
    have "length (chan_buffer q) + (if r = Pending then 1 else 0) \<le> Suc (length (chan_buffer (task_queue t)))"
      using send by (auto simp: chan_send_def chan_try_send_def split: if_splits)
    moreover have "r = Pending \<Longrightarrow> q = task_queue t"
      using send by (auto simp: chan_send_def chan_try_send_def split: if_splits)
    ultimately have "task_cost (m_max_retries m) ?t (pcs i) + (if r = Pending then event_cost (m_max_retries m) else 0) \<le>
        task_cost (m_max_retries m) t (pcs i) + event_cost (m_max_retries m)"
      using mult_le_mono2 [of "length (chan_buffer q)" "Suc (length (chan_buffer (task_queue t)))" "event_cost (m_max_retries m)"]
      by (cases "r = Pending") (simp_all add: task_cost_def)
    then show ?thesis
      using Cons [of "set_task i ?t m"] tasks_cost_set_task [OF Some, of ?t pcs "pcs i"] Some send
      by (auto simp: split_beta)
  qed
qed

text \<open>A step of a task brings it closer to its queue.\<close>

lemma handler_step_cost:
  assumes "handler_step V h oc (m_max_retries m) rb i pc (m_shared m) ls pc' s" "pc_ok m pc"
    and "m_max_retries m \<noteq> - 1"
  shows "pc_cost (m_max_retries m) pc' < pc_cost (m_max_retries m) pc"
  using assms(1)
proof cases
  case returns
  then show ?thesis
  proof cases
    case (retries env e s1 a a' d)
    have "a \<le> m_max_retries m" using assms(2) retries by (simp add: pc_ok_def)
    note up = count_up [OF retries(6) this assms(3) retries(7)]
    then have "Suc (unat a) \<le> unat (m_max_retries m)" by (simp add: word_le_nat_alt)
    then show ?thesis using retries up(2) by (simp add: pc_cost_def)
  qed (simp_all add: pc_cost_def)
qed (simp add: pc_cost_def)

text \<open>A dispatch in which \<open>ids\<close> are asked and those left by the poll go on waiting.\<close>

lemma dispatch_polled:
  assumes "cd_inflight d = (let waiting = fst (poll_sends env ids m) in if waiting = [] then None else Some (env, waiting))"
    and "cd_manager d = snd (poll_sends env ids m)" "mr = m_max_retries m"
  shows "dispatch_cost n mr d + tasks_cost (cd_manager d) pcs \<le>
    (n * (event_cost mr + 1) + 2) * length (chan_buffer (cd_queue d)) +
    (if cd_inflight d = None then 0 else 1 + length (fst (poll_sends env ids m))) +
    tasks_cost m pcs + event_cost mr * length ids"
  using poll_sends_cost [of env ids m pcs] assms
  by (auto simp: dispatch_cost_def Let_def)

lemma targets_at_most:
  assumes "pipeline_inv p" "at_most n p"
  shows "length (dispatch_targets dashmap_vtable (pl_manager p) env) \<le> n"
proof -
  let ?ids = "dispatch_targets dashmap_vtable (pl_manager p) env"
  have reg: "registry_inv (sh_registry (m_shared (pl_manager p)))"
    using pipeline_invD(1) [OF assms(1)] by (simp add: manager_wf_def)
  have "length ?ids = card (set ?ids)"
    using distinct_card [OF dash.targets_distinct [OF reg]] by simp
  also have "\<dots> \<le> card (mkeys (m_subscriptions (pl_manager p)))"
    by (rule card_mono) (auto simp: targets_receives [OF reg] receives_def mkeys_map_of [symmetric])
  finally show ?thesis using assms(2) by (simp add: at_most_def)
qed

lemma take_decreases:
  assumes "worker_take dashmap_vtable us (pl_dispatcher p) = Some d" "pipeline_inv p" "at_most n p"
    and "mr = m_max_retries (pl_manager p)"
  shows "dispatch_cost n mr d + tasks_cost (cd_manager d) pcs <
    dispatch_cost n mr (pl_dispatcher p) + tasks_cost (pl_manager p) pcs"
  using assms(1)
proof (cases rule: worker_take_cases)
  case (1 env envs)
  then show ?thesis by (simp add: dispatch_cost_def cd_end_worker_def pl_manager_def)
next
  case (2 env envs)
  let ?ids = "dispatch_targets dashmap_vtable (cd_manager (pl_dispatcher p)) env" and ?c = "event_cost mr"
  have ids: "length ?ids \<le> n" using targets_at_most [OF assms(2,3)] by (simp add: pl_manager_def)
  then have "?c * length ?ids \<le> ?c * n" by (rule mult_le_mono2)
  moreover have "length (fst (poll_sends env ?ids (cd_manager (pl_dispatcher p)))) \<le> length ?ids"
    using poll_sends_cost by blast
  moreover have "dispatch_cost n mr (pl_dispatcher p) = (n * (?c + 1) + 2) * length envs + ?c * n + n + 2"
    using 2(1,3) by (simp add: dispatch_cost_def algebra_simps)
  moreover have "dispatch_cost n mr d + tasks_cost (cd_manager d) pcs \<le>
      (n * (?c + 1) + 2) * length envs + 1 +
      length (fst (poll_sends env ?ids (cd_manager (pl_dispatcher p)))) +
      tasks_cost (pl_manager p) pcs + ?c * length ?ids"
    using dispatch_polled [OF 2(8,7), of mr n pcs] assms(4)
    by (auto simp: pl_manager_def 2(6) split: if_splits)
  ultimately show ?thesis using ids by linarith
qed

lemma filter_shorter: "filter P xs \<noteq> xs \<Longrightarrow> length (filter P xs) < length xs"
  by (metis filter_True length_filter_less)

lemma poll_decreases:
  assumes "worker_poll us d = Some d'" "cd_inflight d = Some (env, ids)" "distinct ids"
    and "cd_inflight d' \<noteq> cd_inflight d" "mr = m_max_retries (cd_manager d)"
  shows "dispatch_cost n mr d' + tasks_cost (cd_manager d') pcs <
    dispatch_cost n mr d + tasks_cost (cd_manager d) pcs"
proof -
  note d' = worker_poll_cases [OF assms(1,2)]
  let ?waiting = "fst (poll_sends env ids (cd_manager d))"
  have shorter: "length ?waiting < length ids" if "?waiting \<noteq> ids"
    using that unfolding poll_sends_waiting [OF assms(3)] by (rule filter_shorter)
  have old: "dispatch_cost n mr d = (n * (event_cost mr + 1) + 2) * length (chan_buffer (cd_queue d)) +
      1 + event_cost mr * length ids + length ids"
    using assms(2) by (simp add: dispatch_cost_def algebra_simps)
  note new = dispatch_polled [OF d'(4,1) assms(5), of n pcs]
  show ?thesis
  proof (cases "?waiting = []")
    case True
    then show ?thesis using new old d'(2,4) by simp
  next
    case False
    then have "?waiting \<noteq> ids" using assms(2,4) d'(4) by auto
    then show ?thesis using new old d'(2,4) shorter False by simp
  qed
qed

lemma poll_sends_mkeys: "mkeys (m_subscriptions (snd (poll_sends env ids m))) = mkeys (m_subscriptions m)"
  using poll_sends_keys by (metis list.set_map)

lemma poll_sends_queue: "m_unsub_queue (snd (poll_sends env ids m)) = m_unsub_queue m"
  by (induction ids arbitrary: m) (auto simp: split_beta split: option.splits)

lemma worker_manager:
  assumes "worker_take V us d = Some d' \<or> worker_poll us d = Some d'"
  shows "mkeys (m_subscriptions (cd_manager d')) = mkeys (m_subscriptions (cd_manager d)) \<and>
    m_unsub_queue (cd_manager d') = m_unsub_queue (cd_manager d) \<and> same_setup (cd_manager d) (cd_manager d')"
  using assms
proof
  assume "worker_take V us d = Some d'"
  then show ?thesis
    by (cases rule: worker_take_cases)
      (simp_all add: cd_end_worker_def poll_sends_mkeys poll_sends_queue)
next
  assume poll: "worker_poll us d = Some d'"
  then obtain env ids where ids: "cd_inflight d = Some (env, ids)"
    by (auto simp: worker_poll_def split: option.splits)
  show ?thesis
    using worker_poll_cases(1) [OF poll ids] by (simp add: poll_sends_mkeys poll_sends_queue)
qed

lemma work_left_dispatcher:
  assumes "same_setup (cd_manager (pl_dispatcher p)) (cd_manager d)"
    and "mkeys (m_subscriptions (cd_manager d)) = mkeys (m_subscriptions (cd_manager (pl_dispatcher p)))"
    and "m_unsub_queue (cd_manager d) = m_unsub_queue (cd_manager (pl_dispatcher p))"
    and "dispatch_cost n (m_max_retries (pl_manager p)) d + tasks_cost (cd_manager d) (pl_tasks p) <
      dispatch_cost n (m_max_retries (pl_manager p)) (pl_dispatcher p) + tasks_cost (pl_manager p) (pl_tasks p)"
    and "pl_dispatcher p' = d" "pl_tasks p' = pl_tasks p" "at_most n p"
  shows "work_left n p' < work_left n p \<and> at_most n p'"
  using assms by (simp add: work_left_def at_most_def pl_manager_def same_setup_def)

lemma work_left_task:
  assumes "map_of (m_subscriptions (pl_manager p)) i = Some t"
    and "pl_manager p' = set_task i t' ((pl_manager p)\<lparr>m_shared := s\<rparr>)"
    and "pl_tasks p' = (pl_tasks p)(i := pc)" "cd_queue (pl_dispatcher p') = cd_queue (pl_dispatcher p)"
    and "cd_inflight (pl_dispatcher p') = cd_inflight (pl_dispatcher p)"
    and "task_cost (m_max_retries (pl_manager p)) t' pc < task_cost (m_max_retries (pl_manager p)) t (pl_tasks p i)"
    and "at_most n p"
  shows "work_left n p' < work_left n p \<and> at_most n p'"
proof -
  have i: "insert i (mkeys (m_subscriptions (pl_manager p))) = mkeys (m_subscriptions (pl_manager p))"
    using assms(1) mkeys_map_of [of i "m_subscriptions (pl_manager p)"] by blast
  have cost: "tasks_cost (pl_manager p') (pl_tasks p') < tasks_cost (pl_manager p) (pl_tasks p)"
    using tasks_cost_set_task [of "(pl_manager p)\<lparr>m_shared := s\<rparr>" i t t' "pl_tasks p" pc] assms(1,6)
    by (simp add: assms(2,3))
  have "mkeys (m_subscriptions (pl_manager p')) = mkeys (m_subscriptions (pl_manager p))"
    unfolding assms(2) set_task_mkeys by (simp add: i)
  then show ?thesis
    using cost assms(4,5,7) by (simp add: work_left_def at_most_def dispatch_cost_def assms(2))
qed

lemma signal_decreases:
  assumes "task_shutdown i (pl_manager p) = Some m" "at_most n p"
  shows "work_left n (with_manager m p) < work_left n p \<and> at_most n (with_manager m p)"
proof -
  obtain t where t: "map_of (m_subscriptions (pl_manager p)) i = Some t" "task_running t"
      "m = (set_task i (end_task t) (pl_manager p))\<lparr>m_unsub_queue := m_unsub_queue (pl_manager p) @ [i]\<rparr>"
    using assms(1) by (auto simp: task_shutdown_def split: option.splits if_splits)
  have "insert i (mkeys (m_subscriptions (pl_manager p))) = mkeys (m_subscriptions (pl_manager p))"
    using t(1) mkeys_map_of [of i "m_subscriptions (pl_manager p)"] by blast
  moreover have "tasks_cost (m\<lparr>m_unsub_queue := q\<rparr>) pcs = tasks_cost m pcs" for q pcs and m :: "('a dashmap_registry, 'a, 'b) manager"
    by (simp add: tasks_cost_def)
  moreover have "tasks_cost (set_task i (end_task t) (pl_manager p)) (pl_tasks p) + 2 \<le>
      tasks_cost (pl_manager p) (pl_tasks p)"
    using tasks_cost_set_task [OF t(1), of "end_task t" "pl_tasks p" "pl_tasks p i"] t(2)
    by (simp add: task_cost_def end_task_def)
  ultimately show ?thesis
    using assms(2) by (simp add: work_left_def at_most_def t(3) set_task_mkeys dispatch_cost_def)
qed

lemma removal_decreases:
  assumes "auto_unsubscribe dashmap_vtable (pl_manager p) = Some m" "at_most n p"
  shows "work_left n (with_manager m p) < work_left n p \<and> at_most n (with_manager m p)"
proof -
  obtain i rest where q: "m_unsub_queue (pl_manager p) = i # rest"
    using assms(1) by (auto simp: auto_unsubscribe_def split: list.splits)
  have m: "m_subscriptions m = m_subscriptions (pl_manager p) \<or> m_subscriptions m = mdel i (m_subscriptions (pl_manager p))"
      "m_unsub_queue m = rest" "m_max_retries m = m_max_retries (pl_manager p)"
    using assms(1) q by (auto simp: auto_unsubscribe_def Let_def split: if_splits)
  then have "tasks_cost m (pl_tasks p) \<le> tasks_cost (pl_manager p) (pl_tasks p)"
    using tasks_cost_removed [OF _ m(3)] by (auto simp: tasks_cost_def)
  moreover have "card (mkeys (m_subscriptions m)) \<le> card (mkeys (m_subscriptions (pl_manager p)))"
    using m(1) by (auto simp: card_Diff1_le)
  ultimately show ?thesis
    using assms(2) m(2,3) q by (simp add: work_left_def at_most_def dispatch_cost_def)
qed

lemma work_decreases:
  assumes "pipeline_work oc p p'" "pipeline_inv p" "steady p" "at_most n p"
  shows "work_left n p' < work_left n p \<and> at_most n p'"
  using assms
proof (induction rule: pipeline_work.induct)
  case (takes us p d)
  have "dispatch_cost n (m_max_retries (pl_manager p)) d + tasks_cost (cd_manager d) (pl_tasks p) <
      dispatch_cost n (m_max_retries (pl_manager p)) (pl_dispatcher p) + tasks_cost (pl_manager p) (pl_tasks p)"
    by (rule take_decreases [OF takes(1,2,4) refl])
  then show ?case
    using worker_manager [OF disjI1 [OF takes(1)]] takes(4)
    by (intro work_left_dispatcher [where d = d]) simp_all
next
  case (polls us p d)
  then obtain env ids where ids: "cd_inflight (pl_dispatcher p) = Some (env, ids)"
    by (auto simp: worker_poll_def split: option.splits)
  then have "distinct ids" using pipeline_invD(3) [OF polls(3)] by (simp add: flight_inv_def)
  then show ?case
    using worker_manager [OF disjI2 [OF polls(1)]]
      poll_decreases [OF polls(1) ids _ polls(2) refl, of n "pl_tasks p"] polls(5)
    by (intro work_left_dispatcher [where d = d]) (simp_all add: pl_manager_def)
next
  case (times_out p env waiting d)
  then have "d = (pl_dispatcher p)\<lparr>cd_inflight := None, cd_dispatch_errors := cd_dispatch_errors (pl_dispatcher p) + 1\<rparr>"
    by (auto simp: worker_timeout_def split: if_splits)
  then show ?case
    using times_out(1,5) by (simp add: work_left_def at_most_def dispatch_cost_def pl_manager_def)
next
  case (task_takes p i t env q)
  have "length (chan_buffer (task_queue t)) = Suc (length (chan_buffer q))"
    using task_takes(4) by (auto simp: chan_recv_def split: list.splits)
  then show ?case
    using task_takes(2,3,7)
    by (intro work_left_task [OF task_takes(1), where t' = "t\<lparr>task_queue := q\<rparr>" and pc = "Calling env 0"
        and s = "m_shared (pl_manager p)"])
      (simp_all add: pl_manager_def with_manager_def task_cost_def pc_cost_def event_cost_def)
next
  case (task_acts p i t ls pc s)
  have "pc_cost (m_max_retries (pl_manager p)) pc < pc_cost (m_max_retries (pl_manager p)) (pl_tasks p i)"
    by (rule handler_step_cost [OF task_acts(3) steadyD(3,2), OF task_acts(5,5)])
  then show ?case
    using task_acts(6)
    by (intro work_left_task [OF task_acts(1), where t' = "if pc = Crashed then end_task t else t" and pc = pc
        and s = s])
      (auto simp: pl_manager_def with_manager_def task_cost_def end_task_def)
qed (use signal_decreases removal_decreases in blast)+

section \<open>Where it ends\<close>

definition stalled :: "('v, 'w) pipeline \<Rightarrow> uuid \<Rightarrow> bool" where
  "stalled p i \<longleftrightarrow>
     (\<exists>env c. pl_tasks p i = Sending env \<and> sh_dlq (m_shared (pl_manager p)) = Some c \<and>
        fst (chan_send c env) = Pending)"

definition finished_work :: "bool \<Rightarrow> ('v, 'w) pipeline \<Rightarrow> bool" where
  "finished_work oc p \<longleftrightarrow> (\<nexists>p'. pipeline_work oc p p')"

text \<open>A task that has an envelope can go on, unless the dead letter queue is full.\<close>

lemma calling_goes_on: "\<exists>ls pc s'. task_work V h oc mr rb i (Calling env a) s ls pc s'"
proof (cases "run_handler h env s")
  case (Pair res s1)
  show ?thesis
  proof (cases res)
    case (Inr u)
    then show ?thesis using Pair accepts by blast
  next
    case (Inl e)
    then have failed: "run_handler h env s = (Inl e, s1)" using Pair by simp
    show ?thesis
    proof (cases "u32_inc oc a")
      case Panic
      then show ?thesis using count_overflows [OF failed] by blast
    next
      case (Done a')
      show ?thesis
      proof (cases "mr < a'")
        case True
        then show ?thesis
          using gives_up [OF failed Done True] dead_letters [OF failed Done True]
          by (cases "sh_dlq s1 = None") blast+
      next
        case False
        then show ?thesis
          using retries [OF failed Done False] delay_overflows [OF failed Done False]
          by (cases "doubled_delay oc rb a'") blast+
      qed
    qed
  qed
qed

lemma task_goes_on:
  assumes "pc_ok m pc" "pc \<noteq> Waiting" "pc \<noteq> Crashed"
    and "\<And>env c. pc = Sending env \<Longrightarrow> sh_dlq (m_shared m) = Some c \<Longrightarrow> fst (chan_send c env) \<noteq> Pending"
  shows "\<exists>ls pc' s. task_work V h oc mr rb i pc (m_shared m) ls pc' s"
proof (cases pc)
  case (Sending env)
  then obtain c where c: "sh_dlq (m_shared m) = Some c" using assms(1) by (auto simp: pc_ok_def)
  then obtain b c' where "chan_send c env = (Ready b, c')"
    using assms(4) [OF Sending c] by (cases "fst (chan_send c env)") (auto simp: prod_eq_iff)
  then show ?thesis using sends [OF c] Sending by blast
next
  case (Calling env a)
  then show ?thesis using calling_goes_on by simp
next
  case (Sleeping env a)
  then show ?thesis using wakes [of V h oc mr rb i env a "m_shared m"] by blast
qed (use assms(2,3) in simp_all)

lemma task_at_rest:
  assumes "finished_work oc p" "steady p"
    and "map_of (m_subscriptions (pl_manager p)) i = Some t" "task_running t" "\<not> stalled p i"
  shows "pl_tasks p i = Waiting \<and> chan_buffer (task_queue t) = []"
proof (cases "pl_tasks p i = Waiting")
  case True
  then show ?thesis
    using assms(1) task_takes [OF assms(3,4) True, of _ _ oc]
    by (cases "chan_buffer (task_queue t)") (auto simp: finished_work_def chan_recv_def)
next
  case False
  then have "\<exists>ls pc' s. task_work dashmap_vtable (task_handler t) oc (m_max_retries (pl_manager p))
      (m_retry_backoff (pl_manager p)) i (pl_tasks p i) (m_shared (pl_manager p)) ls pc' s"
    using assms(5) steadyD(3,4) [OF assms(2)] assms(3,4)
    by (intro task_goes_on) (auto simp: stalled_def)
  then show ?thesis
    using assms(1) task_acts [OF assms(3,4) returns] unfolding finished_work_def by blast
qed

lemma worker_at_rest:
  assumes "finished_work oc p" "pipeline_inv p" "steady p" "\<And>i. \<not> stalled p i"
    and "cd_worker (pl_dispatcher p)"
  shows "cd_inflight (pl_dispatcher p) = None" "chan_buffer (cd_queue (pl_dispatcher p)) = []"
proof -
  show idle: "cd_inflight (pl_dispatcher p) = None"
  proof (rule ccontr)
    assume "cd_inflight (pl_dispatcher p) \<noteq> None"
    then obtain env ids where ids: "cd_inflight (pl_dispatcher p) = Some (env, ids)" by auto
    then obtain d where d: "worker_poll 0 (pl_dispatcher p) = Some d"
      by (simp add: worker_poll_def split_beta Let_def)
    have "cd_inflight d = cd_inflight (pl_dispatcher p)"
      using assms(1) polls [OF d] unfolding finished_work_def by blast
    then have wait: "fst (poll_sends env ids (pl_manager p)) = ids" "ids \<noteq> []"
      using worker_poll_cases(4) [OF d ids] ids by (auto simp: pl_manager_def Let_def split: if_splits)
    have "distinct ids" using pipeline_invD(3) [OF assms(2)] ids by (simp add: flight_inv_def)
    then have "filter (\<lambda>i. \<exists>t. map_of (m_subscriptions (pl_manager p)) i = Some t \<and>
        fst (chan_send (task_queue t) env) = Pending) ids = ids"
      using wait(1) by (simp add: poll_sends_waiting)
    then have "\<forall>i\<in>set ids. \<exists>t. map_of (m_subscriptions (pl_manager p)) i = Some t \<and>
        fst (chan_send (task_queue t) env) = Pending"
      by (simp only: filter_id_conv)
    with wait(2) obtain i t where t: "map_of (m_subscriptions (pl_manager p)) i = Some t"
        "fst (chan_send (task_queue t) env) = Pending"
      using last_in_set by blast
    have wf: "task_wf (m_handler_channel_size (pl_manager p)) t"
      by (rule manager_wf_task [OF pipeline_invD(1) [OF assms(2)] t(1)])
    have "chan_open (task_queue t)" "chan_capacity (task_queue t) \<le> length (chan_buffer (task_queue t))"
      using t(2) by (auto simp: chan_send_def chan_try_send_def split: if_splits)
    then show False
      using task_at_rest [OF assms(1,3) t(1)] wf assms(4) steadyD(1) [OF assms(3)]
      by (auto simp: task_wf_def)
  qed
  show "chan_buffer (cd_queue (pl_dispatcher p)) = []"
  proof (rule ccontr)
    assume "chan_buffer (cd_queue (pl_dispatcher p)) \<noteq> []"
    then have "worker_take dashmap_vtable 0 (pl_dispatcher p) \<noteq> None"
      using idle assms(5)
      by (cases "chan_buffer (cd_queue (pl_dispatcher p))")
        (auto simp: worker_take_def chan_recv_def Let_def split_beta)
    then show False
      using assms(1) takes [of 0 p _ oc] unfolding finished_work_def by blast
  qed
qed

section \<open>Runs\<close>

lemma work_keeps:
  "pipeline_work oc p p' \<Longrightarrow>
     pl_accepted p' = pl_accepted p \<and> cd_running (pl_dispatcher p') = cd_running (pl_dispatcher p) \<and>
     (cd_running (pl_dispatcher p) \<longrightarrow> cd_worker (pl_dispatcher p') = cd_worker (pl_dispatcher p))"
  by (induction rule: pipeline_work.induct)
    (auto simp: worker_take_def worker_poll_def worker_timeout_def cd_count_success_def cd_end_worker_def
      with_manager_def Let_def split_beta split: option.splits if_splits)

lemma at_most_length: "at_most (length (m_subscriptions (pl_manager p))) p"
  unfolding at_most_def by (metis card_length length_map list.set_map)

lemma run_bounded:
  assumes "(pipeline_work oc ^^ k) p q" "pipeline_inv p" "steady p" "at_most n p"
  shows "pipeline_inv q \<and> steady q \<and> at_most n q \<and> k + work_left n q \<le> work_left n p"
  using assms(1)
proof (induction k arbitrary: q)
  case 0
  then show ?case using assms by simp
next
  case (Suc k)
  then obtain r where r: "(pipeline_work oc ^^ k) p r" "pipeline_work oc r q" by auto
  then show ?case
    using Suc.IH [OF r(1)] inv_work [OF r(2)] steady_work [OF r(2)] work_decreases [OF r(2), of n] by auto
qed

lemma run_keeps:
  "(pipeline_work oc ^^ k) p q \<Longrightarrow>
     pl_accepted q = pl_accepted p \<and> cd_running (pl_dispatcher q) = cd_running (pl_dispatcher p) \<and>
     (cd_running (pl_dispatcher p) \<longrightarrow> cd_worker (pl_dispatcher q) = cd_worker (pl_dispatcher p))"
  by (induction k arbitrary: q) (auto dest: work_keeps)

lemma work_setup:
  assumes "pipeline_work oc p p'" "steady p"
  shows "same_setup (pl_manager p) (pl_manager p')"
  using assms
proof (induction rule: pipeline_work.induct)
  case (takes us p d)
  then show ?case using worker_manager [OF disjI1 [OF takes(1)]] by (simp add: pl_manager_def)
next
  case (polls us p d)
  then show ?case using worker_manager [OF disjI2 [OF polls(1)]] by (simp add: pl_manager_def)
next
  case (times_out p env waiting d)
  then show ?case by (auto simp: pl_manager_def worker_timeout_def split: if_splits)
next
  case (task_takes p i t env q)
  then show ?case by (simp add: pl_manager_def with_manager_def)
next
  case (task_acts p i t ls pc s)
  have "same_setup (pl_manager p) ((pl_manager p)\<lparr>m_shared := s\<rparr>)"
    using handler_step_ok [OF task_acts(3) steadyD(3,2), OF task_acts(4,4)] by simp
  from same_setup_trans [OF this setup_set_task] show ?case
    by (simp add: pl_manager_def with_manager_def)
next
  case (signalled p i m)
  then show ?case by (simp add: setup_task_shutdown)
next
  case (removed p m)
  then show ?case by (simp add: setup_auto_unsubscribe)
qed

lemma run_setup:
  assumes "(pipeline_work oc ^^ k) p q" "pipeline_inv p \<and> steady p"
  shows "same_setup (pl_manager p) (pl_manager q)"
  using assms(1)
proof (induction k arbitrary: q)
  case 0
  then show ?case by simp
next
  case (Suc k)
  then obtain r where r: "(pipeline_work oc ^^ k) p r" "pipeline_work oc r q" by auto
  then have "steady r" using run_bounded [OF r(1) _ _ at_most_length] assms(2) by blast
  then show ?case by (rule same_setup_trans [OF Suc.IH [OF r(1)] work_setup [OF r(2)]])
qed

lemma run_to_the_end:
  assumes "pipeline_inv p" "steady p" "at_most n p"
  shows "\<exists>k q. (pipeline_work oc ^^ k) p q \<and> finished_work oc q"
  using assms
proof (induction "work_left n p" arbitrary: p rule: less_induct)
  case less
  show ?case
  proof (cases "finished_work oc p")
    case True
    then show ?thesis by (intro exI [of _ 0] exI [of _ p]) simp
  next
    case False
    then obtain r where r: "pipeline_work oc p r" by (auto simp: finished_work_def)
    obtain k q where "(pipeline_work oc ^^ k) r q" "finished_work oc q"
      using less.hyps [of r] work_decreases [OF r less.prems] inv_work [OF r less.prems(1)]
        steady_work [OF r less.prems(1,2)] by auto
    then show ?thesis using relpowp_Suc_I2 [of "pipeline_work oc", OF r] by blast
  qed
qed

lemma steady_started:
  assumes "pipeline_start d" "0 < m_handler_channel_size (cd_manager d)" "m_max_retries (cd_manager d) \<noteq> - 1"
    and "pipeline_reach oc (pipeline_new d) p"
  shows "pipeline_inv p \<and> steady p"
proof (rule steady_reach [OF assms(4)])
  show "pipeline_inv (pipeline_new d)" by (rule inv_started [OF assms(1) pipeline_reach.start])
  show "steady (pipeline_new d)"
    using assms(2,3) by (simp add: steady_def pipeline_new_def pl_manager_def pc_ok_def)
qed

section \<open>Properties\<close>

text \<open>
  C6: left to itself a bus comes to rest. From every state that publishers, timeouts, subscription
  changes, panics of handlers and shutdowns can have led to, the worker and the tasks take a bounded number of
  steps, in whatever order they are run, and they can always go on until nothing is left to do. The bound
  is computed from the queues, the tasks and the maximum number of retries.
\<close>

theorem pipeline_comes_to_rest:
  assumes "pipeline_start d" "0 < m_handler_channel_size (cd_manager d)" "m_max_retries (cd_manager d) \<noteq> - 1"
    and "pipeline_reach oc (pipeline_new d) p"
  shows "{k. \<exists>q. (pipeline_work oc ^^ k) p q} \<subseteq> {..work_left (length (m_subscriptions (pl_manager p))) p} \<and>
    (\<exists>k q. (pipeline_work oc ^^ k) p q \<and> finished_work oc q)"
proof -
  have inv: "pipeline_inv p" "steady p" using steady_started [OF assms] by simp_all
  show ?thesis
    using run_bounded [OF _ inv at_most_length] run_to_the_end [OF inv at_most_length, of oc] by fastforce
qed


text \<open>A bus without dead letter queue that has accepted an event.\<close>

definition loaded_dispatcher :: "(nat dashmap_registry, nat, nat) channel_dispatcher" where
  "loaded_dispatcher =
     small_dispatcher\<lparr>cd_queue := (cd_queue small_dispatcher)\<lparr>chan_buffer := [echo_env 4]\<rparr>,
       cd_manager := echo_manager\<lparr>m_shared := (m_shared echo_manager)\<lparr>sh_dlq := None\<rparr>\<rparr>\<rparr>"

lemma loaded_start:
  "pipeline_start loaded_dispatcher" "0 < m_handler_channel_size (cd_manager loaded_dispatcher)"
  "m_max_retries (cd_manager loaded_dispatcher) \<noteq> - 1"
  "cd_worker (pl_dispatcher (pipeline_new loaded_dispatcher))"
  "cd_running (pl_dispatcher (pipeline_new loaded_dispatcher))"
  using echo_start by (simp_all add: loaded_dispatcher_def pipeline_start_def manager_wf_def pipeline_new_def)

theorem pipeline_comes_to_rest_witness:
  "{k. \<exists>q. (pipeline_work True ^^ k) (pipeline_new loaded_dispatcher) q} \<subseteq> {..25} \<and>
   (\<exists>k q. (pipeline_work True ^^ k) (pipeline_new loaded_dispatcher) q \<and> finished_work True q)"
proof -
  let ?p = "pipeline_new loaded_dispatcher"
  have "work_left (length (m_subscriptions (pl_manager ?p))) ?p \<le> 25"
    by (simp add: work_left_def dispatch_cost_def tasks_cost_def task_cost_def pc_cost_def event_cost_def
        pipeline_new_def pl_manager_def loaded_dispatcher_def)
  moreover note pipeline_comes_to_rest [OF loaded_start(1-3) pipeline_reach.start, of True]
  ultimately show ?thesis by fastforce
qed


end
