(* ===== verification/Store_Protocol.thy ===== *)
theory Store_Protocol
  imports Redb_Dispatcher
begin

text \<open>
  The database of the persistent dispatcher (src/src/persistence/redb.rs) under all the tasks that
  write to it: the worker's batches, the acknowledgements, the scheduler, the two replays, each one
  transaction at a time and in any order. What every reachable database looks like, how an event's
  row lives and dies by its reference count, and whose acknowledgements the count waits for.
\<close>

section \<open>Transactions\<close>

datatype store_txn =
    Write_Batch "redb_insert list"
  | Acknowledge u128 bool
  | Pull_Due u64
  | Take_Dead_Letters
  | Collect_Garbage "u128 list"

fun run_txn :: "pe_codec \<Rightarrow> store_txn \<Rightarrow> redb_store \<Rightarrow> redb_store" where
  "run_txn C (Write_Batch is) s = apply_inserts is s"
| "run_txn C (Acknowledge eid ok) s = ack_store eid ok s"
| "run_txn C (Pull_Due now_ms) s = snd (pull_due C now_ms s)"
| "run_txn C Take_Dead_Letters s = take_dead_letters C s"
| "run_txn C (Collect_Garbage dead) s = collect_garbage dead s"

definition run_txns :: "pe_codec \<Rightarrow> store_txn list \<Rightarrow> redb_store \<Rightarrow> redb_store" where
  "run_txns C ts s = fold (run_txn C) ts s"

text \<open>The acknowledgements of an event, and transactions that neither write nor collect its row.\<close>

fun is_ack_of :: "u128 \<Rightarrow> store_txn \<Rightarrow> bool" where
  "is_ack_of eid (Acknowledge i _) \<longleftrightarrow> i = eid"
| "is_ack_of eid _ \<longleftrightarrow> False"

definition acks_on :: "u128 \<Rightarrow> store_txn list \<Rightarrow> nat" where
  "acks_on eid ts = length (filter (is_ack_of eid) ts)"

fun leaves_alone :: "u128 \<Rightarrow> store_txn \<Rightarrow> bool" where
  "leaves_alone eid (Write_Batch is) \<longleftrightarrow> list_all (\<lambda>i. ri_scheduled i \<or> ri_id i \<noteq> eid) is"
| "leaves_alone eid (Collect_Garbage dead) \<longleftrightarrow> eid \<notin> set dead"
| "leaves_alone eid _ \<longleftrightarrow> True"

section \<open>Rows and counts\<close>

lemma apply_insert_tables [simp]:
  "tb_events (apply_insert i s) =
     (if ri_scheduled i then tb_events s else mput (ri_id i) (ri_bytes i) (tb_events s))"
  "tb_refcount (apply_insert i s) =
     (if ri_scheduled i then tb_refcount s else mput (ri_id i) (ri_sub_count i) (tb_refcount s))"
  "tb_scheduled (apply_insert i s) =
     (if ri_scheduled i then mput (ri_deliver_at_ms i, ri_id i) (ri_bytes i) (tb_scheduled s)
      else tb_scheduled s)"
  "tb_dlq (apply_insert i s) = tb_dlq s"
  by (simp_all add: apply_insert_def Let_def split: option.split)

lemma collect_tables [simp]:
  "tb_events (collect_garbage dead s) = fold mdel dead (tb_events s)"
  "tb_refcount (collect_garbage dead s) = fold mdel dead (tb_refcount s)"
  "tb_scheduled (collect_garbage dead s) = tb_scheduled s" "tb_dlq (collect_garbage dead s) = tb_dlq s"
  by (simp_all add: collect_garbage_def)

lemma take_dead_letters_tables [simp]:
  "tb_events (take_dead_letters C s) = tb_events s" "tb_refcount (take_dead_letters C s) = tb_refcount s"
  "tb_scheduled (take_dead_letters C s) = tb_scheduled s"
  by (simp_all add: take_dead_letters_def)

lemma pull_due_tables [simp]:
  "tb_events (snd (pull_due C now_ms s)) = tb_events s"
  "tb_refcount (snd (pull_due C now_ms s)) = tb_refcount s" "tb_dlq (snd (pull_due C now_ms s)) = tb_dlq s"
  by (simp_all add: pull_due_def Let_def)

lemma map_of_fold_mdel: "map_of (fold mdel ks t) k = (if k \<in> set ks then None else map_of t k)"
  by (induction ks arbitrary: t) auto

lemma inserts_other:
  "list_all (\<lambda>i. ri_scheduled i \<or> ri_id i \<noteq> eid) is \<Longrightarrow>
     map_of (tb_events (apply_inserts is s)) eid = map_of (tb_events s) eid \<and>
     map_of (tb_refcount (apply_inserts is s)) eid = map_of (tb_refcount s) eid"
  by (induction "is" arbitrary: s) (auto simp: apply_inserts_def)

lemma other_txn:
  assumes "leaves_alone eid t" "\<not> is_ack_of eid t"
  shows "map_of (tb_events (run_txn C t s)) eid = map_of (tb_events s) eid \<and>
    map_of (tb_refcount (run_txn C t s)) eid = map_of (tb_refcount s) eid"
  using assms
  by (cases t) (auto simp: inserts_other map_of_fold_mdel ack_store_other)

lemma acks_on_simps [simp]:
  "acks_on eid [] = 0"
  "acks_on eid (t # ts) = (if is_ack_of eid t then Suc (acks_on eid ts) else acks_on eid ts)"
  by (simp_all add: acks_on_def)

lemma is_ack_ofE:
  assumes "is_ack_of eid t"
  obtains ok where "t = Acknowledge eid ok"
  using assms by (cases t) auto

text \<open>Fewer acknowledgements than the count: the row is as it was and the count is lower by their number.\<close>

lemma row_survives:
  assumes "list_all (leaves_alone eid) ts" "acks_on eid ts < unat n"
    and "map_of (tb_refcount s) eid = Some n"
  shows "map_of (tb_events (run_txns C ts s)) eid = map_of (tb_events s) eid \<and>
    map_of (tb_refcount (run_txns C ts s)) eid = Some (n - of_nat (acks_on eid ts))"
  using assms
proof (induction ts arbitrary: s n)
  case Nil
  then show ?case by (simp add: run_txns_def acks_on_def)
next
  case (Cons t ts)
  show ?case
  proof (cases "is_ack_of eid t")
    case False
    then show ?thesis
      using Cons.IH [of n "run_txn C t s"] Cons.prems other_txn [of eid t C s]
      by (simp add: run_txns_def)
  next
    case True
    then obtain ok where t: "t = Acknowledge eid ok" by (rule is_ack_ofE)
    then have n1: "1 < unat n" "n \<noteq> 0" using Cons.prems(2) by auto
    note more = ack_store_more [OF Cons.prems(3) n1(1), of ok]
    have "acks_on eid ts < unat (n - 1)"
      using Cons.prems(2) t n1(2) by (simp add: unat_minus_one)
    from Cons.IH [OF _ this more(2)] show ?thesis
      using Cons.prems(1) more(1) by (simp add: run_txns_def t algebra_simps)
  qed
qed

text \<open>Once gone, a row stays away until it is written again.\<close>

lemma row_stays_away:
  assumes "list_all (leaves_alone eid) ts" "map_of (tb_refcount s) eid = None" "map_of (tb_events s) eid = None"
  shows "map_of (tb_refcount (run_txns C ts s)) eid = None \<and> map_of (tb_events (run_txns C ts s)) eid = None"
  using assms
proof (induction ts arbitrary: s)
  case Nil
  then show ?case by (simp add: run_txns_def)
next
  case (Cons t ts)
  have "map_of (tb_refcount (run_txn C t s)) eid = None \<and> map_of (tb_events (run_txn C t s)) eid = None"
  proof (cases "is_ack_of eid t")
    case True
    then obtain ok where t: "t = Acknowledge eid ok" by (rule is_ack_ofE)
    show ?thesis using Cons.prems(2,3) by (simp add: t ack_store_def)
  next
    case False
    then show ?thesis using Cons.prems other_txn [of eid t C s] by simp
  qed
  then show ?case
    using Cons.IH [of "run_txn C t s"] Cons.prems(1) by (simp add: run_txns_def)
qed

lemma last_ack:
  assumes "map_of (tb_refcount s) eid = Some n" "unat n = 1" "map_of (tb_events s) eid = Some bs"
  shows "map_of (tb_events (ack_store eid ok s)) eid = None \<and>
    map_of (tb_refcount (ack_store eid ok s)) eid = None \<and>
    map_of (tb_dlq (ack_store eid ok s)) eid = (if ok then map_of (tb_dlq s) eid else Some bs)"
  using ack_store_last [OF assms(1), of ok] assms(2,3) by simp

lemma count_down_to_one:
  fixes n :: u32
  assumes "k + 1 = unat n"
  shows "unat (n - of_nat k) = 1"
proof -
  have k: "unat (of_nat k :: u32) = k"
    using assms unat_u32_less [of n] by (simp add: unat_of_nat)
  then have "of_nat k \<le> n" using assms by (simp add: word_le_nat_alt)
  then show ?thesis using k assms by (simp add: unat_sub)
qed

section \<open>Properties\<close>


definition one_event_store :: redb_store where
  "one_event_store = store_empty\<lparr>tb_events := [(7, [1, 2])], tb_refcount := [(7, 2)]\<rparr>"

definition other_row :: redb_insert where
  "other_row =
     \<lparr>ri_id = 8, ri_sub_count = 1, ri_scheduled = False, ri_deliver_at_ms = 0, ri_bytes = [3], ri_key = None\<rparr>"

definition mixed_txns :: "store_txn list" where
  "mixed_txns = [Write_Batch [other_row], Acknowledge 7 False, Acknowledge 8 True, Pull_Due 5]"



section \<open>The tasks and their transactions\<close>

text \<open>Every step of the dispatcher and of the tasks around it; the manager may change in any way
  meanwhile (subscriptions, handlers, acknowledgements).\<close>

inductive redb_step ::
    "pe_codec \<Rightarrow> ('v, 'w) redb_dispatcher \<Rightarrow> ('v, 'w) redb_dispatcher \<Rightarrow> bool" for C where
  starts: "rd_start d = Done (r, d') \<Longrightarrow> redb_step C d d'"
| dispatches: "rd_dispatch d env = (p, d') \<Longrightarrow> redb_step C d d'"
| try_dispatches: "rd_try_dispatch d env = (t, d') \<Longrightarrow> redb_step C d d'"
| takes_batch: "rd_take_batch C now res d = Some d' \<Longrightarrow> redb_step C d d'"
| dispatches_next: "rd_dispatch_next now us d = Some d' \<Longrightarrow> redb_step C d d'"
| worker_polls: "rd_worker_poll us d = Some d' \<Longrightarrow> redb_step C d d'"
| worker_times_out: "rd_worker_timeout d = Some d' \<Longrightarrow> redb_step C d d'"
| worker_ends: "rd_worker_end d = Some d' \<Longrightarrow> redb_step C d d'"
| ticks: "rd_scheduler_tick C now ok d = Some d' \<Longrightarrow> redb_step C d d'"
| scheduler_sends: "rd_scheduler_send d = Some d' \<Longrightarrow> redb_step C d d'"
| replays_dlq: "rd_replay_dlq C e d = (n, d') \<Longrightarrow> redb_step C d d'"
| replay_begins: "rd_replay_begin C e d = Inr d' \<Longrightarrow> redb_step C d d'"
| replay_sends: "rd_replay_send d = Some d' \<Longrightarrow> redb_step C d d'"
| replay_ends: "rd_replay_finish ok d = Some d' \<Longrightarrow> redb_step C d d'"
| stops: "redb_step C d (rd_stop_begin d)"
| shuts_down: "redb_step C d (rd_shutdown_begin d)"
| shutdown_ends: "rd_shutdown_finish d = Some (r, d') \<Longrightarrow> redb_step C d d'"
| acknowledges: "ack_worker_step ok (sh_registry (m_shared (rd_manager d)), rd_store d) = Some (reg, st) \<Longrightarrow>
     redb_step C d (d\<lparr>rd_store := st, rd_manager := (rd_manager d)
       \<lparr>m_shared := (m_shared (rd_manager d))\<lparr>sh_registry := reg\<rparr>\<rparr>\<rparr>)"
| manager_moves: "redb_step C d (d\<lparr>rd_manager := m\<rparr>)"

inductive redb_reach ::
    "pe_codec \<Rightarrow> ('v, 'w) redb_dispatcher \<Rightarrow> ('v, 'w) redb_dispatcher \<Rightarrow> bool" for C d0 where
  start: "redb_reach C d0 d0"
| step: "redb_reach C d0 d \<Longrightarrow> redb_step C d d' \<Longrightarrow> redb_reach C d0 d'"

section \<open>Well-formed databases\<close>

text \<open>A row holds the encoding of an envelope and is filed under its event id.\<close>

definition row_ok :: "pe_codec \<Rightarrow> u128 \<Rightarrow> bytes \<Rightarrow> bool" where
  "row_ok C i bs \<longleftrightarrow> (\<exists>pe. pe_encode C pe = Inr bs \<and> event_id (pe_metadata pe) = i)"

definition store_wf :: "pe_codec \<Rightarrow> redb_store \<Rightarrow> bool" where
  "store_wf C s \<longleftrightarrow>
     (\<forall>i. map_of (tb_events s) i = None \<longleftrightarrow> map_of (tb_refcount s) i = None) \<and>
     (\<forall>i n. map_of (tb_refcount s) i = Some n \<longrightarrow> n \<noteq> 0) \<and>
     (\<forall>i bs. map_of (tb_events s) i = Some bs \<longrightarrow> row_ok C i bs) \<and>
     (\<forall>i bs. map_of (tb_dlq s) i = Some bs \<longrightarrow> row_ok C i bs) \<and>
     (\<forall>ts i bs. map_of (tb_scheduled s) (ts, i) = Some bs \<longrightarrow> row_ok C i bs)"

fun txn_ok :: "pe_codec \<Rightarrow> store_txn \<Rightarrow> bool" where
  "txn_ok C (Write_Batch is) \<longleftrightarrow> (\<forall>i\<in>set is. ri_sub_count i \<noteq> 0 \<and> row_ok C (ri_id i) (ri_bytes i))"
| "txn_ok C _ \<longleftrightarrow> True"

lemma store_wf_empty: "store_wf C store_empty"
  by (simp add: store_wf_def store_empty_def)

lemma store_wf_insert:
  "store_wf C s \<Longrightarrow> ri_sub_count i \<noteq> 0 \<Longrightarrow> row_ok C (ri_id i) (ri_bytes i) \<Longrightarrow> store_wf C (apply_insert i s)"
  by (auto simp: store_wf_def)

lemma store_wf_inserts:
  "store_wf C s \<Longrightarrow> (\<forall>i\<in>set is. ri_sub_count i \<noteq> 0 \<and> row_ok C (ri_id i) (ri_bytes i)) \<Longrightarrow>
     store_wf C (apply_inserts is s)"
  by (induction "is" arbitrary: s) (simp_all add: apply_inserts_def store_wf_insert)

lemma store_wf_ack:
  assumes "store_wf C s"
  shows "store_wf C (ack_store eid ok s)"
proof (cases "map_of (tb_refcount s) eid")
  case None
  then show ?thesis using assms by (simp add: ack_store_def)
next
  case (Some n)
  show ?thesis
  proof (cases "n \<le> 1")
    case True
    have tables: "map_of (tb_events (ack_store eid ok s)) = (map_of (tb_events s))(eid := None)"
      "map_of (tb_refcount (ack_store eid ok s)) = (map_of (tb_refcount s))(eid := None)"
      "tb_scheduled (ack_store eid ok s) = tb_scheduled s"
      "map_of (tb_dlq (ack_store eid ok s)) = (map_of (tb_dlq s))(eid :=
         (if ok then map_of (tb_dlq s) eid
          else case map_of (tb_events s) eid of Some bs \<Rightarrow> Some bs | None \<Rightarrow> map_of (tb_dlq s) eid))"
      using Some True by (auto simp: ack_store_def Let_def split: option.split)
    show ?thesis
      using assms unfolding store_wf_def tables by (auto split: option.splits if_splits)
  next
    case False
    then have tables: "ack_store eid ok s = s\<lparr>tb_refcount := mput eid (n - 1) (tb_refcount s)\<rparr>" "n - 1 \<noteq> 0"
      using Some by (auto simp: ack_store_def)
    have "map_of (tb_events s) eid \<noteq> None"
      using assms Some by (simp add: store_wf_def)
    then show ?thesis
      using assms tables Some by (auto simp: store_wf_def)
  qed
qed

lemma store_wf_removals:
  assumes "store_wf C s"
  shows "store_wf C (take_dead_letters C s)" "store_wf C (collect_garbage dead s)"
    "store_wf C (snd (pull_due C now_ms s))"
  using assms
  by (simp_all add: store_wf_def take_dead_letters_def map_of_fold_mdel pull_due_def Let_def removed_rows)

lemma store_wf_txn: "store_wf C s \<Longrightarrow> txn_ok C t \<Longrightarrow> store_wf C (run_txn C t s)"
  by (cases t) (simp_all add: store_wf_inserts store_wf_ack store_wf_removals)


lemma prepared_rows_ok:
  "\<forall>i\<in>set (fst (prepare_inserts C now m msgs)). ri_sub_count i \<noteq> 0 \<and> row_ok C (ri_id i) (ri_bytes i)"
proof (induction msgs)
  case Nil
  then show ?case by simp
next
  case (Cons msg msgs)
  have "row_ok C (env_event_id env) bs"
    if "to_persisted env = Inr pe" "pe_encode C pe = Inr bs" for env :: "'a envelope" and pe bs
    using that persisted_fields [OF that(1)] by (auto simp: row_ok_def env_event_id_def)
  then show ?case
    using Cons by (auto simp: Let_def split_beta split: sum.splits)
qed

text \<open>Each step leaves the database alone or runs one transaction on it.\<close>

lemma redb_step_store:
  "redb_step C d d' \<Longrightarrow>
     rd_store d' = rd_store d \<or> (\<exists>t. txn_ok C t \<and> rd_store d' = run_txn C t (rd_store d))"
proof (induction rule: redb_step.induct)
  case (takes_batch now res d d')
  let ?rows = "\<lambda>valid. fst (prepare_inserts C now (rd_manager d) valid)"
  have "rd_store d' = rd_store d \<or> (\<exists>valid. rd_store d' = apply_inserts (?rows valid) (rd_store d))"
    using takes_batch
    by (auto simp: rd_take_batch_def Let_def split_beta split: if_splits persist_outcome.splits)
  then show ?case
    using prepared_rows_ok [of C now "rd_manager d"] by (metis run_txn.simps(1) txn_ok.simps(1))
next
  case (ticks now ok d d')
  have "rd_store d' = rd_store d \<or> rd_store d' = run_txn C (Pull_Due (timestamp_millis now)) (rd_store d)"
    using ticks by (auto simp: rd_scheduler_tick_def Let_def split_beta split: if_splits)
  then show ?case using txn_ok.simps(3) by blast
next
  case (replays_dlq e d n d')
  have "rd_store d' = rd_store d \<or> rd_store d' = run_txn C Take_Dead_Letters (rd_store d)"
    using replays_dlq by (auto simp: rd_replay_dlq_def Let_def split: if_splits option.splits)
  then show ?case using txn_ok.simps(4) by blast
next
  case (replay_ends ok d d')
  have "rd_store d' = rd_store d \<or> rd_store d' = run_txn C (Collect_Garbage (rd_dead d)) (rd_store d)"
    using replay_ends by (auto simp: rd_replay_finish_def Let_def split: if_splits)
  then show ?case using txn_ok.simps(5) by blast
next
  case (acknowledges ok d reg st)
  have "st = rd_store d \<or> (\<exists>i b. st = run_txn C (Acknowledge i b) (rd_store d))"
    using acknowledges
    by (cases "rr_acks (sh_registry (m_shared (rd_manager d)))") (fastforce simp: ack_worker_step_def)+
  then have "st = rd_store d \<or> (\<exists>t. txn_ok C t \<and> st = run_txn C t (rd_store d))"
    by (metis txn_ok.simps(2))
  then show ?case by simp
qed (auto simp: rd_start_def rd_dispatch_def rd_try_dispatch_def rd_record_queue_size_def
    rd_dispatch_next_def rd_worker_poll_def rd_count_success_def rd_worker_timeout_def rd_worker_end_def
    rd_scheduler_send_def rd_replay_begin_def rd_replay_send_def rd_stop_begin_def rd_shutdown_begin_def
    rd_shutdown_finish_def Let_def split_beta
    split: if_splits option.splits list.splits poll.splits prod.splits send_result.splits)

lemma redb_reach_wf: "redb_reach C d0 d \<Longrightarrow> store_wf C (rd_store d0) \<Longrightarrow> store_wf C (rd_store d)"
  by (induction rule: redb_reach.induct) (auto dest!: redb_step_store intro: store_wf_txn)




section \<open>Whose acknowledgements the count waits for\<close>

text \<open>The subscriptions counted when an event is written, and the ones it is sent to.\<close>

lemma needed_acks_count:
  assumes "registry_inv (rr_inner (sh_registry (m_shared m)))"
  shows "needed_acks m env = of_nat (card {i. \<exists>e. live (rr_inner (sh_registry (m_shared m))) i = Some (env_type_id env, e)})"
  by (simp add: needed_acks_def subscription_count_live [OF assms] Let_def split: option.split)

lemma finite_subscriptions:
  assumes "registry_inv r"
  shows "finite {i. \<exists>e. live r i = Some (t, e)}"
proof -
  have "{i. \<exists>e. live r i = Some (t, e)} \<subseteq> set (map sub_id (entries r t))"
    using assms live_iff [of r] by (auto simp: registry_inv_def)
  then show ?thesis by (rule finite_subset) simp
qed

lemma redb_targets_distinct:
  assumes "registry_inv (rr_inner (sh_registry (m_shared m)))"
  shows "distinct (dispatch_targets redb_vtable m env)"
  unfolding dispatch_targets_def matching_subscriptions_def
  by (intro distinct_map_filter add_topic_subs_distinct)
    (simp add: distinct_map_filter distinct_get_subscriptions [OF assms])

lemma ack_run_removes_iff:
  assumes "map_of (tb_refcount s) eid = Some n" "map_of (tb_events s) eid = Some bs" "0 < unat n"
    and "length oks \<le> unat n"
  shows "map_of (tb_events (ack_run eid oks s)) eid = None \<longleftrightarrow> length oks = unat n"
  using ack_run_short [OF assms(1), of oks] ack_run_full [OF assms(1) _ assms(3,2), of oks] assms(2,4)
  by (cases "length oks = unat n") auto

text \<open>
  C15: when a durable event is over. It is written with the number of all subscriptions of its type, but
  sent only to those of them that are active, have no topic, pass their filter and have a task: when
  each of these has passed its verdict, the row is gone if and only if there is no other subscription of
  the type. With a single filtered, topic or inactive one the row stays for good, and the event is sent
  again to the others at every replay.
\<close>

theorem row_removed_iff:
  assumes "registry_inv (rr_inner (sh_registry (m_shared m)))"
    and "card {i. \<exists>e. live (rr_inner (sh_registry (m_shared m))) i = Some (env_type_id env, e)} < 2 ^ 32"
    and "{i. \<exists>e. live (rr_inner (sh_registry (m_shared m))) i = Some (env_type_id env, e)} \<noteq> {}"
    and "map_of (tb_refcount s) (env_event_id env) = Some (needed_acks m env)"
    and "map_of (tb_events s) (env_event_id env) = Some bs"
    and "length verdicts = length (dispatch_targets redb_vtable m env)"
  shows "map_of (tb_events (ack_run (env_event_id env) verdicts s)) (env_event_id env) = None \<longleftrightarrow>
    (\<forall>i e. live (rr_inner (sh_registry (m_shared m))) i = Some (env_type_id env, e) \<longrightarrow>
       active e \<and> sub_topic e = None \<and> passes_filter env e \<and> map_of (m_subscriptions m) i \<noteq> None)"
proof -
  let ?r = "rr_inner (sh_registry (m_shared m))"
  let ?all = "{i. \<exists>e. live ?r i = Some (env_type_id env, e)}"
  let ?targets = "set (dispatch_targets redb_vtable m env)"
  have fin: "finite ?all" by (rule finite_subscriptions [OF assms(1)])
  have n: "unat (needed_acks m env) = card ?all"
    using assms(2) by (simp add: needed_acks_count [OF assms(1)] unat_of_nat)
  have sub: "?targets \<subseteq> ?all" using redb_targets [OF assms(1)] by auto
  have "length verdicts = card ?targets" 
    using assms(6) redb_targets_distinct [OF assms(1)] by (simp add: distinct_card)
  moreover have "0 < card ?all" using fin assms(3) by (simp add: card_gt_0_iff)
  ultimately have "map_of (tb_events (ack_run (env_event_id env) verdicts s)) (env_event_id env) = None \<longleftrightarrow>
      card ?targets = card ?all"
    using ack_run_removes_iff [OF assms(4,5), of verdicts] card_mono [OF fin sub] n by simp
  also have "\<dots> \<longleftrightarrow> ?all \<subseteq> ?targets" using card_subset_eq [OF fin sub] sub by auto
  also have "\<dots> \<longleftrightarrow> (\<forall>i e. live ?r i = Some (env_type_id env, e) \<longrightarrow>
      active e \<and> sub_topic e = None \<and> passes_filter env e \<and> map_of (m_subscriptions m) i \<noteq> None)"
    using redb_targets [OF assms(1), of _ env] by (auto simp: subset_iff)
  finally show ?thesis .
qed


definition filtered_ops :: "nat reg_op list" where
  "filtered_ops =
     [OpRegister 5 ''Echo'' (entry_new 1), OpRegister 5 ''Echo'' (with_filter (entry_new 2) (\<lambda>_. False))]"

definition filtered_manager :: "(nat redb_registry, nat, nat) manager" where
  "filtered_manager =
     (manager_with_channel_size (redb_registry_new (reg_run filtered_ops)) 0 3 100 2)
       \<lparr>m_subscriptions := m_subscriptions echo_manager\<rparr>"

lemma filtered_registry:
  "registry_inv (reg_run filtered_ops)"
  "live (reg_run filtered_ops) = [1 \<mapsto> (5, entry_new 1), 2 \<mapsto> (5, with_filter (entry_new 2) (\<lambda>_. False))]"
  using reg_run_refines [of filtered_ops]
  by (simp_all add: filtered_ops_def ops_ok_def map_run_def)

theorem row_removed_iff_witness:
  "map_of (tb_events (ack_run 77 [True] (store_empty\<lparr>tb_events := [(77, [4])], tb_refcount := [(77, 2)]\<rparr>))) 77
     \<noteq> None"
proof -
  let ?e = "echo_env 4" and ?m = filtered_manager
  let ?s = "store_empty\<lparr>tb_events := [(77, [4])], tb_refcount := [(77, 2)]\<rparr>"
  have r: "rr_inner (sh_registry (m_shared ?m)) = reg_run filtered_ops"
      "m_subscriptions ?m = m_subscriptions echo_manager"
    by (simp_all add: filtered_manager_def manager_with_channel_size_def redb_registry_new_def)
  have e: "env_type_id ?e = 5" "env_event_id ?e = 77"
    by (simp_all add: echo_env_def envelope_new_def echo_ty_def metadata_new_def)
  have "{i. \<exists>e. live (reg_run filtered_ops) i = Some (5, e)} = {1, 2}"
    by (auto simp: filtered_registry split: if_splits)
  note all = this
  have inv: "registry_inv (rr_inner (sh_registry (m_shared ?m)))" by (simp add: r filtered_registry)
  have needed: "needed_acks ?m ?e = 2" by (simp add: needed_acks_count [OF inv] r e all)
  have "set (dispatch_targets redb_vtable ?m ?e) = {1}"
    using redb_targets [OF inv, of _ ?e] by (auto simp: r e filtered_registry passes_filter_def split: if_splits)
  moreover have "distinct (dispatch_targets redb_vtable ?m ?e)"
    using redb_targets_distinct [OF inv] .
  ultimately have "length (dispatch_targets redb_vtable ?m ?e) = 1"
    using distinct_card by fastforce
  note hyps = this
  have "live (rr_inner (sh_registry (m_shared ?m))) 2 = Some (env_type_id ?e, with_filter (entry_new 2) (\<lambda>_. False))"
    by (simp add: r e filtered_registry)
  moreover have "\<not> passes_filter ?e (with_filter (entry_new 2) (\<lambda>_. False))"
    by (simp add: passes_filter_def)
  moreover have "map_of (tb_refcount ?s) (env_event_id ?e) = Some (needed_acks ?m ?e)"
      "map_of (tb_events ?s) (env_event_id ?e) = Some [4]"
      "length [True] = length (dispatch_targets redb_vtable ?m ?e)"
    by (simp_all add: e needed hyps)
  note row_removed_iff [OF inv _ _ this]
  moreover have "card {i. \<exists>e'. live (rr_inner (sh_registry (m_shared ?m))) i = Some (env_type_id ?e, e')} < 2 ^ 32"
      "{i. \<exists>e'. live (rr_inner (sh_registry (m_shared ?m))) i = Some (env_type_id ?e, e')} \<noteq> {}"
    unfolding r e all by simp_all
  ultimately show ?thesis unfolding e by blast
qed

end
