(* ===== verification/Derive.thy ===== *)
theory Derive
  imports Envelope
begin

text \<open>
  The derive macros (src/tokio-events-macros/src/lib.rs): what they read from the attributes of a type,
  what they check, and the \<open>Event\<close> implementation they generate. Beside it the implementations written
  out in src/src/event/mod.rs, the broadcast event and the JSON helpers. The coders of serde_json and
  prost for the type are a parameter.
\<close>

section \<open>Deriving \<open>Remote\<close> and \<open>Event\<close>\<close>

text \<open>
  An attribute is its path and its list of nested items, each a path and a value: absent, a string
  literal, or something else. The parser stops at the first item it does not accept, and the macros
  drop its error; what was read before counts.
\<close>

datatype meta_value = NoValue | StrLit string | OtherValue

type_synonym attribute = "string \<times> (string \<times> meta_value) list"

fun parse_nested :: "(string \<Rightarrow> string \<Rightarrow> 's \<Rightarrow> 's option) \<Rightarrow> (string \<times> meta_value) list \<Rightarrow> 's \<Rightarrow> 's" where
  "parse_nested accept [] s = s"
| "parse_nested accept ((k, StrLit l) # items) s =
     (case accept k l s of Some s' \<Rightarrow> parse_nested accept items s' | None \<Rightarrow> s)"
| "parse_nested accept ((k, v) # items) s = s"

definition event_item :: "string \<Rightarrow> string \<Rightarrow> string option \<times> string \<Rightarrow> (string option \<times> string) option" where
  "event_item k l s =
     (if k = ''event_type'' then Some (Some l, snd s)
      else if k = ''format'' then Some (fst s, l) else None)"

text \<open>The name of the event type and whether its codec is protobuf.\<close>

definition derive_event :: "string \<Rightarrow> string \<Rightarrow> attribute list \<Rightarrow> string \<times> bool" where
  "derive_event module_path name attrs =
     (let (event_type, format) =
            fold (\<lambda>(p, items) s. if p = ''event'' then parse_nested event_item items s else s)
              attrs (None, ''json'')
      in (case event_type of Some v \<Rightarrow> v | None \<Rightarrow> module_path @ ''::'' @ name, format = ''protobuf''))"

definition remote_item :: "string \<Rightarrow> string \<Rightarrow> string option \<Rightarrow> string option option" where
  "remote_item k l s = (if k = ''topic'' then Some (Some l) else None)"

text \<open>The topic, or the message of the compile error.\<close>

definition derive_remote :: "attribute list \<Rightarrow> string + string" where
  "derive_remote attrs =
     (case fold (\<lambda>(p, items) s. if p = ''remote'' then parse_nested remote_item items s else s) attrs None of
        None \<Rightarrow> Inl ''tokio_events: #[remote(topic = \"...\")] attribute is required''
      | Some t \<Rightarrow>
          if length (filter (\<lambda>s. s \<noteq> []) (split_on dot t)) < 3
          then Inl (''tokio_events: remote topic must contain at least 3 dot-separated segments (e.g., domain.service.event). Found: '' @ [CHR 0x27] @ t @ [CHR 0x27])
          else Inr t)"

section \<open>Generated and written out implementations\<close>

text \<open>The coders of a type; an error is its message.\<close>

record 'v coders =
  json_to_vec :: "'v \<Rightarrow> string + bytes"
  json_from_slice :: "bytes \<Rightarrow> string + 'v"
  proto_encode :: "'v \<Rightarrow> string + bytes"
  proto_decode :: "bytes \<Rightarrow> string + 'v"
  json_to_string :: "'v \<Rightarrow> string + string"
  json_from_str :: "string \<Rightarrow> string + 'v"

definition or_serialization_error :: "string + 'a \<Rightarrow> 'a result" where
  "or_serialization_error r = map_sum SerializationError id r"

definition generated_event ::
    "type_id \<Rightarrow> 'v coders \<Rightarrow> string \<Rightarrow> string \<Rightarrow> attribute list \<Rightarrow> 'v event_ty" where
  "generated_event tid C module_path name attrs =
     (let (event_type, protobuf) = derive_event module_path name attrs
      in \<lparr>ty_of = tid, ty_type_id = tid, ty_name = event_type,
          serialize_event = (\<lambda>v. or_serialization_error (if protobuf then proto_encode C v else json_to_vec C v)),
          deserialize_event =
            (\<lambda>bs. or_serialization_error (if protobuf then proto_decode C bs else json_from_slice C bs))\<rparr>)"

definition broadcast_event :: "type_id \<Rightarrow> 'v coders \<Rightarrow> 'v event_ty" where
  "broadcast_event tid C =
     \<lparr>ty_of = tid, ty_type_id = tid, ty_name = ''BroadcastEvent'',
      serialize_event = (\<lambda>v. or_serialization_error (json_to_vec C v)),
      deserialize_event = (\<lambda>bs. or_serialization_error (json_from_slice C bs))\<rparr>"

definition to_json :: "'v coders \<Rightarrow> 'v \<Rightarrow> string result" where
  "to_json C v = or_serialization_error (json_to_string C v)"

definition from_json :: "'v coders \<Rightarrow> string \<Rightarrow> 'v result" where
  "from_json C s = or_serialization_error (json_from_str C s)"

section \<open>Facts\<close>

text \<open>What the macro accepts has three non-empty segments; empty ones and wildcards pass too.\<close>

lemma derive_remote_segments:
  "derive_remote attrs = Inr t \<Longrightarrow> 3 \<le> length (filter (\<lambda>s. s \<noteq> []) (split_on dot t))"
  by (auto simp: derive_remote_def split: option.splits if_splits)

text \<open>A misspelt item is dropped with everything after it.\<close>

lemma misspelt_items_ignored:
  "k \<notin> {''event_type'', ''format''} \<Longrightarrow>
     derive_event path name [(''event'', (k, v) # items)] = derive_event path name []"
  by (cases v) (simp_all add: derive_event_def event_item_def)

text \<open>A derived event survives disk and network when its coders are inverse to each other there.\<close>

definition coders_ok :: "'v coders \<Rightarrow> 'v \<Rightarrow> bool" where
  "coders_ok C v \<longleftrightarrow>
     (\<exists>bs. json_to_vec C v = Inr bs \<and> json_from_slice C bs = Inr v) \<and>
     (\<exists>bs. proto_encode C v = Inr bs \<and> proto_decode C bs = Inr v)"

lemma generated_event_reloads:
  "coders_ok C v \<Longrightarrow> persist_and_reload (generated_event tid C path name attrs) v m = Inr v"
  by (rule persist_and_reload_ok)
    (auto simp: coders_ok_def codec_ok_def generated_event_def or_serialization_error_def
      default_type_id_def event_type_id_def split_beta)

lemma broadcast_event_reloads:
  "coders_ok C v \<Longrightarrow> persist_and_reload (broadcast_event tid C) v m = Inr v"
  by (rule persist_and_reload_ok)
    (auto simp: coders_ok_def codec_ok_def broadcast_event_def or_serialization_error_def
      default_type_id_def event_type_id_def)

text \<open>A coder's error reaches the caller as a serialisation error.\<close>

lemma generated_event_error:
  "json_to_vec C v = Inl e \<Longrightarrow>
     into_bytes (with_metadata (generated_event tid C path name []) v m) = Inl (SerializationError e)"
  by (simp add: generated_event_def derive_event_def or_serialization_error_def)

end
