(* ===== verification/Remote_Consumer.thy ===== *)
theory Remote_Consumer
  imports Remote Derive Bus_Properties
begin

text \<open>
  The inbound side of a remote subscription: the streams that the NATS transport builds from those of
  the client (\<open>subscribe\<close> in src/src/remote/nats.rs), and the task that reads them (\<open>subscribe_remote\<close>
  in src/src/bus/mod.rs). A message of the client is its payload and a number the broker knows it by;
  the call that acknowledges it is a parameter.
\<close>

section \<open>Streams\<close>

record nats_message =
  nm_number :: nat
  nm_payload :: bytes

text \<open>An item of the stream is a payload and the acknowledgement channel: what a task does once the
  sender is used, an acknowledgement to the broker for JetStream, nothing for core NATS.\<close>

type_synonym inbound_item = "bytes \<times> nats_message option"

definition jetstream_items :: "(string + nats_message) list \<Rightarrow> inbound_item list" where
  "jetstream_items items =
     List.map_filter
       (\<lambda>res. case res of Inr msg \<Rightarrow> Some (nm_payload msg, Some msg) | Inl e \<Rightarrow> None) items"

definition core_items :: "nats_message list \<Rightarrow> inbound_item list" where
  "core_items msgs = map (\<lambda>msg. (nm_payload msg, None)) msgs"

text \<open>The task behind the acknowledgement channel; a failed acknowledgement is logged.\<close>

definition ack_task ::
    "(nats_message \<Rightarrow> 'x call) \<Rightarrow> nats_message option \<Rightarrow> bool \<Rightarrow> 'x \<Rightarrow> 'x" where
  "ack_task ack a was_sent w =
     (case a of None \<Rightarrow> w | Some msg \<Rightarrow> if was_sent then snd (ack msg w) else w)"

section \<open>The consumer loop\<close>

text \<open>One message: routed or dead-lettered, then acknowledged. The loop waits while the publication
  or the dead letter queue does.\<close>

definition consumer_step ::
    "('d, 'r, 'v, 'w) bus_parts \<Rightarrow> 'v event_ty \<Rightarrow> 'v event_ty \<Rightarrow> 'v \<Rightarrow> (nats_message \<Rightarrow> 'x call) \<Rightarrow>
       uuid \<Rightarrow> datetime \<Rightarrow> inbound_item \<Rightarrow> ('d, 'x) event_bus \<Rightarrow> ('d, 'x) event_bus option" where
  "consumer_step P T B pill ack fresh now item b =
     (case remote_inbound P T B pill fresh now (fst item) b of
        (Pending, _) \<Rightarrow> None
      | (Ready acked, b') \<Rightarrow>
          Some (b'\<lparr>bus_world := ack_task ack (snd item) acked (bus_world b')\<rparr>))"

text \<open>The loop over a stream that ends, with the ids and times its publications get.\<close>

fun consumer_run ::
    "('d, 'r, 'v, 'w) bus_parts \<Rightarrow> 'v event_ty \<Rightarrow> 'v event_ty \<Rightarrow> 'v \<Rightarrow> (nats_message \<Rightarrow> 'x call) \<Rightarrow>
       (nat \<Rightarrow> uuid \<times> datetime) \<Rightarrow> nat \<Rightarrow> inbound_item list \<Rightarrow> ('d, 'x) event_bus \<Rightarrow>
       ('d, 'x) event_bus option" where
  "consumer_run P T B pill ack ids n [] b = Some b"
| "consumer_run P T B pill ack ids n (item # items) b =
     (case consumer_step P T B pill ack (fst (ids n)) (snd (ids n)) item b of
        None \<Rightarrow> None
      | Some b' \<Rightarrow> consumer_run P T B pill ack ids (Suc n) items b')"

section \<open>Facts\<close>

text \<open>The messages that arrived, and what the broker hears of them.\<close>

definition arrived :: "(string + nats_message) list \<Rightarrow> nats_message list" where
  "arrived items = List.map_filter (\<lambda>res. case res of Inr msg \<Rightarrow> Some msg | Inl e \<Rightarrow> None) items"

definition broker_hears :: "(nats_message \<Rightarrow> 'x call) \<Rightarrow> nats_message list \<Rightarrow> 'x \<Rightarrow> 'x" where
  "broker_hears ack msgs w = fold (\<lambda>msg w. snd (ack msg w)) msgs w"

lemma jetstream_simps [simp]:
  "jetstream_items [] = []" "arrived [] = []"
  "jetstream_items (Inl e # items) = jetstream_items items" "arrived (Inl e # items) = arrived items"
  "jetstream_items (Inr msg # items) = (nm_payload msg, Some msg) # jetstream_items items"
  "arrived (Inr msg # items) = msg # arrived items"
  by (simp_all add: jetstream_items_def arrived_def map_filter_simps)

lemma publish_world: "bus_world (snd (publish P T v fresh now b)) = bus_world b"
proof -
  have "bus_world (snd (publish_under_lock P now env b)) = bus_world b" for env
    by (simp add: publish_under_lock_def Let_def split_beta)
  then show ?thesis
    by (simp add: publish_def publish_with_metadata_def split_beta split: poll.split sum.split)
qed

lemma inbound_world: "bus_world (snd (remote_inbound P T B pill fresh now bs b)) = bus_world b"
  using publish_world [of P T _ fresh now b]
  by (auto simp: remote_inbound_def Let_def split: sum.split prod.split poll.split option.split)
    (metis snd_conv)+

lemma consumer_step_world:
  assumes "consumer_step P T B pill ack fresh now (bs, a) b = Some b'"
  shows "bus_world b' = ack_task ack a True (bus_world b)"
proof -
  obtain acked b1 where step: "remote_inbound P T B pill fresh now bs b = (Ready acked, b1)"
      "b' = b1\<lparr>bus_world := ack_task ack a acked (bus_world b1)\<rparr>"
    using assms by (auto simp: consumer_step_def split: prod.splits poll.splits)
  then show ?thesis
    using inbound_acknowledged [OF step(1)] inbound_world [of P T B pill fresh now bs b] by simp
qed

lemma consumer_run_world:
  "consumer_run P T B pill ack ids n (jetstream_items items) b = Some b' \<Longrightarrow>
     bus_world b' = broker_hears ack (arrived items) (bus_world b)"
proof (induction items arbitrary: n b)
  case Nil
  then show ?case by (simp add: broker_hears_def)
next
  case (Cons item items)
  then show ?case
    by (cases item)
      (auto simp: broker_hears_def ack_task_def dest!: consumer_step_world split: option.splits)
qed

lemma core_run_world:
  "consumer_run P T B pill ack ids n (core_items msgs) b = Some b' \<Longrightarrow> bus_world b' = bus_world b"
proof (induction msgs arbitrary: n b)
  case Nil
  then show ?case by (simp add: core_items_def)
next
  case (Cons msg msgs)
  then show ?case
    by (auto simp: core_items_def ack_task_def dest!: consumer_step_world split: option.splits)
qed

text \<open>On a bus that no longer runs the loop never waits and routes nothing.\<close>

lemma consumer_run_stopped:
  assumes "bus_state b \<noteq> Running"
    and "list_all (\<lambda>msg. \<exists>v. deserialize_event T (nm_payload msg) = Inr v) (arrived items)"
  shows "consumer_run P T B pill ack ids n (jetstream_items items) b =
    Some (b\<lparr>bus_world := broker_hears ack (arrived items) (bus_world b)\<rparr>)"
  using assms
proof (induction items arbitrary: n b)
  case Nil
  then show ?case by (simp add: broker_hears_def)
next
  case (Cons item items)
  show ?case
  proof (cases item)
    case (Inl e)
    then show ?thesis using Cons by simp
  next
    case (Inr msg)
    then obtain v where v: "deserialize_event T (nm_payload msg) = Inr v" using Cons.prems(2) by auto
    let ?b = "b\<lparr>bus_world := snd (ack msg (bus_world b))\<rparr>"
    have "consumer_step P T B pill ack (fst (ids n)) (snd (ids n)) (nm_payload msg, Some msg) b = Some ?b"
      using v Cons.prems(1)
      by (simp add: consumer_step_def remote_inbound_def publish_def publish_not_running ack_task_def)
    moreover have "bus_state ?b \<noteq> Running" using Cons.prems(1) by (simp add: bus_state_def)
    ultimately show ?thesis
      using Cons.IH [of ?b "Suc n"] Cons.prems(2) Inr by (simp add: broker_hears_def)
  qed
qed

section \<open>Properties\<close>


definition sample_messages :: "(string + nats_message) list" where
  "sample_messages =
     [Inr \<lparr>nm_number = 3, nm_payload = [7]\<rparr>, Inl ''lagged'', Inr \<lparr>nm_number = 4, nm_payload = [8]\<rparr>]"

definition note_ack :: "nats_message \<Rightarrow> nat call" where
  "note_ack msg w = (Inr (), 10 * w + nm_number msg)"


end
