(* ===== verification/Crashed_Tasks.thy ===== *)
theory Crashed_Tasks
  imports Manager_Invariant Task_Steps
begin

text \<open>
  What a handler task that died leaves behind (src/src/subscription/mod.rs): the task tells the manager
  that it is gone only at the end of its loop, so that one that panics, in its handler or in the
  arithmetic of its retries, stays in the map of tasks and in the registry.
\<close>

section \<open>Crashed subscriptions\<close>

text \<open>A subscription whose task has ended without having asked for its removal.\<close>

definition crashed :: "('r, 'v, 'w) manager \<Rightarrow> uuid \<Rightarrow> bool" where
  "crashed m i \<longleftrightarrow>
     (case map_of (m_subscriptions m) i of Some t \<Rightarrow> \<not> task_running t | None \<Rightarrow> False) \<and>
     i \<notin> set (m_unsub_queue m)"

text \<open>The steps of a manager on which nobody calls \<open>unsubscribe\<close> for the id.\<close>

inductive steps_without ::
    "('r, 'v) registry_vtable \<Rightarrow> ('r \<Rightarrow> uuid \<Rightarrow> bool) \<Rightarrow> (string \<Rightarrow> bool) \<Rightarrow> bool \<Rightarrow> uuid \<Rightarrow>
       ('r, 'v, 'w) manager \<Rightarrow> ('r, 'v, 'w) manager \<Rightarrow> bool"
  for V fresh pattern_ok oc i m0 where
  begins: "steps_without V fresh pattern_ok oc i m0 m0"
| goes_on: "steps_without V fresh pattern_ok oc i m0 m \<Longrightarrow> manager_step V fresh pattern_ok oc m m' \<Longrightarrow>
     m' \<noteq> snd (manager_unsubscribe V i m) \<Longrightarrow> steps_without V fresh pattern_ok oc i m0 m'"

lemma crashed_iff:
  "crashed m i \<longleftrightarrow>
     (\<exists>t. map_of (m_subscriptions m) i = Some t \<and> \<not> task_running t) \<and> i \<notin> set (m_unsub_queue m)"
  by (auto simp: crashed_def split: option.split)

text \<open>How it comes about.\<close>

lemma panic_crashes:
  assumes "map_of (m_subscriptions m) i = Some t" "task_running t" "chan_recv (task_queue t) = (Some env, q)"
    and "retry_loop V (task_handler t) oc (m_max_retries m) (m_retry_backoff m) i env 0 (m_shared m) =
      Some (LoopPanicked s)"
    and "i \<notin> set (m_unsub_queue m)"
  shows "\<exists>m'. task_recv V oc i m = Some m' \<and> crashed m' i"
  using assms by (simp add: task_recv_def crashed_iff set_task_def end_task_def)

lemma crashed_set_task:
  "crashed m i \<Longrightarrow> j \<noteq> i \<or> \<not> task_running t \<Longrightarrow> crashed (set_task j t m) i"
  by (auto simp: crashed_iff set_task_def)

lemma crashed_shared [simp]: "crashed (m\<lparr>m_shared := s\<rparr>) i \<longleftrightarrow> crashed m i"
  by (simp add: crashed_iff)

lemma crashed_update_cell: "crashed m i \<Longrightarrow> crashed (update_cell j f m) i"
  by (auto simp: crashed_iff update_cell_def set_task_def split: option.split)

lemma crashed_poll_sends: "crashed m i \<Longrightarrow> crashed (snd (poll_sends env ids m)) i"
proof (induction ids arbitrary: m)
  case Nil
  then show ?case by simp
next
  case (Cons j ids)
  have "crashed (set_task j (t\<lparr>task_queue := q\<rparr>) m) i" if "map_of (m_subscriptions m) j = Some t" for t q
    using that Cons.prems by (auto simp: crashed_iff set_task_def)
  then show ?case
    using Cons by (simp add: split_beta split: option.split)
qed

lemma crashed_spawn:
  "spawn_and_register V h tid tname e hc m = Done (res, m') \<Longrightarrow> crashed m i \<Longrightarrow> h_id (fst hc) \<noteq> i \<Longrightarrow>
     crashed m' i"
  by (cases "fst (vt_register V (sh_registry (m_shared m)) tid tname e)")
    (auto simp: spawn_and_register_def Let_def split_beta intro!: crashed_set_task crashed_update_cell)

lemma crashed_unsubscribe:
  "crashed m i \<Longrightarrow> j \<noteq> i \<Longrightarrow> crashed (snd (manager_unsubscribe V j m)) i"
  by (auto simp: manager_unsubscribe_def crashed_update_cell Let_def crashed_iff
      split: prod.split sum.split)
    (auto simp: update_cell_def set_task_def split: option.split)

lemma crashed_task_recv: "task_recv V oc j m = Some m' \<Longrightarrow> crashed m i \<Longrightarrow> crashed m' i"
  by (auto simp: task_recv_def crashed_iff set_task_def
      split: option.splits if_splits prod.splits loop_result.splits)

lemma crashed_task_shutdown: "task_shutdown j m = Some m' \<Longrightarrow> crashed m i \<Longrightarrow> crashed m' i"
  by (auto simp: task_shutdown_def crashed_iff set_task_def split: option.splits if_splits)

lemma crashed_auto_unsubscribe: "auto_unsubscribe V m = Some m' \<Longrightarrow> crashed m i \<Longrightarrow> crashed m' i"
  by (auto simp: auto_unsubscribe_def crashed_iff Let_def split: list.splits if_splits)

context observed_registry
begin

lemma fresh_not_crashed:
  assumes "manager_wf invar live m" "fresh (sh_registry (m_shared m)) j"
  shows "\<not> crashed m j"
proof -
  have "live (sh_registry (m_shared m)) j = None"
    using assms by (intro fresh_not_live) (simp_all add: manager_wf_def)
  then show ?thesis
    using manager_wf_mem [OF assms(1)] by (auto simp: crashed_iff)
qed

text \<open>The one call that removes it.\<close>

lemma unsubscribe_removes:
  assumes "manager_wf invar live m"
  shows "map_of (m_subscriptions (snd (manager_unsubscribe V i m))) i = None"
proof -
  have inv: "invar (sh_registry (m_shared m))" using assms by (simp add: manager_wf_def)
  show ?thesis
    using unregister_result [OF inv, of i] manager_wf_mem [OF assms, of i]
    by (auto simp: manager_unsubscribe_def update_cell_def split_beta Let_def split: sum.split option.split)
qed

lemma crashed_step:
  assumes "manager_step V fresh pattern_ok oc m m'" "manager_wf invar live m" "crashed m i"
    and "m' \<noteq> snd (manager_unsubscribe V i m)"
  shows "crashed m' i"
  using assms
proof (induction rule: manager_step.induct)
  case (subscribes m j topic_opt T h name res m')
  have "j \<noteq> i"
    using subscribes by (auto dest: fresh_not_crashed)
  then show ?case
    using subscribes(3,5)
    by (auto simp: subscribe_typed_def intro: crashed_spawn)
next
  case (subscribes_untyped m j h tid tname res m')
  have "j \<noteq> i"
    using subscribes_untyped by (auto dest: fresh_not_crashed)
  then show ?case
    using subscribes_untyped(2,4)
    by (auto simp: subscribe_untyped_def Let_def intro: crashed_spawn)
next
  case (unsubscribes m j)
  then show ?case using crashed_unsubscribe by metis
qed (auto intro: crashed_poll_sends crashed_task_recv crashed_task_shutdown crashed_auto_unsubscribe
    crashed_update_cell)

lemma crashed_steps:
  "steps_without V fresh pattern_ok oc i m m' \<Longrightarrow> manager_wf invar live m \<Longrightarrow> crashed m i \<Longrightarrow>
     manager_wf invar live m' \<and> crashed m' i"
  by (induction rule: steps_without.induct) (auto intro: manager_step_wf crashed_step)

text \<open>What a crashed subscription does from then on: nothing, and it stays in both maps.\<close>

lemma crashed_is_inert:
  assumes "manager_wf invar live m" "crashed m i"
  shows "live (sh_registry (m_shared m)) i \<noteq> None \<and> task_recv V oc i m = None \<and>
    task_shutdown i (update_cell i f m) = None \<and> fst (poll_sends env [i] m) = [] \<and>
    map_of (m_subscriptions (snd (poll_sends env [i] m))) i = map_of (m_subscriptions m) i"
proof -
  obtain t where t: "map_of (m_subscriptions m) i = Some t" "\<not> task_running t"
    using assms(2) by (auto simp: crashed_iff)
  have "chan_send (task_queue t) env = (Ready False, task_queue t)"
    using manager_wf_task [OF assms(1) t(1)] t(2) by (simp add: task_wf_def chan_send_closed)
  moreover have "live (sh_registry (m_shared m)) i \<noteq> None"
    using manager_wf_mem [OF assms(1), of i] t(1) by simp
  ultimately show ?thesis
    using t by (auto simp: task_recv_def task_shutdown_def update_cell_def set_task_def)
qed

end

section \<open>Properties\<close>

text \<open>
  C0: a crashed handler task is never noticed. From then on, until somebody calls \<open>unsubscribe\<close> on the
  bus for its id, and whatever else happens, the registry keeps listing the subscription, so that its
  events are still routed to it; every send to it is over at once and the event is gone; the task does
  nothing any more; and unsubscribing or dropping its handle does not remove it.
\<close>

theorem crashed_subscription_stays:
  assumes "manager_wf registry_inv live m" "crashed m i"
    and "steps_without dashmap_vtable fresh_id valid_topic oc i m m'"
  shows "crashed m' i \<and> live (sh_registry (m_shared m')) i \<noteq> None \<and>
    task_recv dashmap_vtable oc i m' = None \<and>
    task_shutdown i (update_cell i handle_unsubscribe m') = None \<and>
    (\<forall>env. fst (poll_sends env [i] m') = [] \<and>
       map_of (m_subscriptions (snd (poll_sends env [i] m'))) i = map_of (m_subscriptions m') i)"
  using dash_obs.crashed_steps [OF assms(3,1,2)] dash_obs.crashed_is_inert by blast

text \<open>A base delay that cannot be doubled: the task of a failing handler dies at its second failure.\<close>

definition crashing_task :: "(nat, nat) sub_task" where
  "crashing_task =
     \<lparr>task_handler = flaky 9,
      task_queue = \<lparr>chan_capacity = 2, chan_buffer = [echo_env 4], chan_open = True\<rparr>,
      task_cell = snd (handle_new 1), task_running = True\<rparr>"

definition crashing_manager :: "(nat dashmap_registry, nat, nat) manager" where
  "crashing_manager =
     echo_manager\<lparr>m_retry_backoff := duration_max, m_subscriptions := [(1, crashing_task)]\<rparr>"

lemma delays_of_crashing:
  "u32_inc True 0 = Done 1" "u32_inc True 1 = Done 2"
  "doubled_delay True duration_max 1 = Done duration_max" "doubled_delay True duration_max 2 = Panic"
  by (simp_all add: u32_inc_def doubled_delay_def u32_dec_def pow2_u32_def duration_mul_def duration_max_def)

lemma crashing_loop:
  "\<exists>s. retry_loop dashmap_vtable (flaky 9) True 3 duration_max 1 (echo_env 4) 0
     (m_shared crashing_manager) = Some (LoopPanicked s) \<and> sh_registry s = sh_registry (m_shared crashing_manager)"
proof -
  let ?s = "m_shared crashing_manager" and ?h = "flaky 9" and ?e = "echo_env 4"
  define s1 where "s1 = snd (run_handler ?h ?e ?s)"
  define s2 where "s2 = snd (run_handler ?h ?e (log_event (Backoff duration_max) s1))"
  have w: "sh_world ?s = 0" "sh_world s1 = 1" 
    by (simp_all add: s1_def crashing_manager_def echo_shared_def run_handler_def log_event_def)
  have r: "run_handler ?h ?e ?s = (Inl (handler_error ''not yet''), s1)"
    "run_handler ?h ?e (log_event (Backoff duration_max) s1) = (Inl (handler_error ''not yet''), s2)"
    by (simp_all add: s1_def s2_def prod_eq_iff w) 
  have "retry_loop dashmap_vtable ?h True 3 duration_max 1 ?e 0 ?s = Some (LoopPanicked s2)"
    by (simp add: retry_loop_failed [OF r(1) delays_of_crashing(1)] delays_of_crashing(3,4)
      retry_loop_failed [OF r(2) delays_of_crashing(2)])
  moreover have "sh_registry s2 = sh_registry ?s" 
    by (simp add: s1_def s2_def run_handler_def log_event_def)
  ultimately show ?thesis by blast
qed

theorem crashed_subscription_stays_witness:
  "\<exists>m m'. task_recv dashmap_vtable True 1 crashing_manager = Some m \<and>
     task_shutdown 1 (update_cell 1 handle_unsubscribe crashing_manager) \<noteq> None \<and>
     task_shutdown 1 (update_cell 1 handle_unsubscribe m') = None \<and>
     m' = snd (poll_sends (echo_env 5) [1] m) \<and> live (sh_registry (m_shared m')) 1 = Some (5, entry_new 1)"
proof -
  obtain s where s: "retry_loop dashmap_vtable (flaky 9) True 3 duration_max 1 (echo_env 4) 0
      (m_shared crashing_manager) = Some (LoopPanicked s)" "sh_registry s = sh_registry (m_shared crashing_manager)"
    using crashing_loop by blast
  have t: "map_of (m_subscriptions crashing_manager) 1 = Some crashing_task" "task_running crashing_task"
     "chan_recv (task_queue crashing_task) = (Some (echo_env 4), \<lparr>chan_capacity = 2, chan_buffer = [], chan_open = True\<rparr>)"
      "task_handler crashing_task = flaky 9"
      "m_max_retries crashing_manager = 3" "m_retry_backoff crashing_manager = duration_max" "m_unsub_queue crashing_manager = []"
    by (simp_all add: crashing_manager_def crashing_task_def chan_recv_def)
  have wf0: "manager_wf registry_inv live crashing_manager"
    by (simp add: manager_wf_def crashing_manager_def crashing_task_def task_wf_def echo_registry)
  obtain m where m: "task_recv dashmap_vtable True 1 crashing_manager = Some m" "crashed m 1"
    using panic_crashes [OF t(1-3)] s(1) t(4-7) by fastforce
  have wf: "manager_wf registry_inv live m" by (rule dash_obs.task_recv_wf [OF wf0 m(1)])
  define m' where "m' = snd (poll_sends (echo_env 5) [1] m)"
  have crm: "crashed m' 1" unfolding m'_def by (rule crashed_poll_sends [OF m(2)])
  have ne: "m' \<noteq> snd (manager_unsubscribe dashmap_vtable 1 m)"
    using crm dash_obs.unsubscribe_removes [OF wf, of 1] by (auto simp: crashed_iff)
  have run: "steps_without dashmap_vtable fresh_id valid_topic True 1 m m'"
    by (rule goes_on [OF begins _ ne]) (simp only: m'_def manager_step.sends)
  have reg: "live (sh_registry (m_shared m')) 1 = Some (5, entry_new 1)"
  proof -
    have "m_shared m = s"
      using m(1) s(1) t by (auto simp: task_recv_def set_task_def)
    then have "sh_registry (m_shared m') = sh_registry (m_shared crashing_manager)"
      unfolding m'_def poll_sends_shared by (simp only: s(2))
    then show ?thesis
      by (simp add: crashing_manager_def echo_registry)
  qed
  have "task_shutdown 1 (update_cell 1 handle_unsubscribe crashing_manager) \<noteq> None"
    using t by (simp add: task_shutdown_def update_cell_def set_task_def crashing_task_def handle_unsubscribe_def handle_drop_def handle_new_def)
  with crashed_subscription_stays [OF wf m(2) run] m(1) reg show ?thesis 
    by (intro exI [of _ m] exI [of _ m']) (simp add: m'_def)
qed
end
