(* ===== verification/Spec2Isabelle.thy ===== *)
theory Spec2Isabelle
  imports Requests Worker_Pool Pipeline_Progress Store_Protocol Remote_Consumer Crashed_Tasks
begin

text \<open>
  A verification development of tokio-events, an asynchronous event bus in Rust (src/).

  \<^bold>\<open>The program.\<close> A publication on the bus wraps a value in an envelope and hands it to the
  dispatcher, a bounded queue with one worker. The worker asks the subscription manager for the
  subscriptions concerned, by event type and by topic pattern, and sends the envelope to the queue of
  each. Every subscription has a task of its own that runs the handler with retries, counts and
  acknowledges a success in the registry, and sends what fails for good to the dead letter queue. With
  persistence the dispatcher writes batches to a database before it dispatches them, and the registry
  turns acknowledgements into reference counts there. A builder puts the parts together; a transport
  connects buses over NATS.

  \<^bold>\<open>Theories and code\<close> (files under src/src/ unless they say otherwise).

  Data. \<open>Prelude\<close>: machine integers, panics as values, association lists, \<open>str::split\<close>. \<open>Errors\<close>:
  error.rs. \<open>Metadata\<close>: event/metadata.rs. \<open>Envelope\<close>: event/mod.rs and event/envelope.rs; an event type
  is the dictionary of its \<open>Event\<close> implementation. \<open>Config\<close>: bus/config.rs.

  Registries. \<open>Topic_Trie\<close>: registry/topic_trie.rs, against an abstract set of (pattern, id) pairs with
  the locale \<open>topic_index\<close>. \<open>Registry\<close>: registry/mod.rs, the trait as a record of methods, with the laws a
  user relies on as the locales \<open>event_registry\<close> and \<open>topic_event_registry\<close>. \<open>DashMap_Registry\<close>:
  registry/dashmap.rs, which interprets both; its five maps refine one finite map.

  Subscriptions. \<open>Handlers\<close>: subscription/handler.rs. \<open>Subscription_Handle\<close>: subscription/handle.rs.
  \<open>Retry_Policy\<close>: dispatcher/retry.rs, locale \<open>retry_policy\<close>. \<open>Subscription_Manager\<close>: subscription/mod.rs,
  routing, the retry loop, the life cycle of a task, both shutdowns. \<open>Task_Steps\<close>: the same retry loop as
  the steps of a task between the points where it waits, its handler's panic included, and any
  interleaving of tasks.
  \<open>Manager_Invariant\<close>: the steps of the
  manager as a relation, its invariant, and the locale \<open>observed_registry\<close> that extends \<open>event_registry\<close>
  by what the tasks write into it, interpreted on both registries. \<open>Crashed_Tasks\<close>: what a task that died
  leaves behind.

  Dispatchers. \<open>Channels\<close>: the bounded queues of the runtime, locale \<open>bounded_channel\<close>. \<open>Worker_Pool\<close>:
  dispatcher/worker.rs. \<open>Dispatcher\<close>: dispatcher/mod.rs, the trait as a record of methods, locale
  \<open>event_dispatcher\<close>. \<open>Channel_Dispatcher\<close>: dispatcher/channel.rs. \<open>Redb_Store\<close> and \<open>Redb_Dispatcher\<close>:
  persistence/redb.rs, the tables and transactions, then the dispatcher with its batches, its scheduler
  and its two replays. Both dispatchers interpret \<open>event_dispatcher\<close>. \<open>Store_Protocol\<close>: the database under the transactions of all
  the tasks that write to it. \<open>Pipeline\<close>: publishers, the channel dispatcher's worker, the manager and the
  handler tasks together, one step of one of them at a time, a panic of a handler included.
  \<open>Pipeline_Progress\<close>: what the worker and the tasks do when nobody interferes, bounded in length, and
  what has become of every event when they are done.

  The bus. \<open>Event_Bus\<close>: bus/mod.rs and global.rs, over the methods of any dispatcher and registry.
  \<open>Bus_Protocol\<close>: publications against a graceful shutdown in every interleaving. \<open>Bus_Properties\<close>: the
  graceful shutdown end to end, the two publications, draining, remote messages. \<open>Remote\<close>:
  remote/nats.rs. \<open>Remote_Consumer\<close>: the streams of the transport and the loop that reads them. \<open>Derive\<close>:
  the macros of src/tokio-events-macros/src/lib.rs, the code they generate, and the JSON helpers. \<open>Builder\<close>:
  bus/builder.rs. \<open>Life_Cycle\<close>: what is built, and an event's way from the publication to the handler.
  \<open>Requests\<close>: a request's way to the responder and back.

  \<^bold>\<open>Modelling.\<close> A trait object is a record of its methods over its state. An awaited call is \<open>Pending\<close>
  or \<open>Ready\<close>; a method that waits for other tasks is split where the wait starts (\<open>_begin\<close>, \<open>_finish\<close>).
  Background tasks are step functions that give \<open>None\<close> when they cannot go on. A \<open>Result\<close> is
  \<open>error + 'a\<close>, a panic the value \<open>Panic\<close>. Arithmetic is kept at its width: \<open>oc\<close> says whether the build
  checks overflow. Handlers act on a state \<open>'w\<close> of the program around the bus, hooks and transports on
  a state \<open>'x\<close>. Clocks, fresh ids, random numbers, the outcome of a transaction and the runtime's
  choices are arguments. Hash maps, dash maps and tables are association lists.

  \<^bold>\<open>What the lemmas show.\<close> The data theories: selectors, round trips and the codec's role. The trie and
  the registries: refinement of abstract maps, and the law-by-law interpretation of the locales. The
  manager: exactly who receives what, how often a handler runs, termination of the retry loop, the
  consistency of tasks and registry. The dispatchers: order, conservation and counting of events, the
  reference count protocol, what a replay gives back; in every reachable database each row is within reach
  of a replay. The pipeline: at every moment, in every interleaving, each subscription has taken a first
  part of what was routed to it, in order, and passed one verdict on each event it is done with; left to
  itself it comes to rest with every accepted event settled, unless a task waits for room in a full dead
  letter queue. The bus: no publication is accepted once the shutdown holds the lock, and what a graceful
  shutdown delivers. Properties that hold against the intention of the code (races, losses, deadlocks, repeated hooks) are stated as they are.

  \<^bold>\<open>Loops and bounds.\<close> The retry loop is a partial function; it returns for every handler unless the
  maximum is the largest \<open>u32\<close>. Its delays need the maximum to be at most 32 and the doubled base to fit
  in a \<open>Duration\<close>, which all presets satisfy (\<open>Config.config_presets_usable\<close>). \<open>worker_run n\<close> and
  \<open>dlq_hook_run n\<close> take the number of steps, and the length of the queue is enough. The pipeline has no
  fuel: \<open>work_left\<close> bounds its work by what the queues and the tasks hold and the retries allowed, one dispatch to every
  subscription for each event that waits.

  \<^bold>\<open>Not modelled.\<close> The runtime's scheduler beyond the interleavings above; tracing and metrics; the
  database, the NATS client and the coders of serde_json and prost themselves (parameters); the token
  streams of the macros (the code they generate is the \<open>event_ty\<close> record); the accessors and \<open>Debug\<close>
  implementations; the size hints of the maps; the re-exports of lib.rs; tests, examples and benchmarks.
  In \<open>Task_Steps\<close> and \<open>Pipeline\<close> every call of a handler may panic; in the theories over the
  retry loop as a function, handlers return, and a task dies only by an overflow in its retry delay
  (\<open>Crashed_Tasks\<close> says what either leaves behind). A handler that never returns is not modelled. The
  shutdowns and the steps of \<open>Manager_Invariant\<close> and \<open>Life_Cycle\<close> use the retry loop as a function (one
  envelope with all its retries), which \<open>Task_Steps\<close> justifies for a task that runs alone and \<open>Pipeline\<close>
  does not need.
\<close>

end
